(* ===== verification/Sqlq_Ast.thy ===== *)
theory Sqlq_Ast
  imports Prelude
begin

text \<open>
  The abstract syntax of the query language (\<open>internal/sqlq/ast.go\<close>) and the engines
  (\<open>internal/sqlq/engine.go\<close>). A Go struct is a record with the same fields, a Go enum is a
  datatype, the closed interface \<open>Condition\<close> is a datatype with one constructor per concrete
  type. A nil pointer or interface is \<open>None\<close>. The empty string keeps the meaning it has in the
  code: no qualifier, no alias, no aggregate.
\<close>

text \<open>\<open>Value.Go\<close> is Go's \<open>any\<close>; the four types it ever holds are the constructors. A
  \<open>float64\<close> is its 64-bit pattern.\<close>

datatype go_value =
    GoNil
  | GoString string
  | GoInt int
  | GoFloat "64 word"
  | GoBool bool

datatype value_kind = StringVal | NumberVal | BoolVal | NullVal

record sql_value =
  v_kind :: value_kind
  v_go :: go_value

text \<open>The zero value of the struct \<open>Value\<close>, which a column comparison leaves in \<open>Val\<close>.\<close>

definition zero_value :: sql_value where
  "zero_value = \<lparr>v_kind = StringVal, v_go = GoNil\<rparr>"

record column =
  col_table :: string
  col_name :: string

record select_item =
  si_agg :: string
  si_star :: bool
  si_column :: column
  si_alias :: string

record table_ref =
  tr_name :: string
  tr_alias :: string

datatype join_type = InnerJoin | LeftJoin | RightJoin

datatype logical_op = OpAnd | OpOr

datatype condition =
    Logical logical_op condition condition
  | NotC condition
  | Comparison column string sql_value "column option"
  | In column "sql_value list"
  | Like column sql_value
  | IsNull column bool
  | Between column sql_value sql_value

record join =
  j_type :: join_type
  j_table :: table_ref
  j_on :: condition

record order_item =
  o_column :: column
  o_desc :: bool

record query =
  q_star :: bool
  q_columns :: "select_item list"
  q_from :: table_ref
  q_joins :: "join list"
  q_where :: "condition option"
  q_group_by :: "column list"
  q_order_by :: "order_item list"
  q_limit :: "int option"
  q_offset :: "int option"

definition zero_column :: column where
  "zero_column = \<lparr>col_table = [], col_name = []\<rparr>"

datatype engine = EnginePostgres | EngineMySQL | EngineSQLite

text \<open>\<open>Engine.String\<close> and \<open>Engine.dialect\<close>; the \<open>default\<close> branches of the two switches are for
  integers outside the enum.\<close>

fun engine_string :: "engine \<Rightarrow> string" where
  "engine_string EnginePostgres = ''postgres''"
| "engine_string EngineMySQL = ''mysql''"
| "engine_string EngineSQLite = ''sqlite''"

fun engine_dialect :: "engine \<Rightarrow> string" where
  "engine_dialect EnginePostgres = ''postgres''"
| "engine_dialect EngineMySQL = ''mysql''"
| "engine_dialect EngineSQLite = ''sqlite3''"

section \<open>What a query mentions\<close>

text \<open>
  The columns, literal values and operators of a condition, in the order they occur. These
  are used to state what resolution and translation do with every part of a query.
\<close>

fun cond_columns :: "condition \<Rightarrow> column list" where
  "cond_columns (Logical _ l r) = cond_columns l @ cond_columns r"
| "cond_columns (NotC c) = cond_columns c"
| "cond_columns (Comparison c _ _ rc) = c # (case rc of None \<Rightarrow> [] | Some r \<Rightarrow> [r])"
| "cond_columns (In c _) = [c]"
| "cond_columns (Like c _) = [c]"
| "cond_columns (IsNull c _) = [c]"
| "cond_columns (Between c _ _) = [c]"

fun cond_values :: "condition \<Rightarrow> sql_value list" where
  "cond_values (Logical _ l r) = cond_values l @ cond_values r"
| "cond_values (NotC c) = cond_values c"
| "cond_values (Comparison _ _ v rc) = (case rc of None \<Rightarrow> [v] | Some _ \<Rightarrow> [])"
| "cond_values (In _ vs) = vs"
| "cond_values (Like _ v) = [v]"
| "cond_values (IsNull _ _) = []"
| "cond_values (Between _ l h) = [l, h]"

end
