(* ===== verification/Sqlq_Lexer.thy ===== *)
theory Sqlq_Lexer
  imports Sqlq_Ast "HOL-Library.Sublist"
begin

text \<open>
  The lexer of the query language (\<open>internal/sqlq/lexer.go\<close>).

  The Go loop keeps the source \<open>src\<close> and a byte index \<open>i\<close>. The model keeps the index \<open>i\<close> and the
  rest of the input \<open>src[i:]\<close>: \<open>src[i]\<close> is the head of the rest, \<open>i < n\<close> says the rest is not
  empty, and \<open>src[start:j]\<close> is the part of the rest before the new rest. A scanning loop
  \<open>for i < n && p(src[i]) { i++ }\<close> is \<open>takeWhile p\<close> (what it passed) and \<open>dropWhile p\<close> (what is
  left). One iteration of the main loop is \<open>lex_step\<close>; \<open>lex_loop\<close> repeats it.
\<close>

datatype tokenKind =
    TokEOF | TokIdent | TokKeyword | TokString | TokNumber | TokComma
  | TokLParen | TokRParen | TokDot | TokStar | TokOp

record token =
  t_kind :: tokenKind
  t_text :: string
  t_pos :: nat

abbreviation tok :: "tokenKind \<Rightarrow> string \<Rightarrow> nat \<Rightarrow> token" where
  "tok k s i \<equiv> \<lparr>t_kind = k, t_text = s, t_pos = i\<rparr>"

text \<open>
  The errors of the package's front end, lexer and parser, one constructor per
  \<open>fmt.Errorf\<close> with the values the message formats. \<open>OutOfFuel\<close> is no error of the code: it
  marks a run of the model's recursion that was cut short, and is proved never to occur.
\<close>

datatype parse_error =
    UnexpectedChar char nat
  | MalformedNumber nat
  | UnterminatedString nat
  | InvalidNumber string
  | Expected string token
  | UnexpectedAfterQuery token
  | AggStarNotAllowed string
  | LikeRequiresString
  | ExpectedPredicate token
  | ExpectedValue token
  | RequiresInteger string token
  | RequiresNonNegInt string string
  | OutOfFuel

definition keyword_list :: "string list" where
  "keyword_list =
     [''SELECT'', ''FROM'', ''WHERE'', ''GROUP'', ''BY'',
      ''ORDER'', ''LIMIT'', ''OFFSET'', ''JOIN'', ''INNER'',
      ''LEFT'', ''RIGHT'', ''OUTER'', ''ON'', ''AS'',
      ''AND'', ''OR'', ''NOT'', ''IN'', ''LIKE'',
      ''IS'', ''NULL'', ''BETWEEN'', ''ASC'', ''DESC'',
      ''TRUE'', ''FALSE'',
      ''COUNT'', ''SUM'', ''AVG'', ''MIN'', ''MAX'']"

definition is_space :: "char \<Rightarrow> bool" where
  "is_space c \<longleftrightarrow> c = CHR '' '' \<or> c = CHR 0x09 \<or> c = CHR 0x0A \<or> c = CHR 0x0D"

definition is_sign :: "char \<Rightarrow> bool" where
  "is_sign c \<longleftrightarrow> c = CHR ''+'' \<or> c = CHR ''-''"

text \<open>\<open>i < n && p(src[i])\<close> on the rest of the input.\<close>

definition at :: "(char \<Rightarrow> bool) \<Rightarrow> string \<Rightarrow> bool" where
  "at p s \<longleftrightarrow> s \<noteq> [] \<and> p (hd s)"

lemma at_Nil [simp]: "\<not> at p []"
  by (simp add: at_def)

lemma at_Cons [simp]: "at p (c # s) \<longleftrightarrow> p c"
  by (simp add: at_def)

section \<open>Numbers\<close>

text \<open>
  The stages of \<open>lexNumber\<close>: the optional sign; the digits before and after at most one point,
  with the flag \<open>digits\<close> that some digit was seen; the optional exponent, with the flag that it
  is not an exponent without digits.
\<close>

definition scan_sign :: "string \<Rightarrow> string" where
  "scan_sign s = (if at is_sign s then tl s else s)"

definition scan_mantissa :: "string \<Rightarrow> bool \<times> string" where
  "scan_mantissa s =
     (let s' = dropWhile is_digit s
      in if at (\<lambda>c. c = CHR ''.'') s'
         then (at is_digit s \<or> at is_digit (tl s'), dropWhile is_digit (tl s'))
         else (at is_digit s, s'))"

definition scan_exponent :: "string \<Rightarrow> bool \<times> string" where
  "scan_exponent s =
     (if at (\<lambda>c. c = CHR ''e'' \<or> c = CHR ''E'') s
      then let s' = scan_sign (tl s) in (at is_digit s', dropWhile is_digit s')
      else (True, s))"

text \<open>
  \<open>lexNumber\<close> from the offset \<open>start\<close>: no digit, an exponent without digits, or an identifier
  character right after the number is the error. It returns the token, whose text is the
  source spelling \<open>src[start:i]\<close>, and the rest of the input.
\<close>

definition lex_number :: "nat \<Rightarrow> string \<Rightarrow> parse_error + token \<times> string" where
  "lex_number start s =
     (let (digits, s1) = scan_mantissa (scan_sign s)
      in if \<not> digits then Inl (MalformedNumber start)
         else
           let (exp_ok, s2) = scan_exponent s1
           in if \<not> exp_ok then Inl (MalformedNumber start)
              else if at is_ident_char s2 then Inl (MalformedNumber start)
              else Inr (tok TokNumber (take (length s - length s2) s) start, s2))"

section \<open>Strings\<close>

text \<open>
  The loop of \<open>lexString\<close>, past the opening quote: it returns the decoded value and the rest
  after the closing quote. A doubled quote is one quote of the value; the end of the input
  before a closing quote is the error.
\<close>

fun lex_string_body :: "string \<Rightarrow> (string \<times> string) option" where
  "lex_string_body [] = None"
| "lex_string_body (c # s) =
     (if c = CHR 0x27 then
        (case s of
           d # s' \<Rightarrow>
             (if d = CHR 0x27 then map_option (\<lambda>(v, r). (CHR 0x27 # v, r)) (lex_string_body s')
              else Some ([], s))
         | [] \<Rightarrow> Some ([], s))
      else map_option (\<lambda>(v, r). (c # v, r)) (lex_string_body s))"

definition lex_string :: "nat \<Rightarrow> string \<Rightarrow> parse_error + token \<times> string" where
  "lex_string start s =
     (case lex_string_body (tl s) of
        None \<Rightarrow> Inl (UnterminatedString start)
      | Some (v, r) \<Rightarrow> Inr (tok TokString v start, r))"

section \<open>The main loop\<close>

text \<open>
  One iteration of the \<open>switch\<close> of \<open>lex\<close> at index \<open>i\<close> with the rest \<open>c # cs\<close>: the token
  appended, if any, and the rest after it.
\<close>

definition lex_word :: "nat \<Rightarrow> string \<Rightarrow> token" where
  "lex_word start word =
     (let up = to_upper word
      in if up \<in> set keyword_list then tok TokKeyword up start else tok TokIdent word start)"

definition lex_step :: "nat \<Rightarrow> char \<Rightarrow> string \<Rightarrow> parse_error + token option \<times> string" where
  "lex_step i c cs =
     (let src = c # cs;
          one = (\<lambda>k. Inr (Some (tok k [c] i), cs));
          two = (\<lambda>d. Inr (Some (tok TokOp [c, d] i), tl cs));
          number = bind_res (lex_number i src) (\<lambda>(t, r). Inr (Some t, r))
      in if is_space c then Inr (None, cs)
         else if is_letter c then
           Inr (Some (lex_word i (takeWhile is_ident_char src)), dropWhile is_ident_char src)
         else if is_digit c then number
         else if is_sign c then
           (if at is_digit cs \<or> at (\<lambda>d. d = CHR ''.'') cs then number
            else Inl (UnexpectedChar c i))
         else if c = CHR 0x27 then bind_res (lex_string i src) (\<lambda>(t, r). Inr (Some t, r))
         else if c = CHR '','' then one TokComma
         else if c = CHR ''('' then one TokLParen
         else if c = CHR '')'' then one TokRParen
         else if c = CHR ''.'' then one TokDot
         else if c = CHR ''*'' then one TokStar
         else if c = CHR ''='' then one TokOp
         else if c = CHR ''!'' then
           (if at (\<lambda>d. d = CHR ''='') cs then two (CHR ''='') else Inl (UnexpectedChar c i))
         else if c = CHR ''<'' then
           (if at (\<lambda>d. d = CHR ''='') cs then two (CHR ''='')
            else if at (\<lambda>d. d = CHR ''>'') cs then two (CHR ''>'')
            else one TokOp)
         else if c = CHR ''>'' then
           (if at (\<lambda>d. d = CHR ''='') cs then two (CHR ''='') else one TokOp)
         else Inl (UnexpectedChar c i))"

section \<open>What one step consumes\<close>

lemma suffix_take: "suffix r s \<Longrightarrow> take (length s - length r) s @ r = s"
  by (auto simp: suffix_def)

lemma suffix_tl_trans: "suffix r s \<Longrightarrow> suffix (tl r) s"
  by (meson suffix_order.trans suffix_tl)

lemma suffix_dropWhile_trans: "suffix r s \<Longrightarrow> suffix (dropWhile p r) s"
  by (meson suffix_order.trans suffix_dropWhile)

lemmas suffix_scan = suffix_tl_trans suffix_dropWhile_trans

lemma scan_sign_suffix: "suffix (scan_sign s) s"
  by (simp add: scan_sign_def suffix_tl)

lemma scan_mantissa_suffix: "scan_mantissa s = (d, r) \<Longrightarrow> suffix r s"
  by (auto simp: scan_mantissa_def Let_def split: if_splits intro!: suffix_scan)

lemma scan_exponent_suffix: "scan_exponent s = (d, r) \<Longrightarrow> suffix r s"
  by (auto simp: scan_exponent_def scan_sign_def Let_def split: if_splits intro!: suffix_scan)

lemma at_dropWhile_less: "at p s \<Longrightarrow> length (dropWhile p s) < length s"
  by (cases s) (auto simp: length_dropWhile_le le_imp_less_Suc)

lemma scan_mantissa_less: "scan_mantissa s = (True, r) \<Longrightarrow> length r < length s"
proof -
  assume m: "scan_mantissa s = (True, r)"
  let ?s' = "dropWhile is_digit s"
  have le: "length ?s' \<le> length s" by (rule length_dropWhile_le)
  show ?thesis
  proof (cases "at (\<lambda>c. c = CHR ''.'') ?s'")
    case True
    then have "?s' \<noteq> []" by (simp only: at_def simp_thms)
    moreover have "r = dropWhile is_digit (tl ?s')"
      using m True by (simp add: scan_mantissa_def Let_def)
    moreover have "length (dropWhile is_digit (tl ?s')) \<le> length (tl ?s')"
      by (rule length_dropWhile_le)
    ultimately show ?thesis
      using le by (cases ?s') auto
  next
    case False
    then have "r = ?s'" and "at is_digit s"
      using m by (auto simp: scan_mantissa_def Let_def)
    then show ?thesis by (simp add: at_dropWhile_less)
  qed
qed

lemma lex_number_ok:
  "lex_number i s = Inr (t, r) \<longleftrightarrow>
     (\<exists>s1. scan_mantissa (scan_sign s) = (True, s1) \<and> scan_exponent s1 = (True, r)
        \<and> \<not> at is_ident_char r \<and> t = tok TokNumber (take (length s - length r) s) i)"
  by (auto simp: lex_number_def split: prod.splits if_splits)

lemma lex_number_suffix: "lex_number i s = Inr (t, r) \<Longrightarrow> suffix r s"
  by (meson lex_number_ok scan_exponent_suffix scan_mantissa_suffix scan_sign_suffix
      suffix_order.trans)

lemma lex_number_token:
  "lex_number i s = Inr (t, r) \<Longrightarrow>
     t_kind t = TokNumber \<and> t_pos t = i \<and> s = t_text t @ r"
  using lex_number_suffix[of i s t r] by (auto simp: lex_number_ok suffix_take)

lemma lex_number_less: "lex_number i s = Inr (t, r) \<Longrightarrow> length r < length s"
  by (meson lex_number_ok scan_exponent_suffix scan_mantissa_less scan_sign_suffix
      suffix_length_le order.strict_trans1 order.strict_trans2)

lemma lex_string_body_suffix: "lex_string_body s = Some (v, r) \<Longrightarrow> suffix r s \<and> length r < length s"
proof (induction s arbitrary: v r rule: lex_string_body.induct)
  case (2 c s)
  then show ?case
    by (fastforce split: if_splits list.splits intro: suffix_ConsI)
qed simp

lemma lex_string_suffix:
  "lex_string i (c # cs) = Inr (t, r) \<Longrightarrow>
     t_kind t = TokString \<and> t_pos t = i \<and> suffix r cs \<and> length r < length (c # cs)"
  by (auto simp: lex_string_def split: option.splits dest: lex_string_body_suffix)

lemma lex_step_length: "lex_step i c cs = Inr (t, r) \<Longrightarrow> length r < length (c # cs)"
  by (auto simp: lex_step_def Let_def res_simps length_dropWhile_le le_imp_less_Suc at_def
        dest: lex_number_less lex_string_suffix split: if_splits)

text \<open>
  \<open>lex\<close>: the main loop to the end of the input, then the end-of-input token. The Go loop
  appends each token to a slice it returns only when no iteration failed; here the tokens of
  the rest are put behind the token of this iteration.
\<close>

function lex_loop :: "nat \<Rightarrow> string \<Rightarrow> parse_error + token list" where
  "lex_loop i [] = Inr [tok TokEOF [] i]"
| "lex_loop i (c # cs) =
     bind_res (lex_step i c cs) (\<lambda>(t, r).
       bind_res (lex_loop (i + (length (c # cs) - length r)) r) (\<lambda>ts.
         Inr (case t of None \<Rightarrow> ts | Some t' \<Rightarrow> t' # ts)))"
  by pat_completeness auto
termination
  by (relation "measure (\<lambda>(i, s). length s)") (auto dest: lex_step_length)

definition lex :: "string \<Rightarrow> parse_error + token list" where
  "lex src = lex_loop 0 src"

text \<open>
  \<open>parseNumber\<close>: an integer when the spelling has no point and no exponent and fits 64 bits,
  otherwise a float. \<open>pf\<close> is \<open>strconv.ParseFloat(text, 64)\<close>: the bits of the nearest float, or
  \<open>None\<close> for its error.
\<close>

definition parse_number :: "(string \<Rightarrow> 64 word option) \<Rightarrow> string \<Rightarrow> parse_error + go_value" where
  "parse_number pf txt =
     (case (if list_ex (\<lambda>c. c \<in> set ''.eE'') txt then None else parse_int64 txt) of
        Some v \<Rightarrow> Inr (GoInt v)
      | None \<Rightarrow> (case pf txt of Some f \<Rightarrow> Inr (GoFloat f) | None \<Rightarrow> Inl (InvalidNumber txt)))"

section \<open>The shape of the tokens\<close>

definition valid_ident :: "string \<Rightarrow> bool" where
  "valid_ident s \<longleftrightarrow> s \<noteq> [] \<and> is_letter (hd s) \<and> list_all is_ident_char s"

definition number_ok :: "string \<Rightarrow> bool" where
  "number_ok s \<longleftrightarrow> at (\<lambda>c. c \<noteq> CHR ''.'') s \<and> (case lex_number 0 s of Inr (_, []) \<Rightarrow> True | _ \<Rightarrow> False)"

definition op_list :: "string list" where
  "op_list = [''='', ''!='', ''<>'', ''<'', ''<='', ''>'', ''>='']"

fun token_text_ok :: "tokenKind \<Rightarrow> string \<Rightarrow> bool" where
  "token_text_ok TokEOF s = (s = [])"
| "token_text_ok TokIdent s = (valid_ident s \<and> to_upper s \<notin> set keyword_list)"
| "token_text_ok TokKeyword s = (s \<in> set keyword_list)"
| "token_text_ok TokString s = True"
| "token_text_ok TokNumber s = number_ok s"
| "token_text_ok TokComma s = (s = '','')"
| "token_text_ok TokLParen s = (s = ''('')"
| "token_text_ok TokRParen s = (s = '')'')"
| "token_text_ok TokDot s = (s = ''.'')"
| "token_text_ok TokStar s = (s = ''*'')"
| "token_text_ok TokOp s = (s \<in> set op_list)"

abbreviation token_ok :: "token \<Rightarrow> bool" where
  "token_ok t \<equiv> token_text_ok (t_kind t) (t_text t)"

text \<open>
  How a token is spelled in the source. A string literal is its value between quotes with
  every quote doubled; every other token is spelled by its text (a keyword in any case).
\<close>

definition escape_quotes :: "string \<Rightarrow> string" where
  "escape_quotes v = concat (map (\<lambda>c. if c = CHR 0x27 then [c, c] else [c]) v)"

definition quote_string :: "string \<Rightarrow> string" where
  "quote_string v = CHR 0x27 # escape_quotes v @ [CHR 0x27]"

definition spelling :: "token \<Rightarrow> string" where
  "spelling t = (if t_kind t = TokString then quote_string (t_text t) else t_text t)"

definition spelled :: "token \<Rightarrow> string \<Rightarrow> bool" where
  "spelled t w \<longleftrightarrow> (if t_kind t = TokKeyword then to_upper w = t_text t else w = spelling t)"

section \<open>Numbers as a grammar\<close>

text \<open>The spellings of numbers, as the comment of \<open>lexNumber\<close> describes them.\<close>

definition mantissa_form :: "string \<Rightarrow> bool" where
  "mantissa_form m \<longleftrightarrow> (\<exists>d1 d2. list_all is_digit d1 \<and> list_all is_digit d2 \<and> d1 @ d2 \<noteq> []
     \<and> (m = d1 @ CHR ''.'' # d2 \<or> d2 = [] \<and> m = d1))"

definition exponent_form :: "string \<Rightarrow> bool" where
  "exponent_form x \<longleftrightarrow> x = [] \<or> (\<exists>e sg d. x = e # sg @ d \<and> (e = CHR ''e'' \<or> e = CHR ''E'')
     \<and> (sg = [] \<or> sg = ''+'' \<or> sg = ''-'') \<and> list_all is_digit d \<and> d \<noteq> [])"

definition number_form :: "string \<Rightarrow> bool" where
  "number_form w \<longleftrightarrow> (\<exists>sg m x. w = sg @ m @ x \<and> (sg = [] \<or> sg = ''+'' \<or> sg = ''-'')
     \<and> mantissa_form m \<and> exponent_form x)"

text \<open>What may follow a number so that the scan stops there.\<close>

definition delim :: "string \<Rightarrow> bool" where
  "delim r \<longleftrightarrow> \<not> at is_ident_char r \<and> \<not> at (\<lambda>c. c = CHR ''.'') r"

lemma dropWhile_stop: "\<not> at p r \<Longrightarrow> dropWhile p r = r"
  by (cases r) auto

lemma takeWhile_stop: "\<not> at p r \<Longrightarrow> takeWhile p r = []"
  by (cases r) auto

lemma dropWhile_all: "list_all p d \<Longrightarrow> dropWhile p (d @ r) = dropWhile p r"
  by (induction d) auto

lemma takeWhile_all: "list_all p d \<Longrightarrow> takeWhile p (d @ r) = d @ takeWhile p r"
  by (induction d) auto

lemma at_append: "d \<noteq> [] \<Longrightarrow> at p (d @ r) = at p d"
  by (cases d) auto

lemma at_all: "list_all p d \<Longrightarrow> d \<noteq> [] \<Longrightarrow> at p d"
  by (cases d) auto

lemma at_imp: "(\<And>c. p c \<Longrightarrow> q c) \<Longrightarrow> \<not> at q r \<Longrightarrow> \<not> at p r"
  by (cases r) auto

lemma not_digit_punct [simp]:
  "\<not> is_digit (CHR ''.'')" "\<not> is_digit (CHR ''e'')" "\<not> is_digit (CHR ''E'')"
  "\<not> is_digit (CHR ''+'')" "\<not> is_digit (CHR ''-'')"
  by (simp_all add: is_digit_code)

lemma delim_digit: "delim r \<Longrightarrow> \<not> at is_digit r"
  by (cases r) (auto simp: delim_def)

lemma digit_not_sign: "is_digit c \<Longrightarrow> \<not> is_sign c"
  by (auto simp: is_sign_def)

lemma scan_mantissa_form:
  assumes "mantissa_form m" "\<not> at is_digit r" "\<not> at (\<lambda>c. c = CHR ''.'') r"
  shows "scan_mantissa (m @ r) = (True, r)"
proof -
  from assms(1) obtain d1 d2 where d: "list_all is_digit d1" "list_all is_digit d2" "d1 @ d2 \<noteq> []"
    and m: "m = d1 @ CHR ''.'' # d2 \<or> d2 = [] \<and> m = d1"
    by (auto simp: mantissa_form_def)
  from m show ?thesis
  proof
    assume "m = d1 @ CHR ''.'' # d2"
    with d assms(2) show ?thesis
      by (cases d1; cases d2) (auto simp: scan_mantissa_def dropWhile_all dropWhile_stop)
  next
    assume "d2 = [] \<and> m = d1"
    with d assms(2,3) show ?thesis
      by (cases d1) (auto simp: scan_mantissa_def dropWhile_all dropWhile_stop)
  qed
qed

lemma scan_exponent_form:
  assumes "exponent_form x" "delim r"
  shows "scan_exponent (x @ r) = (True, r)"
proof (cases "x = []")
  case True
  from assms(2) have "\<not> at (\<lambda>c. c = CHR ''e'' \<or> c = CHR ''E'') r"
    by (cases r) (auto simp: delim_def is_ident_char_def is_letter_code)
  with True show ?thesis by (simp add: scan_exponent_def)
next
  case False
  with assms(1) obtain e sg d where x: "x = e # sg @ d" "e = CHR ''e'' \<or> e = CHR ''E''"
    and sg: "sg = [] \<or> sg = ''+'' \<or> sg = ''-''" and d: "list_all is_digit d" "d \<noteq> []"
    by (auto simp: exponent_form_def)
  have "scan_sign (sg @ d @ r) = d @ r"
    using sg d by (cases d) (auto simp: scan_sign_def digit_not_sign, auto simp: is_sign_def)
  with x d assms(2) show ?thesis
    by (auto simp: scan_exponent_def at_append at_all dropWhile_all dropWhile_stop delim_digit)
qed

lemma exponent_form_stop:
  assumes "exponent_form x" "delim r"
  shows "\<not> at is_digit (x @ r)" and "\<not> at (\<lambda>c. c = CHR ''.'') (x @ r)"
  using assms by (auto simp: exponent_form_def delim_digit) (auto simp: delim_def)

lemma mantissa_not_sign: "mantissa_form m \<Longrightarrow> m \<noteq> [] \<and> \<not> is_sign (hd m)"
  by (cases m) (auto simp: mantissa_form_def Cons_eq_append_conv is_sign_def append_eq_Cons_conv)

lemma lex_number_form:
  assumes "number_form w" "delim r"
  shows "lex_number i (w @ r) = Inr (tok TokNumber w i, r)"
proof -
  from assms(1) obtain sg m x where w: "w = sg @ m @ x"
    and sg: "sg = [] \<or> sg = ''+'' \<or> sg = ''-''" and m: "mantissa_form m" and x: "exponent_form x"
    by (auto simp: number_form_def)
  have "scan_sign (w @ r) = m @ x @ r"
    using sg mantissa_not_sign [OF m] by (cases m) (auto simp: w scan_sign_def, auto simp: is_sign_def)
  moreover have "scan_mantissa (m @ x @ r) = (True, x @ r)"
    using scan_mantissa_form [OF m] exponent_form_stop [OF x assms(2)] by blast
  moreover have "scan_exponent (x @ r) = (True, r)"
    by (rule scan_exponent_form [OF x assms(2)])
  ultimately show ?thesis
    using assms(2) by (auto simp: lex_number_ok delim_def)
qed

text \<open>The converse: what the stages consume has these forms.\<close>

lemma at_dropWhile_not: "\<not> at p (dropWhile p s)"
  by (induction s) auto

lemma list_all_takeWhile [simp]: "list_all p (takeWhile p s)"
  by (induction s) auto

lemma at_takeWhile: "at p s \<longleftrightarrow> takeWhile p s \<noteq> []"
  by (cases s) auto

lemma scan_mantissa_consumes:
  assumes "scan_mantissa s = (True, r)"
  shows "\<exists>m. s = m @ r \<and> mantissa_form m"
proof -
  define d1 where "d1 = takeWhile is_digit s"
  define s' where "s' = dropWhile is_digit s"
  have s: "s = d1 @ s'" and d1: "list_all is_digit d1"
    by (simp_all add: d1_def s'_def)
  have d1_at: "at is_digit s \<longleftrightarrow> d1 \<noteq> []"
    by (simp add: d1_def at_takeWhile)
  show ?thesis
  proof (cases "at (\<lambda>c. c = CHR ''.'') s'")
    case True
    then obtain u where s': "s' = CHR ''.'' # u" by (cases s') auto
    define d2 where "d2 = takeWhile is_digit u"
    have "at is_digit s \<or> at is_digit u" and "r = dropWhile is_digit u"
      using assms by (simp_all add: scan_mantissa_def s'_def[symmetric] s')
    then have "u = d2 @ r" and "list_all is_digit d2" and "d1 @ d2 \<noteq> []"
      using d1_at by (auto simp: d2_def at_takeWhile)
    then show ?thesis
      using s s' d1 by (intro exI[of _ "d1 @ CHR ''.'' # d2"]) (auto simp: mantissa_form_def)
  next
    case False
    then have "r = s'" and "d1 \<noteq> []"
      using assms d1_at by (auto simp: scan_mantissa_def s'_def)
    then show ?thesis
      using s d1 by (intro exI[of _ d1]) (auto simp: mantissa_form_def)
  qed
qed

lemma scan_sign_consumes: "\<exists>sg. s = sg @ scan_sign s \<and> (sg = [] \<or> sg = ''+'' \<or> sg = ''-'')"
  by (cases s) (auto simp: scan_sign_def is_sign_def)

lemma scan_exponent_consumes:
  assumes "scan_exponent s = (True, r)"
  shows "\<exists>x. s = x @ r \<and> exponent_form x"
proof (cases "at (\<lambda>c. c = CHR ''e'' \<or> c = CHR ''E'') s")
  case True
  then obtain e u where s: "s = e # u" "e = CHR ''e'' \<or> e = CHR ''E''" by (cases s) auto
  obtain sg where u: "u = sg @ scan_sign u" "sg = [] \<or> sg = ''+'' \<or> sg = ''-''"
    using scan_sign_consumes by blast
  define d where "d = takeWhile is_digit (scan_sign u)"
  have d: "scan_sign u = d @ r" "list_all is_digit d" "d \<noteq> []"
    using assms s by (auto simp: scan_exponent_def Let_def d_def at_takeWhile)
  then have "s = (e # sg @ d) @ r" using s u by simp
  then show ?thesis using s u d by (intro exI[of _ "e # sg @ d"]) (auto simp: exponent_form_def)
next
  case False
  with assms show ?thesis by (auto simp: scan_exponent_def exponent_form_def)
qed

lemma lex_number_text_form:
  assumes "lex_number i s = Inr (t, r)"
  shows "number_form (t_text t) \<and> s = t_text t @ r \<and> \<not> at is_ident_char r"
proof -
  obtain s1 where s1: "scan_mantissa (scan_sign s) = (True, s1)" "scan_exponent s1 = (True, r)"
    and r: "\<not> at is_ident_char r"
    using assms by (auto simp: lex_number_ok)
  obtain m x sg where "scan_sign s = m @ s1" "mantissa_form m" "s1 = x @ r" "exponent_form x"
    "s = sg @ scan_sign s" "sg = [] \<or> sg = ''+'' \<or> sg = ''-''"
    using scan_mantissa_consumes [OF s1(1)] scan_exponent_consumes [OF s1(2)] scan_sign_consumes
    by blast
  then have "number_form (sg @ m @ x)" and "s = (sg @ m @ x) @ r"
    by (auto simp: number_form_def)
  moreover have "s = t_text t @ r" using lex_number_token [OF assms] by blast
  ultimately show ?thesis using r by auto
qed

lemma number_ok_form: "number_ok s \<longleftrightarrow> at (\<lambda>c. c \<noteq> CHR ''.'') s \<and> number_form s"
proof -
  have "(case lex_number 0 s of Inr (_, []) \<Rightarrow> True | _ \<Rightarrow> False) \<longleftrightarrow> number_form s"
  proof
    assume "case lex_number 0 s of Inr (_, []) \<Rightarrow> True | _ \<Rightarrow> False"
    then obtain t where "lex_number 0 s = Inr (t, [])"
      by (cases "lex_number 0 s") (auto split: list.splits)
    then show "number_form s" using lex_number_text_form by fastforce
  next
    assume "number_form s"
    then show "case lex_number 0 s of Inr (_, []) \<Rightarrow> True | _ \<Rightarrow> False"
      using lex_number_form [of s "[]" 0] by (simp add: delim_def)
  qed
  then show ?thesis by (simp add: number_ok_def)
qed

lemma number_form_head:
  assumes "number_form w"
  shows "w \<noteq> [] \<and> (is_digit (hd w) \<or> hd w = CHR ''.'' \<or>
     is_sign (hd w) \<and> (at is_digit (tl w) \<or> at (\<lambda>c. c = CHR ''.'') (tl w)))"
proof -
  have m: "m \<noteq> [] \<and> (is_digit (hd m) \<or> hd m = CHR ''.'')" if "mantissa_form m" for m
    using that by (cases m) (auto simp: mantissa_form_def Cons_eq_append_conv append_eq_Cons_conv)
  show ?thesis
    using assms m by (fastforce simp: number_form_def is_sign_def at_def)
qed

section \<open>Lexing is exact: the source is its spelled tokens and white space\<close>

text \<open>
  \<open>lexes i s ts\<close>: at offset \<open>i\<close> the input \<open>s\<close> is the token sequence \<open>ts\<close>, every token well formed,
  spelled at its recorded position, with nothing but white space between the tokens and the
  end-of-input token last.
\<close>

inductive lexes :: "nat \<Rightarrow> string \<Rightarrow> token list \<Rightarrow> bool" where
  lexes_eof: "lexes i [] [tok TokEOF [] i]"
| lexes_space: "is_space c \<Longrightarrow> lexes (Suc i) cs ts \<Longrightarrow> lexes i (c # cs) ts"
| lexes_token: "spelled t w \<Longrightarrow> w \<noteq> [] \<Longrightarrow> token_ok t \<Longrightarrow> t_kind t \<noteq> TokEOF \<Longrightarrow> t_pos t = i \<Longrightarrow>
     lexes (i + length w) r ts \<Longrightarrow> lexes i (w @ r) (t # ts)"

inductive_cases lexes_NilE: "lexes i s []"

lemma spelled_word:
  assumes "is_letter (hd w)" "w \<noteq> []" "list_all is_ident_char w"
  shows "spelled (lex_word i w) w \<and> token_ok (lex_word i w) \<and> t_pos (lex_word i w) = i
     \<and> t_kind (lex_word i w) \<noteq> TokEOF"
  using assms by (auto simp: lex_word_def Let_def spelled_def spelling_def valid_ident_def)

lemma escape_quotes_simps [simp]:
  "escape_quotes [] = []"
  "escape_quotes (c # v) = (if c = CHR 0x27 then [c, c] else [c]) @ escape_quotes v"
  by (simp_all add: escape_quotes_def)

lemma lex_string_body_spells:
  "lex_string_body s = Some (v, r) \<Longrightarrow> s = escape_quotes v @ CHR 0x27 # r"
proof (induction s arbitrary: v r rule: lex_string_body.induct)
  case (2 c s)
  show ?case
  proof (cases "c = CHR 0x27")
    case False
    with 2 show ?thesis by auto
  next
    case True
    show ?thesis
    proof (cases s)
      case Nil
      with True 2 show ?thesis by simp
    next
      case (Cons d s')
      show ?thesis
      proof (cases "d = CHR 0x27")
        case quote: True
        with True Cons "2.prems" obtain v' where "lex_string_body s' = Some (v', r)"
          and "v = CHR 0x27 # v'" by auto
        with "2.IH"(1) [OF True Cons quote] True quote Cons show ?thesis by simp
      next
        case False
        with True Cons "2.prems" show ?thesis by auto
      qed
    qed
  qed
qed simp

lemma lex_string_spelled:
  "lex_string i (CHR 0x27 # cs) = Inr (t, r) \<Longrightarrow>
     \<exists>w. CHR 0x27 # cs = w @ r \<and> w \<noteq> [] \<and> spelled t w \<and> token_ok t \<and> t_pos t = i \<and> t_kind t \<noteq> TokEOF"
  by (auto simp: lex_string_def spelled_def spelling_def quote_string_def split: option.splits
      dest!: lex_string_body_spells)

lemma lex_number_spelled:
  assumes "lex_number i (c # cs) = Inr (t, r)" "c \<noteq> CHR ''.''"
  shows "\<exists>w. c # cs = w @ r \<and> w \<noteq> [] \<and> spelled t w \<and> token_ok t \<and> t_pos t = i \<and> t_kind t \<noteq> TokEOF"
proof -
  have f: "number_form (t_text t)" "c # cs = t_text t @ r"
    using lex_number_text_form [OF assms(1)] by auto
  moreover have "t_kind t = TokNumber" "t_pos t = i"
    using lex_number_token [OF assms(1)] by auto
  moreover have "number_ok (t_text t)"
    using f assms(2) number_form_head [OF f(1)]
    by (cases "t_text t") (auto simp: number_ok_form)
  ultimately show ?thesis
    using number_form_head [OF f(1)] by (auto simp: spelled_def spelling_def)
qed

lemma lex_step_None: "lex_step i c cs = Inr (None, r) \<Longrightarrow> is_space c \<and> r = cs"
  by (auto simp: lex_step_def Let_def res_simps split: if_splits)

lemma at_eq_Cons: "at (\<lambda>d. d = x) s \<longleftrightarrow> (\<exists>s'. s = x # s')"
  by (cases s) auto

lemma digit_not_dot: "is_digit c \<Longrightarrow> c \<noteq> CHR ''.''"
  by auto

lemma lex_step_Some:
  assumes "lex_step i c cs = Inr (Some t, r)"
  shows "\<exists>w. c # cs = w @ r \<and> w \<noteq> [] \<and> spelled t w \<and> token_ok t \<and> t_pos t = i \<and> t_kind t \<noteq> TokEOF"
proof (cases "is_letter c")
  case True
  then have "\<not> is_space c" by (auto simp: is_space_def is_letter_code)
  with True assms have "t = lex_word i (takeWhile is_ident_char (c # cs))"
    "r = dropWhile is_ident_char (c # cs)"
    by (auto simp: lex_step_def Let_def)
  then show ?thesis
    using True spelled_word [of "takeWhile is_ident_char (c # cs)" i]
    by (intro exI[of _ "takeWhile is_ident_char (c # cs)"]) auto
next
  case False
  consider (num) "lex_number i (c # cs) = Inr (t, r)" "c \<noteq> CHR ''.''"
    | (str) "c = CHR 0x27" "lex_string i (c # cs) = Inr (t, r)"
    | (one) "t_text t = [c]" "r = cs" "token_ok t" "t_pos t = i"
        "t_kind t \<notin> {TokEOF, TokString, TokKeyword}"
    | (two) d where "t_text t = [c, d]" "cs = d # r" "token_ok t" "t_pos t = i" "t_kind t = TokOp"
    using assms False digit_not_dot [of c]
    by (auto simp: lex_step_def Let_def res_simps at_eq_Cons op_list_def is_sign_def is_space_def
        split: if_splits)
  then show ?thesis
  proof cases
    case num
    then show ?thesis by (rule lex_number_spelled)
  next
    case str
    then show ?thesis using lex_string_spelled by blast
  next
    case one
    then show ?thesis by (intro exI[of _ "[c]"]) (auto simp: spelled_def spelling_def)
  next
    case (two d)
    then show ?thesis by (intro exI[of _ "[c, d]"]) (auto simp: spelled_def spelling_def)
  qed
qed

lemma lex_loop_lexes: "lex_loop i s = Inr ts \<Longrightarrow> lexes i s ts"
proof (induction i s arbitrary: ts rule: lex_loop.induct)
  case (1 i)
  then show ?case by (auto intro: lexes_eof)
next
  case (2 i c cs)
  from 2(2) obtain t r ts' where st: "lex_step i c cs = Inr (t, r)"
    and lp: "lex_loop (i + (length (c # cs) - length r)) r = Inr ts'"
    and ts: "ts = (case t of None \<Rightarrow> ts' | Some t' \<Rightarrow> t' # ts')"
    by (auto simp: res_simps)
  have ih: "lexes (i + (length (c # cs) - length r)) r ts'"
    using "2.IH" [OF st refl lp] by simp
  show ?case
  proof (cases t)
    case None
    then have "is_space c" and "r = cs" using st lex_step_None by auto
    then show ?thesis using ih None ts by (auto intro: lexes_space)
  next
    case (Some t')
    obtain w where "c # cs = w @ r" "w \<noteq> []" "spelled t' w" "token_ok t'" "t_pos t' = i"
      "t_kind t' \<noteq> TokEOF"
      using st lex_step_Some unfolding Some by blast
    then show ?thesis
      using ih Some ts lexes_token [of t' w i r ts'] by (metis add_diff_cancel_right' length_append option.simps(5))
  qed
qed

section \<open>What cannot occur outside string literals\<close>

text \<open>The characters of a source that are not inside a quoted literal; a quote toggles.\<close>

fun outside :: "bool \<Rightarrow> string \<Rightarrow> string" where
  "outside q [] = []"
| "outside q (c # s) =
     (if c = CHR 0x27 then outside (\<not> q) s else if q then outside q s else c # outside q s)"

definition plain_char :: "char \<Rightarrow> bool" where
  "plain_char c \<longleftrightarrow> is_ident_char c \<or> c \<in> set ''+-.,()*=!<>''"

fun signs_followed :: "string \<Rightarrow> bool" where
  "signs_followed [] = True"
| "signs_followed (c # s) =
     ((is_sign c \<longrightarrow> at (\<lambda>d. is_digit d \<or> d = CHR ''.'') s) \<and> signs_followed s)"

lemma plain_char_not_quote: "plain_char c \<Longrightarrow> c \<noteq> CHR 0x27"
  by (auto simp: plain_char_def is_ident_char_def is_letter_code is_digit_code)

lemma outside_plain: "list_all plain_char w \<Longrightarrow> outside False (w @ r) = w @ outside False r"
  by (induction w) (auto dest: plain_char_not_quote)

lemma outside_escape: "outside True (escape_quotes v @ s) = outside True s"
  by (induction v) auto

lemma outside_quoted: "outside False (quote_string v @ r) = outside False r"
  by (simp add: quote_string_def outside_escape)

lemma signs_followed_append:
  "w = [] \<or> \<not> is_sign (last w) \<Longrightarrow> signs_followed (w @ r) \<longleftrightarrow> signs_followed w \<and> signs_followed r"
  by (induction w) (auto simp: at_append split: if_splits)

lemma signs_followed_nosign: "list_all (\<lambda>c. \<not> is_sign c) w \<Longrightarrow> signs_followed w"
  by (induction w) auto

lemma digits_nosign: "list_all is_digit d \<Longrightarrow> list_all (\<lambda>c. \<not> is_sign c) d"
  by (induction d) (auto dest: digit_not_sign)

lemma ident_char_not_sign: "is_ident_char c \<Longrightarrow> \<not> is_sign c"
  by (auto simp: is_ident_char_def is_letter_code is_digit_code is_sign_def)

lemma digits_plain: "list_all is_digit d \<Longrightarrow> list_all plain_char d"
  by (induction d) (auto simp: plain_char_def)

lemma digit_plain: "is_digit c \<Longrightarrow> plain_char c"
  by (simp add: plain_char_def)

lemma punct_plain [simp]:
  "plain_char (CHR ''.'')" "plain_char (CHR ''+'')" "plain_char (CHR ''-'')"
  "plain_char (CHR ''e'')" "plain_char (CHR ''E'')"
  "\<not> is_sign (CHR ''.'')" "\<not> is_sign (CHR ''e'')" "\<not> is_sign (CHR ''E'')"
  by (simp_all add: plain_char_def is_ident_char_def is_letter_code is_sign_def)

lemma mantissa_plain:
  assumes "mantissa_form m"
  shows "list_all plain_char m \<and> list_all (\<lambda>c. \<not> is_sign c) m
     \<and> at (\<lambda>d. is_digit d \<or> d = CHR ''.'') m"
proof -
  from assms obtain d1 d2 where "list_all is_digit d1" "list_all is_digit d2" "d1 @ d2 \<noteq> []"
    "m = d1 @ CHR ''.'' # d2 \<or> d2 = [] \<and> m = d1"
    by (auto simp: mantissa_form_def)
  then show ?thesis
    by (cases d1) (auto simp: digits_plain digits_nosign digit_not_sign digit_plain)
qed

lemma exponent_plain:
  assumes "exponent_form x"
  shows "list_all plain_char x \<and> signs_followed x \<and> (x = [] \<or> \<not> is_sign (last x))
     \<and> (x = [] \<or> \<not> is_sign (hd x))"
proof (cases "x = []")
  case False
  with assms obtain e sg d where x: "x = e # sg @ d" "e = CHR ''e'' \<or> e = CHR ''E''"
    and sg: "sg = [] \<or> sg = ''+'' \<or> sg = ''-''" and d: "list_all is_digit d" "d \<noteq> []"
    by (auto simp: exponent_form_def)
  have "\<not> is_sign (last d)"
    using d by (metis digit_not_sign last_in_set list_all_iff)
  moreover have "at (\<lambda>c. is_digit c \<or> c = CHR ''.'') d"
    using d by (cases d) auto
  moreover have "signs_followed d" and "list_all plain_char d"
    using d by (simp_all add: signs_followed_nosign digits_nosign digits_plain)
  ultimately show ?thesis
    using x sg d by (elim disjE) auto
qed simp

lemma number_form_plain:
  assumes "number_form w"
  shows "list_all plain_char w \<and> signs_followed w \<and> w \<noteq> [] \<and> \<not> is_sign (last w)"
proof -
  from assms obtain sg m x where w: "w = sg @ m @ x"
    and sg: "sg = [] \<or> sg = ''+'' \<or> sg = ''-''" and m: "mantissa_form m" and x: "exponent_form x"
    by (auto simp: number_form_def)
  note mp = mantissa_plain [OF m] and xp = exponent_plain [OF x]
  have mne: "m \<noteq> []" using mp by auto
  have lastm: "\<not> is_sign (last m)"
    using mp mne by (metis last_in_set list_all_iff)
  have "signs_followed (m @ x)"
    using mp xp lastm by (simp add: signs_followed_append signs_followed_nosign)
  then have "signs_followed w"
    using sg mp mne w by (auto simp: at_append)
  moreover have "list_all plain_char w"
    using sg mp xp w by (auto simp: plain_char_def)
  moreover have "\<not> is_sign (last w)"
    using w xp lastm mne by (cases "x = []") auto
  ultimately show ?thesis using w mne by auto
qed

lemma idents_plain:
  "list_all is_ident_char w \<Longrightarrow>
     list_all plain_char w \<and> list_all (\<lambda>c. \<not> is_sign c) w"
  by (induction w) (auto simp: plain_char_def ident_char_not_sign)

lemma to_upper_ident: "to_upper w \<in> set keyword_list \<Longrightarrow> list_all is_ident_char w"
proof -
  have "is_ident_char c" if "is_letter (ascii_upper c)" for c
    using that by (simp only: is_ident_char_def is_letter_code of_char_ascii_upper) (auto split: if_splits)
  moreover have "list_all (list_all is_letter) keyword_list"
    by code_simp
  ultimately show "to_upper w \<in> set keyword_list \<Longrightarrow> list_all is_ident_char w"
    by (auto simp: list_all_iff to_upper_def)
qed

lemma spelled_outside:
  assumes "spelled t w" "token_ok t" "w \<noteq> []"
  shows "t_kind t = TokString \<and> outside False (w @ r) = outside False r
       \<or> list_all plain_char w \<and> signs_followed w \<and> \<not> is_sign (last w)"
proof (cases "t_kind t")
  case TokIdent
  with assms have "list_all is_ident_char w"
    by (simp add: spelled_def spelling_def valid_ident_def)
  with assms(3) show ?thesis
    using idents_plain signs_followed_nosign by (metis last_in_set list_all_iff)
next
  case TokKeyword
  with assms have "list_all is_ident_char w"
    by (metis spelled_def to_upper_ident token_text_ok.simps(3))
  with assms(3) show ?thesis
    using idents_plain signs_followed_nosign by (metis last_in_set list_all_iff)
next
  case TokString
  with assms(1) show ?thesis by (simp add: spelled_def spelling_def outside_quoted)
next
  case TokNumber
  with assms have "number_form w" by (simp add: spelled_def spelling_def number_ok_form)
  then show ?thesis using number_form_plain by blast
qed (use assms in \<open>auto simp: spelled_def spelling_def plain_char_def is_sign_def op_list_def\<close>)

lemma lexes_outside:
  "lexes i s ts \<Longrightarrow> list_all (\<lambda>c. is_space c \<or> plain_char c) (outside False s)
     \<and> signs_followed (outside False s)"
proof (induction rule: lexes.induct)
  case (lexes_space c i cs ts)
  then show ?case by (auto simp: is_space_def is_sign_def)
next
  case (lexes_token t w i r ts)
  then show ?case
    using spelled_outside [OF lexes_token(1,3,2), of r]
    by (auto simp: outside_plain signs_followed_append elim!: list.pred_mono_strong)
qed simp

section \<open>Token streams\<close>

text \<open>What the parser relies on: the stream ends in the only end-of-input token, and every
  token has the text its kind promises.\<close>

definition stream_ok :: "token list \<Rightarrow> bool" where
  "stream_ok ts \<longleftrightarrow> ts \<noteq> [] \<and> t_kind (last ts) = TokEOF \<and> list_all token_ok ts
     \<and> list_all (\<lambda>t. t_kind t \<noteq> TokEOF) (butlast ts)"

lemma lexes_stream_ok: "lexes i s ts \<Longrightarrow> stream_ok ts"
  by (induction rule: lexes.induct) (auto simp: stream_ok_def)

lemma lex_stream_ok: "lex src = Inr ts \<Longrightarrow> stream_ok ts"
  unfolding lex_def by (rule lexes_stream_ok, rule lex_loop_lexes)

section \<open>Rendering tokens and lexing them back\<close>

text \<open>A token sequence as text, one blank after every token, and the same tokens with the
  positions they then have, closed by the end-of-input token.\<close>

definition render :: "token list \<Rightarrow> string" where
  "render ts = concat (map (\<lambda>t. spelling t @ '' '') ts)"

fun place :: "nat \<Rightarrow> token list \<Rightarrow> token list" where
  "place i [] = [tok TokEOF [] i]"
| "place i (t # ts) = t\<lparr>t_pos := i\<rparr> # place (i + length (spelling t) + 1) ts"

lemma lex_string_body_escape:
  "\<not> at (\<lambda>c. c = CHR 0x27) r \<Longrightarrow> lex_string_body (escape_quotes v @ CHR 0x27 # r) = Some (v, r)"
  by (induction v) (auto split: list.splits)

lemma keyword_facts: "w \<in> set keyword_list \<Longrightarrow>
   w \<noteq> [] \<and> is_letter (hd w) \<and> list_all is_ident_char w \<and> to_upper w = w"
proof -
  have "list_all (\<lambda>w. w \<noteq> [] \<and> is_letter (hd w) \<and> list_all is_ident_char w \<and> to_upper w = w)
    keyword_list"
    by code_simp
  then show "w \<in> set keyword_list \<Longrightarrow> ?thesis" by (auto simp: list_all_iff)
qed

lemma lex_step_word:
  assumes "w \<noteq> []" "is_letter (hd w)" "list_all is_ident_char w" "\<not> at is_ident_char r"
  shows "\<exists>c cs. w @ r = c # cs \<and> lex_step i c cs = Inr (Some (lex_word i w), r)"
proof -
  obtain c cs where w: "w = c # cs" using assms(1) by (cases w) auto
  have "takeWhile is_ident_char (c # cs @ r) = w" "dropWhile is_ident_char (c # cs @ r) = r"
    using assms(3,4) takeWhile_all [of is_ident_char w r] dropWhile_all [of is_ident_char w r]
    by (simp_all add: w takeWhile_stop dropWhile_stop)
  moreover have "\<not> is_space c" using assms(2) w by (auto simp: is_space_def is_letter_code)
  ultimately have "lex_step i c (cs @ r) = Inr (Some (lex_word i w), r)"
    using assms(2) w by (simp add: lex_step_def Let_def)
  then show ?thesis using w by simp
qed

lemma lex_step_number:
  assumes "number_ok w" "delim r"
  shows "\<exists>c cs. w @ r = c # cs \<and> lex_step i c cs = Inr (Some (tok TokNumber w i), r)"
proof -
  have f: "number_form w" and nd: "at (\<lambda>c. c \<noteq> CHR ''.'') w"
    using assms(1) by (auto simp: number_ok_form)
  obtain c cs where w: "w = c # cs" using nd by (cases w) auto
  have l: "lex_number i (c # cs @ r) = Inr (tok TokNumber w i, r)"
    using lex_number_form [OF f assms(2)] w by simp
  consider "is_digit c" | "is_sign c" "at is_digit cs \<or> at (\<lambda>c. c = CHR ''.'') cs"
    using number_form_head [OF f] nd w by auto
  then have "lex_step i c (cs @ r) = Inr (Some (tok TokNumber w i), r)"
  proof cases
    case 1
    then have "\<not> is_space c" "\<not> is_letter c"
      using letter_not_digit by (auto simp: is_space_def is_digit_code)
    with 1 l show ?thesis by (simp add: lex_step_def)
  next
    case 2
    then have "\<not> is_space c" "\<not> is_letter c" "\<not> is_digit c"
      by (auto simp: is_space_def is_sign_def is_letter_code)
    moreover have "at is_digit (cs @ r) \<or> at (\<lambda>c. c = CHR ''.'') (cs @ r)"
      using 2(2) by (cases cs) auto
    ultimately show ?thesis using 2(1) l by (simp add: lex_step_def)
  qed
  then show ?thesis using w by simp
qed

lemma punct_class:
  "c \<in> set ''<>=!,().*'' \<Longrightarrow> \<not> is_space c \<and> \<not> is_letter c \<and> \<not> is_digit c \<and> \<not> is_sign c"
  by (auto simp: is_space_def is_letter_code is_digit_code is_sign_def)

lemma lex_step_tok:
  assumes ok: "token_text_ok k s" and ne: "k \<noteq> TokEOF"
  shows "\<exists>c cs. spelling (tok k s p) @ CHR '' '' # r = c # cs
     \<and> lex_step i c cs = Inr (Some (tok k s i), CHR '' '' # r)"
proof -
  have blank: "\<not> at is_ident_char (CHR '' '' # r)" "delim (CHR '' '' # r)"
    by (simp_all add: delim_def is_ident_char_def is_letter_code is_digit_code)
  show ?thesis
  proof (cases k)
    case TokIdent
    then show ?thesis
      using ok blank lex_step_word [of s "CHR '' '' # r" i]
      by (simp add: valid_ident_def spelling_def lex_word_def)
  next
    case TokKeyword
    then have k: "s \<in> set keyword_list" using ok by simp
    then show ?thesis
      using keyword_facts [OF k] TokKeyword blank lex_step_word [of s "CHR '' '' # r" i]
      by (simp add: spelling_def lex_word_def)
  next
    case TokString
    then show ?thesis
      by (simp add: spelling_def quote_string_def lex_step_def lex_string_def is_space_def
          is_letter_code is_digit_code is_sign_def lex_string_body_escape)
  next
    case TokNumber
    then show ?thesis
      using ok blank lex_step_number [of s "CHR '' '' # r" i] by (simp add: spelling_def)
  next
    case TokOp
    then have "s \<in> set op_list" using ok by simp
    then consider "s = ''=''" | "s = ''!=''" | "s = ''<>''" | "s = ''<''" | "s = ''<=''"
      | "s = ''>''" | "s = ''>=''"
      by (auto simp: op_list_def)
    then show ?thesis
      by cases (simp_all add: TokOp spelling_def lex_step_def punct_class)
  qed (use ok ne in \<open>simp_all add: spelling_def lex_step_def punct_class\<close>)
qed

lemma lex_step_spelling:
  assumes "token_ok t" "t_kind t \<noteq> TokEOF"
  shows "\<exists>c cs. spelling t @ CHR '' '' # r = c # cs
     \<and> lex_step i c cs = Inr (Some (t\<lparr>t_pos := i\<rparr>), CHR '' '' # r)"
  using lex_step_tok [OF assms, of "t_pos t" r i] by (cases t) simp

lemma lex_loop_blank: "lex_loop i (CHR '' '' # s) = lex_loop (Suc i) s"
proof -
  have "lex_step i (CHR '' '') s = Inr (None, s)"
    by (simp add: lex_step_def is_space_def)
  then show ?thesis
    by (cases "lex_loop (Suc i) s") simp_all
qed

lemma lex_loop_render:
  "list_all (\<lambda>t. token_ok t \<and> t_kind t \<noteq> TokEOF) ts \<Longrightarrow> lex_loop i (render ts) = Inr (place i ts)"
proof (induction ts arbitrary: i)
  case Nil
  then show ?case by (simp add: render_def)
next
  case (Cons t ts)
  let ?r = "CHR '' '' # render ts"
  have src: "render (t # ts) = spelling t @ ?r" by (simp add: render_def)
  obtain c cs where e: "spelling t @ ?r = c # cs"
    and st: "lex_step i c cs = Inr (Some (t\<lparr>t_pos := i\<rparr>), ?r)"
    using Cons.prems lex_step_spelling [of t "render ts" i] by auto
  have "length (c # cs) - length ?r = length (spelling t)"
    by (simp add: e [symmetric])
  then have "lex_loop i (c # cs) = bind_res (lex_loop (i + length (spelling t)) ?r)
      (\<lambda>ts'. Inr (t\<lparr>t_pos := i\<rparr> # ts'))"
    by (simp only: lex_loop.simps st bind_res_Inr prod.case option.case)
  also have "lex_loop (i + length (spelling t)) ?r = Inr (place (i + length (spelling t) + 1) ts)"
    unfolding lex_loop_blank using Cons by simp
  finally show ?case by (simp add: src e)
qed

lemma lex_render:
  "list_all (\<lambda>t. token_ok t \<and> t_kind t \<noteq> TokEOF) ts \<Longrightarrow> lex (render ts) = Inr (place 0 ts)"
  by (simp add: lex_def lex_loop_render)

section \<open>Where the lexer fails\<close>

lemma lex_step_error:
  assumes "lex_step i c cs = Inl e"
  shows "(\<exists>d. e = UnexpectedChar c i) \<or> e = MalformedNumber i \<and> (is_digit c \<or> is_sign c)
     \<or> e = UnterminatedString i \<and> c = CHR 0x27"
proof -
  have n: "lex_number i s = Inl x \<Longrightarrow> x = MalformedNumber i" for s x
    by (auto simp: lex_number_def split: prod.splits if_splits)
  have s: "lex_string i s = Inl x \<Longrightarrow> x = UnterminatedString i" for s x
    by (auto simp: lex_string_def split: option.splits)
  show ?thesis
    using assms by (auto simp: lex_step_def Let_def res_simps split: if_splits dest: n s)
qed

lemma lex_step_suffix: "lex_step i c cs = Inr (t, r) \<Longrightarrow> suffix r (c # cs)"
  by (cases t) (auto simp: suffix_def dest: lex_step_None lex_step_Some)

text \<open>The character an error names stands at the offset it names.\<close>

fun error_at :: "string \<Rightarrow> parse_error \<Rightarrow> bool" where
  "error_at s (UnexpectedChar c i) \<longleftrightarrow> i < length s \<and> s ! i = c"
| "error_at s (MalformedNumber i) \<longleftrightarrow> i < length s \<and> (is_digit (s ! i) \<or> is_sign (s ! i))"
| "error_at s (UnterminatedString i) \<longleftrightarrow> i < length s \<and> s ! i = CHR 0x27"
| "error_at s _ \<longleftrightarrow> False"

lemma lex_loop_error: "lex_loop i s = Inl e \<Longrightarrow> length pre = i \<Longrightarrow> error_at (pre @ s) e"
proof (induction i s arbitrary: pre rule: lex_loop.induct)
  case (2 i c cs)
  show ?case
  proof (cases "lex_step i c cs")
    case (Inl e')
    with 2(2) have "e' = e" by simp
    with lex_step_error [OF Inl] 2(3) show ?thesis by (auto simp: nth_append)
  next
    case (Inr tr)
    then obtain t r where tr: "lex_step i c cs = Inr (t, r)" by (cases tr) auto
    have sf: "suffix r (c # cs)" using lex_step_suffix [OF tr] .
    let ?k = "length (c # cs) - length r"
    have "lex_loop (i + ?k) r = Inl e" using 2(2) tr by (auto simp: res_simps)
    moreover have "length (pre @ take ?k (c # cs)) = i + ?k" using 2(3) by simp
    ultimately have "error_at ((pre @ take ?k (c # cs)) @ r) e" by (rule "2.IH" [OF tr refl])
    then show ?thesis using suffix_take [OF sf] by (simp only: append_assoc)
  qed
qed simp

section \<open>Properties\<close>

text \<open>
  The lexer reads its whole input and nothing else: the source is, from left to right,
  white space and the spellings of the tokens it returns, each token at the offset it names
  and of the shape its kind promises, closed by one end-of-input token.
\<close>

theorem lex_reads_source:
  assumes "lex src = Inr ts"
  shows "lexes 0 src ts"
  using assms by (simp add: lex_def lex_loop_lexes)

theorem lex_reads_source_witness: "lexes 0 ''a <= 5'' [tok TokIdent ''a'' 0, tok TokOp ''<='' 2, tok TokNumber ''5'' 5, tok TokEOF [] 6]"
  by (rule lex_reads_source) code_simp

text \<open>
  Outside string literals an accepted source holds only letters, digits, underscores,
  white space and the punctuation of the language, and a sign only right before a digit or a
  point. So no comment, no statement separator and no quoted identifier is ever accepted.
\<close>

theorem lex_alphabet:
  assumes "lex src = Inr ts"
  shows "list_all (\<lambda>c. is_space c \<or> plain_char c) (outside False src) \<and> signs_followed (outside False src)"
  using assms lexes_outside [of 0 src ts] by (simp add: lex_def lex_loop_lexes)

theorem lex_alphabet_witness:
  "list_all (\<lambda>c. is_space c \<or> plain_char c) (outside False (''a = '' @ quote_string ''x;--y''))"
proof -
  have "lex (''a = '' @ quote_string ''x;--y'')
    = Inr [tok TokIdent ''a'' 0, tok TokOp ''='' 2, tok TokString ''x;--y'' 4, tok TokEOF [] 11]"
    by code_simp
  from lex_alphabet [OF this] show ?thesis by (rule conjunct1)
qed

text \<open>
  C30: Writing tokens out with one blank after each and lexing the text gives the tokens back,
  at the offsets they were written to, for every sequence of well-shaped tokens; a string
  literal holds any value, quotes included.
\<close>

theorem lex_render_roundtrip:
  assumes "list_all (\<lambda>t. token_ok t \<and> t_kind t \<noteq> TokEOF) ts"
  shows "lex (render ts) = Inr (place 0 ts)"
  using assms by (rule lex_render)

theorem lex_render_roundtrip_witness:
  "lex (render [tok TokIdent ''a'' 0, tok TokOp ''='' 0, tok TokString [CHR 0x27] 0])
     = Inr (place 0 [tok TokIdent ''a'' 0, tok TokOp ''='' 0, tok TokString [CHR 0x27] 0])"
  by (rule lex_render_roundtrip) code_simp

text \<open>
  When the lexer rejects a source, its error names an offset inside the source, and the
  byte at that offset is the one the error is about: the unexpected character itself, the
  first byte of the malformed number, or the quote that opens the unterminated string.
\<close>

theorem lex_error_offset:
  assumes "lex src = Inl e"
  shows "error_at src e"
  using lex_loop_error [of 0 src e "[]"] assms by (simp add: lex_def)

theorem lex_error_offset_witness: "error_at ''a ; b'' (UnexpectedChar (CHR '';'') 2)"
  by (rule lex_error_offset) code_simp

end
