(* ===== verification/Sqlq_Catalog.thy ===== *)
theory Sqlq_Catalog
  imports Sqlq_Lexer
begin

text \<open>
  Resolution of the identifiers of a query against the live schema
  (\<open>internal/sqlq/catalog.go\<close>).

  \<open>Catalog\<close> is an interface of the code; here it is the record of its two methods. \<open>dbCatalog\<close>
  implements it over a \<open>Querier\<close>, a database connection, which is a parameter: a record of
  the query method and the three \<open>Scan\<close> calls the code makes on a row. \<open>Resolve\<close> rewrites the
  query in place; here it returns the rewritten query, and on an error nothing, as no caller
  looks at a query whose resolution failed. Go's maps are HOL maps; the map \<open>scope\<close> is kept
  beside the slice \<open>order\<close> as in the code.

  \<open>strings.ToLower\<close> is written out on ASCII strings; on a string with a byte above 127 it
  consults the Unicode tables, which are the parameter \<open>ul\<close>.
\<close>

section \<open>Case folding\<close>

definition is_ascii :: "string \<Rightarrow> bool" where
  "is_ascii s \<longleftrightarrow> list_all (\<lambda>c. (of_char c :: nat) < 128) s"

definition go_lower :: "(string \<Rightarrow> string) \<Rightarrow> string \<Rightarrow> string" where
  "go_lower ul s = (if is_ascii s then to_lower s else ul s)"

text \<open>\<open>strings.EqualFold(s, "YES")\<close>: besides the two ASCII cases, \<open>S\<close> folds with the long s,
  which UTF-8 writes as two bytes.\<close>

definition equal_fold_yes :: "string \<Rightarrow> bool" where
  "equal_fold_yes s \<longleftrightarrow> (case s of
     a # b # r \<Rightarrow> a \<in> set ''yY'' \<and> b \<in> set ''eE'' \<and> r \<in> {''s'', ''S'', [CHR 0xC5, CHR 0xBF]}
   | _ \<Rightarrow> False)"

section \<open>Catalogs\<close>

record 'e catalog =
  cat_tables :: "'e + string list"
  cat_columns :: "string \<Rightarrow> 'e + string list"

record column_info =
  ci_name :: string
  ci_type :: string
  ci_nullable :: bool

text \<open>
  A connection: the rows a query returns with the error \<open>rows.Err\<close> reports after them, and the
  three forms of \<open>Scan\<close>.
\<close>

record ('e, 'r) querier =
  qy_query :: "string \<Rightarrow> string list \<Rightarrow> 'e + 'r list \<times> 'e option"
  qy_scan_name :: "'r \<Rightarrow> 'e + string"
  qy_scan_text :: "'r \<Rightarrow> 'e + string \<times> string \<times> string"
  qy_scan_int :: "'r \<Rightarrow> 'e + string \<times> string \<times> int"

datatype 'e catalog_error =
    DbError 'e
  | InvalidTableName string

fun tables_sql :: "engine \<Rightarrow> string" where
  "tables_sql EnginePostgres =
     ''SELECT table_name FROM information_schema.tables '' @
     ''WHERE table_schema = current_schema() ORDER BY table_name''"
| "tables_sql EngineMySQL =
     ''SELECT table_name FROM information_schema.tables '' @
     ''WHERE table_schema = DATABASE() ORDER BY table_name''"
| "tables_sql EngineSQLite =
     ''SELECT name FROM sqlite_master '' @
     ''WHERE type IN ('' @ CHR 0x27 # ''table'' @ CHR 0x27 # '', '' @ CHR 0x27 # ''view'' @
     CHR 0x27 # '') AND name NOT LIKE '' @ CHR 0x27 # ''sqlite_%'' @ CHR 0x27 # '' ORDER BY name''"

fun columns_sql :: "engine \<Rightarrow> string" where
  "columns_sql EnginePostgres =
     ''SELECT column_name, data_type, is_nullable FROM information_schema.columns '' @
     ''WHERE table_schema = current_schema() AND table_name = $1 '' @
     ''ORDER BY ordinal_position''"
| "columns_sql EngineMySQL =
     ''SELECT column_name, column_type, is_nullable FROM information_schema.columns '' @
     ''WHERE table_schema = DATABASE() AND table_name = ? ORDER BY ordinal_position''"
| "columns_sql EngineSQLite =
     ''SELECT name, type, '' @ CHR 0x22 # ''notnull'' @ CHR 0x22 # '' FROM pragma_table_info(?)''"

text \<open>\<open>for rows.Next()\<close> with a \<open>Scan\<close>, then \<open>rows.Err\<close>.\<close>

definition scan_rows ::
  "('r \<Rightarrow> 'e + 'a) \<Rightarrow> 'r list \<times> 'e option \<Rightarrow> 'e catalog_error + 'a list" where
  "scan_rows scan res =
     (case map_res scan (fst res) of
        Inl e \<Rightarrow> Inl (DbError e)
      | Inr xs \<Rightarrow> (case snd res of Some e \<Rightarrow> Inl (DbError e) | None \<Rightarrow> Inr xs))"

definition run_query ::
  "('e, 'r) querier \<Rightarrow> string \<Rightarrow> string list \<Rightarrow> 'e catalog_error + 'r list \<times> 'e option" where
  "run_query q sql args =
     (case qy_query q sql args of Inl e \<Rightarrow> Inl (DbError e) | Inr r \<Rightarrow> Inr r)"

definition list_tables :: "('e, 'r) querier \<Rightarrow> engine \<Rightarrow> 'e catalog_error + string list" where
  "list_tables q eng =
     bind_res (run_query q (tables_sql eng) []) (\<lambda>res.
     bind_res (scan_rows (qy_scan_name q) res) (\<lambda>names. Inr (sort names)))"

definition describe_row ::
  "('e, 'r) querier \<Rightarrow> engine \<Rightarrow> 'r \<Rightarrow> 'e + column_info" where
  "describe_row q eng row =
     (if eng = EngineSQLite then
        bind_res (qy_scan_int q row) (\<lambda>(name, typ, notnull).
          Inr \<lparr>ci_name = name, ci_type = typ, ci_nullable = (notnull = 0)\<rparr>)
      else
        bind_res (qy_scan_text q row) (\<lambda>(name, typ, nullable).
          Inr \<lparr>ci_name = name, ci_type = typ, ci_nullable = equal_fold_yes nullable\<rparr>))"

definition describe_table ::
  "('e, 'r) querier \<Rightarrow> engine \<Rightarrow> string \<Rightarrow> 'e catalog_error + column_info list" where
  "describe_table q eng table =
     (if \<not> valid_ident table then Inl (InvalidTableName table)
      else bind_res (run_query q (columns_sql eng) [table]) (scan_rows (describe_row q eng)))"

definition db_catalog :: "('e, 'r) querier \<Rightarrow> engine \<Rightarrow> 'e catalog_error catalog" where
  "db_catalog q eng =
     \<lparr>cat_tables = list_tables q eng,
      cat_columns = (\<lambda>t. bind_res (describe_table q eng t) (\<lambda>cols. Inr (map ci_name cols)))\<rparr>"

section \<open>The resolver\<close>

datatype 'e resolve_error =
    CatalogFailed 'e
  | BadTableName string
  | BadTableAlias string
  | UnknownTable string
  | DuplicateBinding string
  | BadQualifier string
  | BadColumnName string
  | UnknownQualifier string
  | UnknownColumnIn string string
  | AmbiguousColumn string
  | UnknownColumn string

text \<open>The map from lower-cased names to their first spelling in a list.\<close>

definition first_spelling :: "(string \<Rightarrow> string) \<Rightarrow> string list \<Rightarrow> string \<Rightarrow> string option" where
  "first_spelling ul names =
     fold (\<lambda>t m. if m (go_lower ul t) = None then m(go_lower ul t \<mapsto> t) else m) names Map.empty"

record binding =
  b_name :: string
  b_columns :: "string \<Rightarrow> string option"

record resolver =
  r_scope :: "string \<Rightarrow> binding option"
  r_order :: "binding list"
  r_aliases :: "string \<Rightarrow> string option"

definition new_resolver :: resolver where
  "new_resolver = \<lparr>r_scope = Map.empty, r_order = [], r_aliases = Map.empty\<rparr>"

definition lift_catalog :: "'e + 'a \<Rightarrow> 'e resolve_error + 'a" where
  "lift_catalog r = (case r of Inl e \<Rightarrow> Inl (CatalogFailed e) | Inr x \<Rightarrow> Inr x)"

text \<open>\<open>bind\<close>: the rewritten table reference and the resolver with the new binding.\<close>

definition bind_ref ::
  "(string \<Rightarrow> string) \<Rightarrow> 'e catalog \<Rightarrow> (string \<Rightarrow> string option) \<Rightarrow> resolver \<Rightarrow> table_ref \<Rightarrow>
     'e resolve_error + table_ref \<times> resolver" where
  "bind_ref ul cat table_set r ref =
     (if \<not> valid_ident (tr_name ref) then Inl (BadTableName (tr_name ref))
      else if tr_alias ref \<noteq> [] \<and> \<not> valid_ident (tr_alias ref) then Inl (BadTableAlias (tr_alias ref))
      else case table_set (go_lower ul (tr_name ref)) of
        None \<Rightarrow> Inl (UnknownTable (tr_name ref))
      | Some canonical \<Rightarrow>
          (let name = (if tr_alias ref \<noteq> [] then tr_alias ref else canonical);
               key = go_lower ul name
           in if r_scope r key \<noteq> None then Inl (DuplicateBinding name)
              else bind_res (lift_catalog (cat_columns cat canonical)) (\<lambda>cols.
                let b = \<lparr>b_name = name, b_columns = first_spelling ul cols\<rparr>
                in Inr (ref\<lparr>tr_name := canonical\<rparr>,
                     r\<lparr>r_scope := (r_scope r)(key \<mapsto> b), r_order := r_order r @ [b]\<rparr>))))"

text \<open>The loop of \<open>resolveCol\<close> over the bindings, with the binding found so far.\<close>

fun find_binding ::
  "string \<Rightarrow> binding list \<Rightarrow> (binding \<times> string) option \<Rightarrow> string + (binding \<times> string) option" where
  "find_binding key [] found = Inr found"
| "find_binding key (b # bs) found =
     (case b_columns b key of
        None \<Rightarrow> find_binding key bs found
      | Some c \<Rightarrow> (if found \<noteq> None then Inl key else find_binding key bs (Some (b, c))))"

definition resolve_col ::
  "(string \<Rightarrow> string) \<Rightarrow> resolver \<Rightarrow> column \<Rightarrow> bool \<Rightarrow> 'e resolve_error + column" where
  "resolve_col ul r col allow_alias =
     (if col_table col \<noteq> [] \<and> \<not> valid_ident (col_table col) then Inl (BadQualifier (col_table col))
      else if \<not> valid_ident (col_name col) then Inl (BadColumnName (col_name col))
      else if col_table col \<noteq> [] then
        (case r_scope r (go_lower ul (col_table col)) of
           None \<Rightarrow> Inl (UnknownQualifier (col_table col))
         | Some b \<Rightarrow>
             (case b_columns b (go_lower ul (col_name col)) of
                None \<Rightarrow> Inl (UnknownColumnIn (col_name col) (b_name b))
              | Some c \<Rightarrow> Inr \<lparr>col_table = b_name b, col_name = c\<rparr>))
      else
        case (if allow_alias then r_aliases r (go_lower ul (col_name col)) else None) of
          Some canonical \<Rightarrow> Inr \<lparr>col_table = [], col_name = canonical\<rparr>
        | None \<Rightarrow>
            (case find_binding (go_lower ul (col_name col)) (r_order r) None of
               Inl _ \<Rightarrow> Inl (AmbiguousColumn (col_name col))
             | Inr None \<Rightarrow> Inl (UnknownColumn (col_name col))
             | Inr (Some (b, c)) \<Rightarrow> Inr \<lparr>col_table = b_name b, col_name = c\<rparr>))"

text \<open>\<open>rewriteCondition\<close>; its \<open>default\<close> case is for types outside the closed interface.\<close>

fun rewrite_condition ::
  "(string \<Rightarrow> string) \<Rightarrow> resolver \<Rightarrow> condition \<Rightarrow> 'e resolve_error + condition" where
  "rewrite_condition ul r (Logical op l h) =
     bind_res (rewrite_condition ul r l) (\<lambda>l'.
     bind_res (rewrite_condition ul r h) (\<lambda>h'. Inr (Logical op l' h')))"
| "rewrite_condition ul r (NotC c) =
     bind_res (rewrite_condition ul r c) (\<lambda>c'. Inr (NotC c'))"
| "rewrite_condition ul r (Comparison c op v rc) =
     bind_res (resolve_col ul r c False) (\<lambda>c'.
       case rc of
         None \<Rightarrow> Inr (Comparison c' op v None)
       | Some right \<Rightarrow>
           bind_res (resolve_col ul r right False) (\<lambda>right'. Inr (Comparison c' op v (Some right'))))"
| "rewrite_condition ul r (In c vs) =
     bind_res (resolve_col ul r c False) (\<lambda>c'. Inr (In c' vs))"
| "rewrite_condition ul r (Like c v) =
     bind_res (resolve_col ul r c False) (\<lambda>c'. Inr (Like c' v))"
| "rewrite_condition ul r (IsNull c neg) =
     bind_res (resolve_col ul r c False) (\<lambda>c'. Inr (IsNull c' neg))"
| "rewrite_condition ul r (Between c l h) =
     bind_res (resolve_col ul r c False) (\<lambda>c'. Inr (Between c' l h))"

text \<open>The joined tables of \<open>Resolve\<close>, bound one after the other.\<close>

fun bind_joins ::
  "(string \<Rightarrow> string) \<Rightarrow> 'e catalog \<Rightarrow> (string \<Rightarrow> string option) \<Rightarrow> resolver \<Rightarrow> join list \<Rightarrow>
     'e resolve_error + join list \<times> resolver" where
  "bind_joins ul cat ts r [] = Inr ([], r)"
| "bind_joins ul cat ts r (j # js) =
     bind_res (bind_ref ul cat ts r (j_table j)) (\<lambda>(ref, r).
     bind_res (bind_joins ul cat ts r js) (\<lambda>(js', r). Inr (j\<lparr>j_table := ref\<rparr> # js', r)))"

definition collect_aliases ::
  "(string \<Rightarrow> string) \<Rightarrow> select_item list \<Rightarrow> string \<Rightarrow> string option" where
  "collect_aliases ul items =
     fold (\<lambda>x m. if si_alias x \<noteq> [] then m(go_lower ul (si_alias x) \<mapsto> si_alias x) else m) items Map.empty"

definition resolve_item ::
  "(string \<Rightarrow> string) \<Rightarrow> resolver \<Rightarrow> select_item \<Rightarrow> 'e resolve_error + select_item" where
  "resolve_item ul r x =
     (if si_star x then Inr x
      else bind_res (resolve_col ul r (si_column x) False) (\<lambda>c. Inr (x\<lparr>si_column := c\<rparr>)))"

definition resolve_join ::
  "(string \<Rightarrow> string) \<Rightarrow> resolver \<Rightarrow> join \<Rightarrow> 'e resolve_error + join" where
  "resolve_join ul r j = bind_res (rewrite_condition ul r (j_on j)) (\<lambda>c. Inr (j\<lparr>j_on := c\<rparr>))"

definition resolve_where ::
  "(string \<Rightarrow> string) \<Rightarrow> resolver \<Rightarrow> condition option \<Rightarrow> 'e resolve_error + condition option" where
  "resolve_where ul r wh =
     (case wh of None \<Rightarrow> Inr None
      | Some c \<Rightarrow> bind_res (rewrite_condition ul r c) (\<lambda>c'. Inr (Some c')))"

definition resolve_order_item ::
  "(string \<Rightarrow> string) \<Rightarrow> resolver \<Rightarrow> order_item \<Rightarrow> 'e resolve_error + order_item" where
  "resolve_order_item ul r x =
     bind_res (resolve_col ul r (o_column x) True) (\<lambda>c. Inr (x\<lparr>o_column := c\<rparr>))"

text \<open>The scope \<open>Resolve\<close> builds: the \<open>FROM\<close> table, the joined tables, the aliases.\<close>

definition build_scope ::
  "(string \<Rightarrow> string) \<Rightarrow> 'e catalog \<Rightarrow> query \<Rightarrow>
     'e resolve_error + table_ref \<times> join list \<times> resolver" where
  "build_scope ul cat q =
     bind_res (lift_catalog (cat_tables cat)) (\<lambda>tables.
     bind_res (bind_ref ul cat (first_spelling ul tables) new_resolver (q_from q)) (\<lambda>(from', r).
     bind_res (bind_joins ul cat (first_spelling ul tables) r (q_joins q)) (\<lambda>(joins', r).
       Inr (from', joins', r\<lparr>r_aliases := collect_aliases ul (q_columns q)\<rparr>))))"

definition resolve ::
  "(string \<Rightarrow> string) \<Rightarrow> 'e catalog \<Rightarrow> query \<Rightarrow> 'e resolve_error + query" where
  "resolve ul cat q =
     bind_res (build_scope ul cat q) (\<lambda>(from', joins', r).
     bind_res (map_res (resolve_item ul r) (q_columns q)) (\<lambda>items.
     bind_res (map_res (resolve_join ul r) joins') (\<lambda>joins.
     bind_res (resolve_where ul r (q_where q)) (\<lambda>wh.
     bind_res (map_res (\<lambda>c. resolve_col ul r c True) (q_group_by q)) (\<lambda>group_by.
     bind_res (map_res (resolve_order_item ul r) (q_order_by q)) (\<lambda>order_by.
       Inr (q\<lparr>q_columns := items, q_from := from', q_joins := joins, q_where := wh,
              q_group_by := group_by, q_order_by := order_by\<rparr>)))))))"

section \<open>Lower-casing and spelling maps\<close>

lemma ident_char_ascii: "is_ident_char c \<Longrightarrow> (of_char c :: nat) < 128"
  by (auto simp: is_ident_char_def is_letter_code is_digit_code)

lemma valid_ident_ascii: "valid_ident s \<Longrightarrow> is_ascii s"
  by (auto simp: valid_ident_def is_ascii_def list_all_iff intro: ident_char_ascii)

lemma go_lower_ident: "valid_ident s \<Longrightarrow> go_lower ul s = to_lower s"
  by (simp add: go_lower_def valid_ident_ascii)

lemma valid_ident_to_lower [simp]: "valid_ident (to_lower s) \<longleftrightarrow> valid_ident s"
  by (cases s) (auto simp: valid_ident_def to_lower_def list_all_iff)

lemma valid_ident_recase: "to_lower t = to_lower s \<Longrightarrow> valid_ident t \<longleftrightarrow> valid_ident s"
  by (metis valid_ident_to_lower)

lemma fold_first_spelling:
  "fold (\<lambda>t m. if m (go_lower ul t) = None then m(go_lower ul t \<mapsto> t) else m) names m k =
     (case m k of Some t \<Rightarrow> Some t | None \<Rightarrow> find (\<lambda>t. go_lower ul t = k) names)"
  by (induction names arbitrary: m) (auto split: option.splits)

lemma first_spelling_find: "first_spelling ul names k = find (\<lambda>t. go_lower ul t = k) names"
  by (simp add: first_spelling_def fold_first_spelling)

lemma first_spelling_Some:
  "first_spelling ul names k = Some t \<Longrightarrow> t \<in> set names \<and> go_lower ul t = k"
  by (auto simp: first_spelling_find find_Some_iff)

lemma fold_aliases:
  "fold (\<lambda>x m. if si_alias x \<noteq> [] then m(go_lower ul (si_alias x) \<mapsto> si_alias x) else m) items m k
     = Some a \<Longrightarrow> m k = Some a \<or> (\<exists>x\<in>set items. si_alias x = a \<and> a \<noteq> [] \<and> go_lower ul a = k)"
  by (induction items arbitrary: m) (fastforce split: if_splits)+

lemma collect_aliases_Some:
  "collect_aliases ul items k = Some a \<Longrightarrow>
     go_lower ul a = k \<and> a \<noteq> [] \<and> (\<exists>x\<in>set items. si_alias x = a)"
  using fold_aliases [of ul items Map.empty k a] by (auto simp: collect_aliases_def)

section \<open>The scope\<close>

text \<open>The name a table is addressed by.\<close>

definition ref_name :: "table_ref \<Rightarrow> string" where
  "ref_name ref = (if tr_alias ref \<noteq> [] then tr_alias ref else tr_name ref)"

definition binds :: "(string \<Rightarrow> string) \<Rightarrow> 'e catalog \<Rightarrow> string list \<Rightarrow> table_ref \<Rightarrow> binding \<Rightarrow> bool" where
  "binds ul cat tables ref b \<longleftrightarrow>
     first_spelling ul tables (go_lower ul (tr_name ref)) = Some (tr_name ref) \<and>
     (tr_alias ref = [] \<or> valid_ident (tr_alias ref)) \<and> b_name b = ref_name ref \<and>
     (\<exists>cols. cat_columns cat (tr_name ref) = Inr cols \<and> b_columns b = first_spelling ul cols)"

definition scope_map :: "(string \<Rightarrow> string) \<Rightarrow> binding list \<Rightarrow> string \<Rightarrow> binding option" where
  "scope_map ul bs k = find (\<lambda>b. go_lower ul (b_name b) = k) bs"

text \<open>
  The invariant of the resolver: the bindings are those of the references \<open>refs\<close>, in order;
  the names they are addressed by differ, also in lower case; the map and the slice agree.
\<close>

definition resolver_ok ::
  "(string \<Rightarrow> string) \<Rightarrow> 'e catalog \<Rightarrow> string list \<Rightarrow> table_ref list \<Rightarrow> resolver \<Rightarrow> bool" where
  "resolver_ok ul cat tables refs r \<longleftrightarrow>
     list_all2 (binds ul cat tables) refs (r_order r) \<and>
     distinct (map (\<lambda>b. go_lower ul (b_name b)) (r_order r)) \<and>
     r_scope r = scope_map ul (r_order r)"

lemma resolver_ok_new: "resolver_ok ul cat tables [] new_resolver"
  by (simp add: resolver_ok_def new_resolver_def scope_map_def fun_eq_iff)

lemma lift_catalog_Inr [simp]: "lift_catalog m = Inr x \<longleftrightarrow> m = Inr x"
  by (auto simp: lift_catalog_def split: sum.splits)

lemma find_append: "find P (xs @ ys) = (case find P xs of Some x \<Rightarrow> Some x | None \<Rightarrow> find P ys)"
  by (induction xs) auto

lemma scope_map_append:
  "scope_map ul bs (go_lower ul (b_name b)) = None \<Longrightarrow>
     scope_map ul (bs @ [b]) = (scope_map ul bs)(go_lower ul (b_name b) \<mapsto> b)"
  by (auto simp: scope_map_def fun_eq_iff find_append split: option.splits)

lemma bind_ref_ok:
  assumes "resolver_ok ul cat tables refs r"
    and "bind_ref ul cat (first_spelling ul tables) r ref = Inr (ref', r')"
  shows "resolver_ok ul cat tables (refs @ [ref']) r' \<and> r_aliases r' = r_aliases r \<and>
    valid_ident (tr_name ref) \<and> tr_alias ref' = tr_alias ref \<and>
    first_spelling ul tables (go_lower ul (tr_name ref)) = Some (tr_name ref')"
proof -
  from assms(2) obtain t cols where v: "valid_ident (tr_name ref)"
    and a: "tr_alias ref = [] \<or> valid_ident (tr_alias ref)"
    and t: "first_spelling ul tables (go_lower ul (tr_name ref)) = Some t"
    and ref': "ref' = ref\<lparr>tr_name := t\<rparr>"
    and fresh: "r_scope r (go_lower ul (ref_name ref')) = None"
    and cols: "cat_columns cat t = Inr cols"
    and r': "r' = r\<lparr>r_scope := (r_scope r)(go_lower ul (ref_name ref') \<mapsto>
        \<lparr>b_name = ref_name ref', b_columns = first_spelling ul cols\<rparr>),
      r_order := r_order r @ [\<lparr>b_name = ref_name ref', b_columns = first_spelling ul cols\<rparr>]\<rparr>"
    by (auto simp: bind_ref_def Let_def ref_name_def res_simps split: if_splits option.splits)
  let ?b = "\<lparr>b_name = ref_name ref', b_columns = first_spelling ul cols\<rparr>"
  have "go_lower ul t = go_lower ul (tr_name ref)" using first_spelling_Some [OF t] by simp
  then have b: "binds ul cat tables ref' ?b"
    using t a cols by (simp add: binds_def ref')
  have none: "scope_map ul (r_order r) (go_lower ul (b_name ?b)) = None"
    using fresh assms(1) by (simp add: resolver_ok_def)
  then have "go_lower ul (ref_name ref') \<notin> set (map (\<lambda>b. go_lower ul (b_name b)) (r_order r))"
    by (auto simp: scope_map_def find_None_iff)
  then have "resolver_ok ul cat tables (refs @ [ref']) r'"
    using assms(1) b scope_map_append [OF none] by (simp add: resolver_ok_def r' list_all2_appendI)
  then show ?thesis using v t by (simp add: r' ref')
qed

lemma bind_joins_ok:
  "resolver_ok ul cat tables refs r \<Longrightarrow>
   bind_joins ul cat (first_spelling ul tables) r js = Inr (js', r') \<Longrightarrow>
     resolver_ok ul cat tables (refs @ map j_table js') r' \<and> r_aliases r' = r_aliases r \<and>
     list_all2 (\<lambda>j j'. j_type j' = j_type j \<and> j_on j' = j_on j \<and>
       tr_alias (j_table j') = tr_alias (j_table j) \<and> valid_ident (tr_name (j_table j)) \<and>
       first_spelling ul tables (go_lower ul (tr_name (j_table j))) = Some (tr_name (j_table j'))) js js'"
proof (induction js arbitrary: refs r js' r')
  case (Cons j js)
  from Cons.prems(2) obtain ref r1 js1 where 1: "bind_ref ul cat (first_spelling ul tables) r (j_table j) = Inr (ref, r1)"
    "bind_joins ul cat (first_spelling ul tables) r1 js = Inr (js1, r')" "js' = j\<lparr>j_table := ref\<rparr> # js1"
    by (auto simp: res_simps)
  note b = bind_ref_ok [OF Cons.prems(1) 1(1)]
  from b Cons.IH [of "refs @ [ref]" r1 js1 r'] 1(2,3) show ?case by auto
qed simp

section \<open>Resolving one column\<close>

text \<open>The tables in scope that have a column, with its canonical spelling.\<close>

definition holders :: "string \<Rightarrow> binding list \<Rightarrow> (binding \<times> string) list" where
  "holders key bs = concat (map (\<lambda>b. case b_columns b key of None \<Rightarrow> [] | Some c \<Rightarrow> [(b, c)]) bs)"

lemma holders_simps [simp]:
  "holders key [] = []"
  "holders key (b # bs) = (case b_columns b key of None \<Rightarrow> [] | Some c \<Rightarrow> [(b, c)]) @ holders key bs"
  by (simp_all add: holders_def)

lemma find_binding_found:
  "find_binding key bs (Some x) = (if holders key bs = [] then Inr (Some x) else Inl key)"
  by (induction bs) (auto split: option.splits)

lemma find_binding_holders:
  "find_binding key bs None =
     (case holders key bs of [] \<Rightarrow> Inr None | [x] \<Rightarrow> Inr (Some x) | _ \<Rightarrow> Inl key)"
  by (induction bs) (auto simp: find_binding_found split: option.splits list.splits)

lemma holders_set: "(b, c) \<in> set (holders key bs) \<longleftrightarrow> b \<in> set bs \<and> b_columns b key = Some c"
  by (auto simp: holders_def split: option.splits)

text \<open>What a successful resolution of a column has established.\<close>

definition column_bound ::
  "(string \<Rightarrow> string) \<Rightarrow> resolver \<Rightarrow> column \<Rightarrow> column \<Rightarrow> binding \<Rightarrow> bool" where
  "column_bound ul r col c' b \<longleftrightarrow>
     col_table c' = b_name b \<and> b_columns b (go_lower ul (col_name col)) = Some (col_name c') \<and>
     (if col_table col = [] then holders (go_lower ul (col_name col)) (r_order r) = [(b, col_name c')]
      else valid_ident (col_table col) \<and> r_scope r (go_lower ul (col_table col)) = Some b)"

definition alias_bound :: "(string \<Rightarrow> string) \<Rightarrow> resolver \<Rightarrow> column \<Rightarrow> column \<Rightarrow> bool" where
  "alias_bound ul r col c' \<longleftrightarrow>
     col_table col = [] \<and> col_table c' = [] \<and>
     r_aliases r (go_lower ul (col_name col)) = Some (col_name c')"

definition col_resolves ::
  "(string \<Rightarrow> string) \<Rightarrow> resolver \<Rightarrow> bool \<Rightarrow> column \<Rightarrow> column \<Rightarrow> bool" where
  "col_resolves ul r al col c' \<longleftrightarrow> valid_ident (col_name col) \<and>
     (if al \<and> col_table col = [] \<and> r_aliases r (go_lower ul (col_name col)) \<noteq> None
      then alias_bound ul r col c' else \<exists>b. column_bound ul r col c' b)"

lemma holders_single: "holders key bs = [(b, c)] \<Longrightarrow> b_columns b key = Some c"
  using holders_set [of b c key bs] by simp

lemma resolve_col_Inr: "resolve_col ul r col al = Inr c' \<longleftrightarrow> col_resolves ul r al col c'"
proof (cases "col_table col = []")
  case True
  then show ?thesis
    by (cases c') (auto simp: resolve_col_def col_resolves_def column_bound_def alias_bound_def
        find_binding_holders dest: holders_single
        split: option.splits list.splits if_splits prod.splits)
next
  case False
  then show ?thesis
    by (cases c') (auto simp: resolve_col_def col_resolves_def column_bound_def split: option.splits)
qed

lemma resolve_col_ambiguous:
  assumes "valid_ident (col_name col)" "col_table col = []"
    "al \<longrightarrow> r_aliases r (go_lower ul (col_name col)) = None"
  shows "resolve_col ul r col al =
    (case holders (go_lower ul (col_name col)) (r_order r) of
       [] \<Rightarrow> Inl (UnknownColumn (col_name col))
     | [(b, c)] \<Rightarrow> Inr \<lparr>col_table = b_name b, col_name = c\<rparr>
     | _ \<Rightarrow> Inl (AmbiguousColumn (col_name col)))"
  using assms by (auto simp: resolve_col_def find_binding_holders split: list.splits)

lemma scope_map_Some: "scope_map ul bs k = Some b \<Longrightarrow> b \<in> set bs \<and> go_lower ul (b_name b) = k"
  by (auto simp: scope_map_def find_Some_iff)

lemma scope_map_self:
  "distinct (map (\<lambda>b. go_lower ul (b_name b)) bs) \<Longrightarrow> b \<in> set bs \<Longrightarrow>
     scope_map ul bs (go_lower ul (b_name b)) = Some b"
proof (induction bs)
  case (Cons a bs)
  then show ?case by (cases "b = a") (auto simp: scope_map_def image_iff)
qed simp

lemma column_bound_scope:
  assumes "resolver_ok ul cat tables refs r" "column_bound ul r col c' b"
  shows "b \<in> set (r_order r)"
proof (cases "col_table col = []")
  case True
  with assms(2) have "(b, col_name c') \<in> set (holders (go_lower ul (col_name col)) (r_order r))"
    by (simp add: column_bound_def)
  then show ?thesis by (simp add: holders_set)
next
  case False
  with assms scope_map_Some show ?thesis by (auto simp: column_bound_def resolver_ok_def)
qed

lemma binding_ref: "list_all2 P xs ys \<Longrightarrow> y \<in> set ys \<Longrightarrow> \<exists>x\<in>set xs. P x y"
  by (induction rule: list_all2_induct) auto

lemma resolver_binding:
  "resolver_ok ul cat tables refs r \<Longrightarrow> b \<in> set (r_order r) \<Longrightarrow> \<exists>ref\<in>set refs. binds ul cat tables ref b"
  unfolding resolver_ok_def by (elim conjE) (rule binding_ref)

text \<open>A column of a table in scope, as the catalog spells it.\<close>

definition in_scope :: "'e catalog \<Rightarrow> table_ref list \<Rightarrow> column \<Rightarrow> bool" where
  "in_scope cat refs c \<longleftrightarrow> (\<exists>ref\<in>set refs. col_table c = ref_name ref \<and>
     (\<exists>cols. cat_columns cat (tr_name ref) = Inr cols \<and> col_name c \<in> set cols))"

lemma bound_in_scope:
  assumes "resolver_ok ul cat tables refs r" "column_bound ul r col c' b"
  shows "in_scope cat refs c'"
proof -
  from resolver_binding [OF assms(1) column_bound_scope [OF assms]] obtain ref where
    "ref \<in> set refs" "binds ul cat tables ref b" by blast
  with assms(2) obtain cols where "cat_columns cat (tr_name ref) = Inr cols"
    "col_name c' \<in> set cols" "col_table c' = ref_name ref"
    using first_spelling_Some [of ul _ "go_lower ul (col_name col)" "col_name c'"]
    by (auto simp: binds_def column_bound_def)
  with \<open>ref \<in> set refs\<close> show ?thesis unfolding in_scope_def by blast
qed

lemma bound_key:
  assumes "resolver_ok ul cat tables refs r" "column_bound ul r col c' b"
  shows "go_lower ul (col_name c') = go_lower ul (col_name col)"
    and "col_table col \<noteq> [] \<Longrightarrow> go_lower ul (col_table c') = go_lower ul (col_table col)"
proof -
  from resolver_binding [OF assms(1) column_bound_scope [OF assms]] obtain ref where
    "ref \<in> set refs" "binds ul cat tables ref b" by blast
  with assms(2) show "go_lower ul (col_name c') = go_lower ul (col_name col)"
    by (auto simp: binds_def column_bound_def dest: first_spelling_Some)
  show "col_table col \<noteq> [] \<Longrightarrow> go_lower ul (col_table c') = go_lower ul (col_table col)"
    using assms scope_map_Some by (auto simp: column_bound_def resolver_ok_def)
qed

section \<open>What a resolved query mentions\<close>

definition query_refs :: "query \<Rightarrow> table_ref list" where
  "query_refs q = q_from q # map j_table (q_joins q)"

text \<open>The columns that must be columns of a table, and those that may also name an alias.\<close>

definition where_columns :: "condition option \<Rightarrow> column list" where
  "where_columns wh = (case wh of None \<Rightarrow> [] | Some c \<Rightarrow> cond_columns c)"

definition strict_columns :: "query \<Rightarrow> column list" where
  "strict_columns q =
     map si_column (filter (\<lambda>x. \<not> si_star x) (q_columns q))
     @ concat (map (\<lambda>j. cond_columns (j_on j)) (q_joins q)) @ where_columns (q_where q)"

definition loose_columns :: "query \<Rightarrow> column list" where
  "loose_columns q = q_group_by q @ map o_column (q_order_by q)"

definition resolved :: "(string \<Rightarrow> string) \<Rightarrow> 'e catalog \<Rightarrow> query \<Rightarrow> bool" where
  "resolved ul cat q \<longleftrightarrow>
     (\<exists>tables. cat_tables cat = Inr tables \<and> (\<forall>ref\<in>set (query_refs q). tr_name ref \<in> set tables)) \<and>
     distinct (map (\<lambda>ref. go_lower ul (ref_name ref)) (query_refs q)) \<and>
     (\<forall>c\<in>set (strict_columns q). in_scope cat (query_refs q) c) \<and>
     (\<forall>c\<in>set (loose_columns q). in_scope cat (query_refs q) c \<or>
        col_table c = [] \<and> col_name c \<noteq> [] \<and> col_name c \<in> si_alias ` set (q_columns q))"

lemma map_res_all2: "map_res f xs = Inr ys \<longleftrightarrow> list_all2 (\<lambda>x y. f x = Inr y) xs ys"
  by (induction xs arbitrary: ys) (auto simp: res_simps list_all2_Cons1)

text \<open>A resolved condition has the same form, and its columns are resolved one by one.\<close>

fun same_form :: "(column \<Rightarrow> column \<Rightarrow> bool) \<Rightarrow> condition \<Rightarrow> condition \<Rightarrow> bool" where
  "same_form R (Logical op l r) x \<longleftrightarrow>
     (\<exists>l' r'. x = Logical op l' r' \<and> same_form R l l' \<and> same_form R r r')"
| "same_form R (NotC c) x \<longleftrightarrow> (\<exists>c'. x = NotC c' \<and> same_form R c c')"
| "same_form R (Comparison c op v rc) x \<longleftrightarrow>
     (\<exists>c' rc'. x = Comparison c' op v rc' \<and> R c c' \<and> rel_option R rc rc')"
| "same_form R (In c vs) x \<longleftrightarrow> (\<exists>c'. x = In c' vs \<and> R c c')"
| "same_form R (Like c v) x \<longleftrightarrow> (\<exists>c'. x = Like c' v \<and> R c c')"
| "same_form R (IsNull c neg) x \<longleftrightarrow> (\<exists>c'. x = IsNull c' neg \<and> R c c')"
| "same_form R (Between c l h) x \<longleftrightarrow> (\<exists>c'. x = Between c' l h \<and> R c c')"

lemma rewrite_condition_form:
  "rewrite_condition ul r c = Inr x \<longleftrightarrow> same_form (col_resolves ul r False) c x"
proof (induction c arbitrary: x)
  case (Comparison c op v rc)
  then show ?case by (cases rc) (auto simp: res_simps resolve_col_Inr option_rel_Some1)
qed (auto simp: res_simps resolve_col_Inr)

lemma same_form_mono:
  "same_form R c x \<Longrightarrow> (\<And>a b. R a b \<Longrightarrow> S a b) \<Longrightarrow> same_form S c x"
proof (induction c arbitrary: x)
  case (Comparison c op v rc)
  then show ?case by (cases rc) (auto simp: option_rel_Some1)
qed fastforce+

lemma same_form_columns: "same_form R c x \<Longrightarrow> list_all2 R (cond_columns c) (cond_columns x)"
proof (induction c arbitrary: x)
  case (Comparison c op v rc)
  then show ?case by (cases rc) (auto simp: option_rel_Some1)
qed (auto simp: list_all2_appendI)


text \<open>The pieces of a successful run of \<open>resolve\<close>, as relations.\<close>

definition item_res :: "(string \<Rightarrow> string) \<Rightarrow> resolver \<Rightarrow> select_item \<Rightarrow> select_item \<Rightarrow> bool" where
  "item_res ul r x y \<longleftrightarrow> (if si_star x then y = x
     else \<exists>c. col_resolves ul r False (si_column x) c \<and> y = x\<lparr>si_column := c\<rparr>)"

definition join_res :: "(string \<Rightarrow> string) \<Rightarrow> resolver \<Rightarrow> join \<Rightarrow> join \<Rightarrow> bool" where
  "join_res ul r j j' \<longleftrightarrow> (\<exists>c. same_form (col_resolves ul r False) (j_on j) c \<and> j' = j\<lparr>j_on := c\<rparr>)"

definition order_res :: "(string \<Rightarrow> string) \<Rightarrow> resolver \<Rightarrow> order_item \<Rightarrow> order_item \<Rightarrow> bool" where
  "order_res ul r x y \<longleftrightarrow> (\<exists>c. col_resolves ul r True (o_column x) c \<and> y = x\<lparr>o_column := c\<rparr>)"

lemma resolve_parts:
  "resolve_item ul r x = Inr y \<longleftrightarrow> item_res ul r x y"
  "resolve_join ul r j = Inr j' \<longleftrightarrow> join_res ul r j j'"
  "resolve_order_item ul r o1 = Inr o2 \<longleftrightarrow> order_res ul r o1 o2"
  "resolve_where ul r wh = Inr wh' \<longleftrightarrow> rel_option (same_form (col_resolves ul r False)) wh wh'"
  by (auto simp: resolve_item_def item_res_def resolve_join_def join_res_def resolve_order_item_def
      order_res_def resolve_where_def res_simps resolve_col_Inr rewrite_condition_form
      option_rel_Some1 split: option.splits)

lemma resolve_Inr:
  "resolve ul cat q = Inr q' \<longleftrightarrow> (\<exists>from' joins' r items joins wh group_by order_by.
     build_scope ul cat q = Inr (from', joins', r) \<and>
     list_all2 (item_res ul r) (q_columns q) items \<and>
     list_all2 (join_res ul r) joins' joins \<and>
     rel_option (same_form (col_resolves ul r False)) (q_where q) wh \<and>
     list_all2 (col_resolves ul r True) (q_group_by q) group_by \<and>
     list_all2 (order_res ul r) (q_order_by q) order_by \<and>
     q\<lparr>q_columns := items, q_from := from', q_joins := joins, q_where := wh,
        q_group_by := group_by, q_order_by := order_by\<rparr> = q')"
  by (simp add: resolve_def res_simps map_res_all2 resolve_parts resolve_col_Inr)

lemma item_res_columns:
  "list_all2 (item_res ul r) xs ys \<Longrightarrow>
     list_all2 (col_resolves ul r False) (map si_column (filter (\<lambda>x. \<not> si_star x) xs))
       (map si_column (filter (\<lambda>x. \<not> si_star x) ys)) \<and> map si_alias ys = map si_alias xs"
  by (induction rule: list_all2_induct) (auto simp: item_res_def split: if_splits)

lemma join_res_columns:
  "list_all2 (join_res ul r) js' js \<Longrightarrow>
     list_all2 (col_resolves ul r False) (concat (map (\<lambda>j. cond_columns (j_on j)) js'))
       (concat (map (\<lambda>j. cond_columns (j_on j)) js)) \<and> map j_table js = map j_table js'"
  by (induction rule: list_all2_induct)
    (auto simp: join_res_def intro!: list_all2_appendI dest: same_form_columns)

lemma order_res_columns:
  "list_all2 (order_res ul r) xs ys \<Longrightarrow>
     list_all2 (col_resolves ul r True) (map o_column xs) (map o_column ys)"
  by (induction rule: list_all2_induct) (auto simp: order_res_def)

lemma where_res_columns:
  "rel_option (same_form R) wh wh' \<Longrightarrow> list_all2 R (where_columns wh) (where_columns wh')"
  by (auto simp: where_columns_def same_form_columns elim: option.rel_cases)

text \<open>What the two table lists of a query and its resolution have in common.\<close>

definition same_join :: "(string \<Rightarrow> string) \<Rightarrow> string list \<Rightarrow> join \<Rightarrow> join \<Rightarrow> bool" where
  "same_join ul tables j j' \<longleftrightarrow> j_type j' = j_type j \<and> j_on j' = j_on j \<and>
     tr_alias (j_table j') = tr_alias (j_table j) \<and> valid_ident (tr_name (j_table j)) \<and>
     first_spelling ul tables (go_lower ul (tr_name (j_table j))) = Some (tr_name (j_table j'))"

lemma build_scope_parts:
  assumes "build_scope ul cat q = Inr (from', joins', r)"
  shows "\<exists>tables. cat_tables cat = Inr tables \<and>
    resolver_ok ul cat tables (from' # map j_table joins') r \<and>
    r_aliases r = collect_aliases ul (q_columns q) \<and>
    tr_alias from' = tr_alias (q_from q) \<and> valid_ident (tr_name (q_from q)) \<and>
    first_spelling ul tables (go_lower ul (tr_name (q_from q))) = Some (tr_name from') \<and>
    list_all2 (same_join ul tables) (q_joins q) joins'"
proof -
  from assms obtain tables r1 r2 where t: "cat_tables cat = Inr tables"
    and f: "bind_ref ul cat (first_spelling ul tables) new_resolver (q_from q) = Inr (from', r1)"
    and j: "bind_joins ul cat (first_spelling ul tables) r1 (q_joins q) = Inr (joins', r2)"
    and r: "r = r2\<lparr>r_aliases := collect_aliases ul (q_columns q)\<rparr>"
    by (auto simp: build_scope_def res_simps)
  note f' = bind_ref_ok [OF resolver_ok_new f]
  then have "resolver_ok ul cat tables [from'] r1" by simp
  from bind_joins_ok [OF this j] f' show ?thesis
    using t r by (auto simp: resolver_ok_def same_join_def cong: list.rel_cong)
qed

lemma resolve_relates:
  assumes "resolve ul cat q = Inr q'"
  shows "\<exists>tables r. cat_tables cat = Inr tables \<and>
    resolver_ok ul cat tables (query_refs q') r \<and>
    r_aliases r = collect_aliases ul (q_columns q) \<and>
    map si_alias (q_columns q') = map si_alias (q_columns q) \<and>
    list_all2 (col_resolves ul r False) (strict_columns q) (strict_columns q') \<and>
    list_all2 (col_resolves ul r True) (loose_columns q) (loose_columns q')"
proof -
  from assms [unfolded resolve_Inr] obtain from' joins' r items joins wh group_by order_by where
    b: "build_scope ul cat q = Inr (from', joins', r)"
    and i: "list_all2 (item_res ul r) (q_columns q) items"
    and j: "list_all2 (join_res ul r) joins' joins"
    and w: "rel_option (same_form (col_resolves ul r False)) (q_where q) wh"
    and g: "list_all2 (col_resolves ul r True) (q_group_by q) group_by"
    and o1: "list_all2 (order_res ul r) (q_order_by q) order_by"
    and q': "q\<lparr>q_columns := items, q_from := from', q_joins := joins, q_where := wh,
        q_group_by := group_by, q_order_by := order_by\<rparr> = q'" by blast
  from build_scope_parts [OF b] obtain tables where t: "cat_tables cat = Inr tables"
    "resolver_ok ul cat tables (from' # map j_table joins') r"
    "r_aliases r = collect_aliases ul (q_columns q)" and sj: "list_all2 (same_join ul tables) (q_joins q) joins'"
    by blast
  have on: "map (\<lambda>j. cond_columns (j_on j)) joins' = map (\<lambda>j. cond_columns (j_on j)) (q_joins q)"
    using sj by (induction rule: list_all2_induct) (auto simp: same_join_def)
  show ?thesis
    using t join_res_columns [OF j] item_res_columns [OF i] where_res_columns [OF w] g
      order_res_columns [OF o1] on
    by (intro exI [of _ tables] exI [of _ r])
      (auto simp: query_refs_def strict_columns_def loose_columns_def q' [symmetric]
        intro!: list_all2_appendI)
qed

section \<open>Soundness\<close>

lemma resolver_names:
  "resolver_ok ul cat tables refs r \<Longrightarrow>
     distinct (map (\<lambda>ref. go_lower ul (ref_name ref)) refs) \<and> (\<forall>ref\<in>set refs. tr_name ref \<in> set tables)"
proof -
  have "list_all2 (binds ul cat tables) refs bs \<Longrightarrow>
    map (\<lambda>ref. go_lower ul (ref_name ref)) refs = map (\<lambda>b. go_lower ul (b_name b)) bs \<and>
    (\<forall>ref\<in>set refs. tr_name ref \<in> set tables)" for bs
    by (induction rule: list_all2_induct) (auto simp: binds_def dest: first_spelling_Some)
  then show "resolver_ok ul cat tables refs r \<Longrightarrow> ?thesis"
    unfolding resolver_ok_def by metis
qed

lemma col_resolves_in_scope:
  assumes "resolver_ok ul cat tables refs r" "r_aliases r = collect_aliases ul items"
    and "col_resolves ul r al c c'"
  shows "in_scope cat refs c' \<or> al \<and> col_table c' = [] \<and> col_name c' \<noteq> [] \<and> col_name c' \<in> si_alias ` set items"
  using assms bound_in_scope [OF assms(1)]
  by (force simp: col_resolves_def alias_bound_def dest!: collect_aliases_Some split: if_splits)

lemma list_all2_right: "list_all2 P xs ys \<Longrightarrow> (\<And>x y. P x y \<Longrightarrow> Q y) \<Longrightarrow> \<forall>y\<in>set ys. Q y"
  by (induction rule: list_all2_induct) auto

lemma resolve_resolved:
  assumes "resolve ul cat q = Inr q'"
  shows "resolved ul cat q'"
proof -
  from resolve_relates [OF assms] obtain tables r where t: "cat_tables cat = Inr tables"
    and ok: "resolver_ok ul cat tables (query_refs q') r"
    and al: "r_aliases r = collect_aliases ul (q_columns q)"
    and ali: "map si_alias (q_columns q') = map si_alias (q_columns q)"
    and s: "list_all2 (col_resolves ul r False) (strict_columns q) (strict_columns q')"
    and l: "list_all2 (col_resolves ul r True) (loose_columns q) (loose_columns q')" by blast
  have set_al: "si_alias ` set (q_columns q') = si_alias ` set (q_columns q)"
    using ali by (metis list.set_map)
  have "\<forall>c\<in>set (strict_columns q'). in_scope cat (query_refs q') c"
    by (rule list_all2_right [OF s]) (drule col_resolves_in_scope [OF ok al], simp)
  moreover have "\<forall>c\<in>set (loose_columns q'). in_scope cat (query_refs q') c \<or>
    col_table c = [] \<and> col_name c \<noteq> [] \<and> col_name c \<in> si_alias ` set (q_columns q)"
    by (rule list_all2_right [OF l]) (drule col_resolves_in_scope [OF ok al], simp)
  ultimately show ?thesis
    unfolding resolved_def set_al using resolver_names [OF ok] t by simp
qed

section \<open>What resolution leaves alone\<close>

text \<open>A query with every column and table name blanked out.\<close>

fun blank_cond :: "condition \<Rightarrow> condition" where
  "blank_cond (Logical op l r) = Logical op (blank_cond l) (blank_cond r)"
| "blank_cond (NotC c) = NotC (blank_cond c)"
| "blank_cond (Comparison c op v rc) = Comparison zero_column op v (map_option (\<lambda>_. zero_column) rc)"
| "blank_cond (In c vs) = In zero_column vs"
| "blank_cond (Like c v) = Like zero_column v"
| "blank_cond (IsNull c neg) = IsNull zero_column neg"
| "blank_cond (Between c l h) = Between zero_column l h"

definition blank_ref :: "table_ref \<Rightarrow> table_ref" where
  "blank_ref ref = ref\<lparr>tr_name := []\<rparr>"

definition blank_query :: "query \<Rightarrow> query" where
  "blank_query q = q\<lparr>
     q_columns := map (\<lambda>x. x\<lparr>si_column := zero_column\<rparr>) (q_columns q),
     q_from := blank_ref (q_from q),
     q_joins := map (\<lambda>j. j\<lparr>j_table := blank_ref (j_table j), j_on := blank_cond (j_on j)\<rparr>) (q_joins q),
     q_where := map_option blank_cond (q_where q),
     q_group_by := map (\<lambda>_. zero_column) (q_group_by q),
     q_order_by := map (\<lambda>x. x\<lparr>o_column := zero_column\<rparr>) (q_order_by q)\<rparr>"

lemma same_form_blank: "same_form R c x \<Longrightarrow> blank_cond x = blank_cond c"
proof (induction c arbitrary: x)
  case (Comparison c op v rc)
  then show ?case by (cases rc) (auto simp: option_rel_Some1)
qed auto

text \<open>The same name up to case.\<close>

definition same_names :: "(string \<Rightarrow> string) \<Rightarrow> column \<Rightarrow> column \<Rightarrow> bool" where
  "same_names ul c c' \<longleftrightarrow> go_lower ul (col_name c') = go_lower ul (col_name c) \<and>
     (col_table c \<noteq> [] \<longrightarrow> go_lower ul (col_table c') = go_lower ul (col_table c))"

lemma col_resolves_names:
  assumes "resolver_ok ul cat tables refs r" "r_aliases r = collect_aliases ul items"
    and "col_resolves ul r al c c'"
  shows "same_names ul c c'"
  using assms bound_key [OF assms(1)]
  by (auto simp: col_resolves_def alias_bound_def same_names_def dest!: collect_aliases_Some
      split: if_splits)

lemma blank_items: "list_all2 (item_res ul r) xs ys \<Longrightarrow>
    map (\<lambda>x. x\<lparr>si_column := zero_column\<rparr>) ys = map (\<lambda>x. x\<lparr>si_column := zero_column\<rparr>) xs"
  by (induction rule: list_all2_induct) (auto simp: item_res_def split: if_splits)

lemma blank_orders: "list_all2 (order_res ul r) xs ys \<Longrightarrow>
    map (\<lambda>x. x\<lparr>o_column := zero_column\<rparr>) ys = map (\<lambda>x. x\<lparr>o_column := zero_column\<rparr>) xs"
  by (induction rule: list_all2_induct) (auto simp: order_res_def)

lemma blank_where: "rel_option (same_form R) wh wh' \<Longrightarrow> map_option blank_cond wh' = map_option blank_cond wh"
  by (auto simp: same_form_blank elim: option.rel_cases)

lemma blank_joins:
  assumes "list_all2 (same_join ul tables) js js1" "list_all2 (join_res ul r) js1 js2"
  shows "map (\<lambda>j. j\<lparr>j_table := blank_ref (j_table j), j_on := blank_cond (j_on j)\<rparr>) js2
    = map (\<lambda>j. j\<lparr>j_table := blank_ref (j_table j), j_on := blank_cond (j_on j)\<rparr>) js"
proof -
  have "j\<lparr>j_table := blank_ref (j_table j), j_on := blank_cond (j_on j)\<rparr>
    = j1\<lparr>j_table := blank_ref (j_table j1), j_on := blank_cond (j_on j1)\<rparr>"
    if "same_join ul tables j1 j" for j j1
    using that by (cases j; cases j1; cases "j_table j"; cases "j_table j1")
      (auto simp: same_join_def blank_ref_def)
  with assms(1) have "map (\<lambda>j. j\<lparr>j_table := blank_ref (j_table j), j_on := blank_cond (j_on j)\<rparr>) js1
    = map (\<lambda>j. j\<lparr>j_table := blank_ref (j_table j), j_on := blank_cond (j_on j)\<rparr>) js"
    by (induction rule: list_all2_induct) auto
  moreover have "map (\<lambda>j. j\<lparr>j_table := blank_ref (j_table j), j_on := blank_cond (j_on j)\<rparr>) js2
    = map (\<lambda>j. j\<lparr>j_table := blank_ref (j_table j), j_on := blank_cond (j_on j)\<rparr>) js1"
    using assms(2) by (induction rule: list_all2_induct) (auto simp: join_res_def same_form_blank)
  ultimately show ?thesis by simp
qed

lemma resolve_blank:
  assumes "resolve ul cat q = Inr q'"
  shows "blank_query q' = blank_query q"
proof -
  from assms [unfolded resolve_Inr] obtain from' joins' r items joins wh group_by order_by where
    b: "build_scope ul cat q = Inr (from', joins', r)"
    and i: "list_all2 (item_res ul r) (q_columns q) items"
    and j: "list_all2 (join_res ul r) joins' joins"
    and w: "rel_option (same_form (col_resolves ul r False)) (q_where q) wh"
    and g: "list_all2 (col_resolves ul r True) (q_group_by q) group_by"
    and o1: "list_all2 (order_res ul r) (q_order_by q) order_by"
    and q': "q\<lparr>q_columns := items, q_from := from', q_joins := joins, q_where := wh,
        q_group_by := group_by, q_order_by := order_by\<rparr> = q'" by blast
  from build_scope_parts [OF b] obtain tables where f: "tr_alias from' = tr_alias (q_from q)"
    and sj: "list_all2 (same_join ul tables) (q_joins q) joins'" by blast
  have "blank_ref from' = blank_ref (q_from q)"
    using f by (cases from'; cases "q_from q") (simp add: blank_ref_def)
  moreover have "map (\<lambda>_. zero_column) group_by = map (\<lambda>_. zero_column) (q_group_by q)"
    using list_all2_lengthD [OF g] by (simp add: map_replicate_const)
  ultimately show ?thesis
    unfolding blank_query_def q' [symmetric]
    by (simp add: blank_items [OF i] blank_joins [OF sj j] blank_where [OF w] blank_orders [OF o1])
qed

lemma resolve_names:
  assumes "resolve ul cat q = Inr q'"
  shows "list_all2 (same_names ul) (strict_columns q @ loose_columns q) (strict_columns q' @ loose_columns q')"
proof -
  from resolve_relates [OF assms] obtain tables r where
    ok: "resolver_ok ul cat tables (query_refs q') r"
    and al: "r_aliases r = collect_aliases ul (q_columns q)"
    and s: "list_all2 (col_resolves ul r False) (strict_columns q) (strict_columns q')"
    and l: "list_all2 (col_resolves ul r True) (loose_columns q) (loose_columns q')" by blast
  show ?thesis
    using s l col_resolves_names [OF ok al]
    by (intro list_all2_appendI) (auto elim: list.rel_mono_strong)
qed


section \<open>Resolving twice\<close>

definition names_valid :: "'e catalog \<Rightarrow> bool" where
  "names_valid cat \<longleftrightarrow>
     (\<forall>tables. cat_tables cat = Inr tables \<longrightarrow> list_all valid_ident tables) \<and>
     (\<forall>t cols. cat_columns cat t = Inr cols \<longrightarrow> list_all valid_ident cols)"

definition aliases_valid :: "query \<Rightarrow> bool" where
  "aliases_valid q \<longleftrightarrow> list_all (\<lambda>x. si_alias x = [] \<or> valid_ident (si_alias x)) (q_columns q)"

lemma valid_ident_not_Nil: "valid_ident s \<Longrightarrow> s \<noteq> []"
  by (simp add: valid_ident_def)

lemma bind_ref_again:
  assumes "bind_ref ul cat (first_spelling ul tables) r ref = Inr (ref', r')" "valid_ident (tr_name ref')"
  shows "bind_ref ul cat (first_spelling ul tables) r ref' = Inr (ref', r')"
proof -
  from assms(1) have "first_spelling ul tables (go_lower ul (tr_name ref)) = Some (tr_name ref')"
    by (auto simp: bind_ref_def Let_def res_simps split: if_splits option.splits)
  then have "go_lower ul (tr_name ref') = go_lower ul (tr_name ref)"
    by (auto dest: first_spelling_Some)
  with assms show ?thesis
    by (auto simp: bind_ref_def Let_def res_simps split: if_splits option.splits)
qed

lemma bind_joins_again:
  "bind_joins ul cat (first_spelling ul tables) r js = Inr (js', r') \<Longrightarrow>
     \<forall>j\<in>set js'. valid_ident (tr_name (j_table j)) \<Longrightarrow> map j_table js2 = map j_table js' \<Longrightarrow>
     bind_joins ul cat (first_spelling ul tables) r js2 = Inr (js2, r')"
proof (induction js arbitrary: r js' r' js2)
  case (Cons j js)
  from Cons.prems(1) obtain ref r1 js1 where
    1: "bind_ref ul cat (first_spelling ul tables) r (j_table j) = Inr (ref, r1)"
    "bind_joins ul cat (first_spelling ul tables) r1 js = Inr (js1, r')" "js' = j\<lparr>j_table := ref\<rparr> # js1"
    by (auto simp: res_simps)
  then obtain k ks where js2: "js2 = k # ks" "j_table k = ref" "map j_table ks = map j_table js1"
    using Cons.prems(3) by auto
  have "bind_joins ul cat (first_spelling ul tables) r1 ks = Inr (ks, r')"
    by (rule Cons.IH [OF 1(2)]) (use Cons.prems(2) 1(3) js2(3) in auto)
  moreover have "bind_ref ul cat (first_spelling ul tables) r ref = Inr (ref, r1)"
    by (rule bind_ref_again [OF 1(1)]) (use Cons.prems(2) 1(3) in auto)
  moreover have "k\<lparr>j_table := ref\<rparr> = k" using js2(2) by (cases k) auto
  ultimately show ?case by (simp add: js2)
qed simp

lemma collect_aliases_map:
  "collect_aliases ul zs =
     fold (\<lambda>a m. if a \<noteq> [] then m(go_lower ul a \<mapsto> a) else m) (map si_alias zs) Map.empty"
proof -
  have "fold (\<lambda>x m. if si_alias x \<noteq> [] then m(go_lower ul (si_alias x) \<mapsto> si_alias x) else m) zs m
    = fold (\<lambda>a m. if a \<noteq> [] then m(go_lower ul a \<mapsto> a) else m) (map si_alias zs) m" for m
    by (induction zs arbitrary: m) auto
  then show ?thesis by (simp add: collect_aliases_def)
qed

lemma collect_aliases_cong:
  "map si_alias xs = map si_alias ys \<Longrightarrow> collect_aliases ul xs = collect_aliases ul ys"
  by (simp add: collect_aliases_map)

lemma build_scope_again:
  assumes "build_scope ul cat q = Inr (from', joins', r)" "names_valid cat"
    and "q_from q' = from'" "map j_table (q_joins q') = map j_table joins'"
    and "map si_alias (q_columns q') = map si_alias (q_columns q)"
  shows "build_scope ul cat q' = Inr (from', q_joins q', r)"
proof -
  from assms(1) obtain tables r1 r2 where t: "cat_tables cat = Inr tables"
    and f: "bind_ref ul cat (first_spelling ul tables) new_resolver (q_from q) = Inr (from', r1)"
    and j: "bind_joins ul cat (first_spelling ul tables) r1 (q_joins q) = Inr (joins', r2)"
    and r: "r = r2\<lparr>r_aliases := collect_aliases ul (q_columns q)\<rparr>"
    by (auto simp: build_scope_def res_simps)
  from build_scope_parts [OF assms(1)] t
  have "resolver_ok ul cat tables (from' # map j_table joins') r" by auto
  from resolver_names [OF this] have "\<forall>ref\<in>set (from' # map j_table joins'). tr_name ref \<in> set tables"
    by blast
  with assms(2) t have v: "valid_ident (tr_name from')" "\<forall>j\<in>set joins'. valid_ident (tr_name (j_table j))"
    by (auto simp: names_valid_def list_all_iff)
  show ?thesis
    using t r bind_ref_again [OF f v(1)] bind_joins_again [OF j v(2) assms(4)]
      collect_aliases_cong [OF assms(5)]
    by (simp add: build_scope_def assms(3) lift_catalog_def)
qed

lemma bound_again:
  assumes ok: "resolver_ok ul cat tables refs r" "names_valid cat" "cat_tables cat = Inr tables"
    and b: "column_bound ul r c c' b"
  shows "col_resolves ul r al c' c'"
proof -
  from resolver_binding [OF ok(1) column_bound_scope [OF ok(1) b]] obtain ref where
    "ref \<in> set refs" and bd: "binds ul cat tables ref b" by blast
  then obtain cols where cols: "cat_columns cat (tr_name ref) = Inr cols" "b_columns b = first_spelling ul cols"
    by (auto simp: binds_def)
  have t: "tr_name ref \<in> set tables" using bd by (auto simp: binds_def dest: first_spelling_Some)
  then have vn: "valid_ident (b_name b)"
    using bd ok(2,3) valid_ident_not_Nil by (auto simp: binds_def ref_name_def names_valid_def list_all_iff)
  have fs: "first_spelling ul cols (go_lower ul (col_name c)) = Some (col_name c')"
    using b cols by (simp add: column_bound_def)
  from first_spelling_Some [OF this] have vc: "valid_ident (col_name c')"
    using ok(2) cols(1) by (auto simp: names_valid_def list_all_iff)
  have "r_scope r (go_lower ul (b_name b)) = Some b"
    using ok(1) scope_map_self [OF _ column_bound_scope [OF ok(1) b]] by (simp add: resolver_ok_def)
  moreover have "b_columns b (go_lower ul (col_name c')) = Some (col_name c')"
    using fs first_spelling_Some [OF fs] cols(2) by simp
  ultimately have "column_bound ul r c' c' b"
    using b vn valid_ident_not_Nil [OF vn] by (simp add: column_bound_def)
  then show ?thesis using vc vn valid_ident_not_Nil [OF vn] b
    by (auto simp: col_resolves_def column_bound_def)
qed

lemma col_resolves_again:
  assumes ok: "resolver_ok ul cat tables refs r" "names_valid cat" "cat_tables cat = Inr tables"
    and al: "r_aliases r = collect_aliases ul (q_columns q)" "aliases_valid q"
    and c: "col_resolves ul r al c c'"
  shows "col_resolves ul r al c' c'"
proof (cases "al \<and> col_table c = [] \<and> r_aliases r (go_lower ul (col_name c)) \<noteq> None")
  case True
  with c have a: "r_aliases r (go_lower ul (col_name c)) = Some (col_name c')" "col_table c' = []"
    by (auto simp: col_resolves_def alias_bound_def)
  from a(1) al(1) have "collect_aliases ul (q_columns q) (go_lower ul (col_name c)) = Some (col_name c')"
    by simp
  from collect_aliases_Some [OF this] have "go_lower ul (col_name c') = go_lower ul (col_name c)"
    "valid_ident (col_name c')"
    using al(2) by (auto simp: aliases_valid_def list_all_iff)
  with a True show ?thesis by (auto simp: col_resolves_def alias_bound_def)
next
  case False
  with c obtain b where "column_bound ul r c c' b" by (auto simp: col_resolves_def)
  then show ?thesis by (rule bound_again [OF ok])
qed

lemma list_all2_again: "list_all2 R xs ys \<Longrightarrow> (\<And>x y. R x y \<Longrightarrow> S y y) \<Longrightarrow> list_all2 S ys ys"
  by (induction rule: list_all2_induct) auto

lemma same_form_again: "same_form R c x \<Longrightarrow> (\<And>a b. R a b \<Longrightarrow> S b b) \<Longrightarrow> same_form S x x"
proof (induction c arbitrary: x)
  case (Comparison c op v rc)
  then show ?case by (cases rc) (auto simp: option_rel_Some1)
qed fastforce+

lemma item_res_again:
  assumes "item_res ul r x y" "\<And>a b. col_resolves ul r False a b \<Longrightarrow> col_resolves ul r False b b"
  shows "item_res ul r y y"
proof (cases "si_star x")
  case False
  with assms(1) obtain c where c: "col_resolves ul r False (si_column x) c" "y = x\<lparr>si_column := c\<rparr>"
    by (auto simp: item_res_def)
  from assms(2) [OF c(1)] False c(2) show ?thesis
    by (auto simp: item_res_def intro!: exI [of _ "si_column y"])
qed (use assms in \<open>auto simp: item_res_def\<close>)

lemma order_res_again:
  assumes "order_res ul r x y" "\<And>a b. col_resolves ul r True a b \<Longrightarrow> col_resolves ul r True b b"
  shows "order_res ul r y y"
proof -
  from assms(1) obtain c where c: "col_resolves ul r True (o_column x) c" "y = x\<lparr>o_column := c\<rparr>"
    by (auto simp: order_res_def)
  from assms(2) [OF c(1)] c(2) show ?thesis
    by (auto simp: order_res_def intro!: exI [of _ "o_column y"])
qed

lemma join_res_again:
  assumes "join_res ul r x y" "\<And>a b. col_resolves ul r False a b \<Longrightarrow> col_resolves ul r False b b"
  shows "join_res ul r y y"
proof -
  from assms(1) obtain c where c: "same_form (col_resolves ul r False) (j_on x) c" "y = x\<lparr>j_on := c\<rparr>"
    by (auto simp: join_res_def)
  have "same_form (col_resolves ul r False) c c" by (rule same_form_again [OF c(1)]) (rule assms(2))
  with c(2) show ?thesis by (auto simp: join_res_def intro!: exI [of _ "j_on y"])
qed

lemma resolve_again:
  assumes "resolve ul cat q = Inr q'" "names_valid cat" "aliases_valid q"
  shows "resolve ul cat q' = Inr q'"
proof -
  from assms(1) [unfolded resolve_Inr] obtain from' joins' r items joins wh group_by order_by where
    b: "build_scope ul cat q = Inr (from', joins', r)"
    and i: "list_all2 (item_res ul r) (q_columns q) items"
    and j: "list_all2 (join_res ul r) joins' joins"
    and w: "rel_option (same_form (col_resolves ul r False)) (q_where q) wh"
    and g: "list_all2 (col_resolves ul r True) (q_group_by q) group_by"
    and o1: "list_all2 (order_res ul r) (q_order_by q) order_by"
    and q': "q\<lparr>q_columns := items, q_from := from', q_joins := joins, q_where := wh,
        q_group_by := group_by, q_order_by := order_by\<rparr> = q'" by blast
  from build_scope_parts [OF b] obtain tables where t: "cat_tables cat = Inr tables"
    and ok: "resolver_ok ul cat tables (from' # map j_table joins') r"
    and al: "r_aliases r = collect_aliases ul (q_columns q)" by blast
  note again = col_resolves_again [OF ok assms(2) t al assms(3)]
  have "build_scope ul cat q' = Inr (from', q_joins q', r)"
    by (rule build_scope_again [OF b assms(2)])
      (use join_res_columns [OF j] item_res_columns [OF i] q' in auto)
  then have "build_scope ul cat q' = Inr (from', joins, r)" using q' by auto
  moreover have "list_all2 (item_res ul r) items items"
    by (rule list_all2_again [OF i item_res_again]) (auto dest: again)
  moreover have "list_all2 (join_res ul r) joins joins"
    by (rule list_all2_again [OF j join_res_again]) (auto dest: again)
  moreover have "rel_option (same_form (col_resolves ul r False)) wh wh"
    using w by (auto elim!: option.rel_cases intro: same_form_again [OF _ again])
  moreover have "list_all2 (col_resolves ul r True) group_by group_by"
    by (rule list_all2_again [OF g again])
  moreover have "list_all2 (order_res ul r) order_by order_by"
    by (rule list_all2_again [OF o1 order_res_again]) (auto dest: again)
  ultimately show ?thesis unfolding resolve_Inr using q'
    by (intro exI [of _ from'] exI [of _ joins] exI [of _ r] exI [of _ items] exI [of _ joins]
        exI [of _ wh] exI [of _ group_by] exI [of _ order_by]) auto
qed


section \<open>Any casing of the query\<close>

definition recase_col :: "(string \<Rightarrow> string) \<Rightarrow> column \<Rightarrow> column" where
  "recase_col f c = \<lparr>col_table = f (col_table c), col_name = f (col_name c)\<rparr>"

fun recase_cond :: "(string \<Rightarrow> string) \<Rightarrow> condition \<Rightarrow> condition" where
  "recase_cond f (Logical op l r) = Logical op (recase_cond f l) (recase_cond f r)"
| "recase_cond f (NotC c) = NotC (recase_cond f c)"
| "recase_cond f (Comparison c op v rc) = Comparison (recase_col f c) op v (map_option (recase_col f) rc)"
| "recase_cond f (In c vs) = In (recase_col f c) vs"
| "recase_cond f (Like c v) = Like (recase_col f c) v"
| "recase_cond f (IsNull c neg) = IsNull (recase_col f c) neg"
| "recase_cond f (Between c l h) = Between (recase_col f c) l h"

definition recase_ref :: "(string \<Rightarrow> string) \<Rightarrow> table_ref \<Rightarrow> table_ref" where
  "recase_ref f ref = ref\<lparr>tr_name := f (tr_name ref)\<rparr>"

definition recase_join :: "(string \<Rightarrow> string) \<Rightarrow> join \<Rightarrow> join" where
  "recase_join f j = j\<lparr>j_table := recase_ref f (j_table j), j_on := recase_cond f (j_on j)\<rparr>"

definition recase_item :: "(string \<Rightarrow> string) \<Rightarrow> select_item \<Rightarrow> select_item" where
  "recase_item f x = (if si_star x then x else x\<lparr>si_column := recase_col f (si_column x)\<rparr>)"

definition recase_query :: "(string \<Rightarrow> string) \<Rightarrow> query \<Rightarrow> query" where
  "recase_query f q = q\<lparr>
     q_columns := map (recase_item f) (q_columns q),
     q_from := recase_ref f (q_from q),
     q_joins := map (recase_join f) (q_joins q),
     q_where := map_option (recase_cond f) (q_where q),
     q_group_by := map (recase_col f) (q_group_by q),
     q_order_by := map (\<lambda>x. x\<lparr>o_column := recase_col f (o_column x)\<rparr>) (q_order_by q)\<rparr>"

definition case_only :: "(string \<Rightarrow> string) \<Rightarrow> bool" where
  "case_only f \<longleftrightarrow> (\<forall>s. to_lower (f s) = to_lower s)"

lemma case_only_facts:
  assumes "case_only f"
  shows "f s = [] \<longleftrightarrow> s = []" "valid_ident (f s) \<longleftrightarrow> valid_ident s"
    "valid_ident s \<Longrightarrow> go_lower ul (f s) = go_lower ul s"
proof -
  have l: "to_lower (f s) = to_lower s" using assms by (simp add: case_only_def)
  then show "f s = [] \<longleftrightarrow> s = []" by (metis to_lower_eq_Nil)
  show v: "valid_ident (f s) \<longleftrightarrow> valid_ident s" by (rule valid_ident_recase [OF l])
  show "valid_ident s \<Longrightarrow> go_lower ul (f s) = go_lower ul s" using v l by (simp add: go_lower_ident)
qed

lemma recase_resolves:
  assumes "case_only f"
  shows "col_resolves ul r al (recase_col f c) c' \<longleftrightarrow> col_resolves ul r al c c'"
proof (cases "valid_ident (col_name c)")
  case True
  note f = case_only_facts [OF assms, of "col_name c"] case_only_facts [OF assms, of "col_table c"]
  have cb: "column_bound ul r (recase_col f c) c' b \<longleftrightarrow> column_bound ul r c c' b" for b
    using True by (cases "valid_ident (col_table c)") (simp_all add: column_bound_def recase_col_def f)
  have "col_table (recase_col f c) = [] \<longleftrightarrow> col_table c = []" "valid_ident (col_name (recase_col f c))"
    "go_lower ul (col_name (recase_col f c)) = go_lower ul (col_name c)"
    using True by (simp_all add: recase_col_def f)
  then show ?thesis using True by (simp only: col_resolves_def alias_bound_def cb)
next
  case False
  then show ?thesis
    using case_only_facts(2) [OF assms] by (simp add: col_resolves_def recase_col_def)
qed

lemma recase_resolves_fun:
  "case_only f \<Longrightarrow> col_resolves ul r al (recase_col f c) = col_resolves ul r al c"
  by (rule ext) (rule recase_resolves)

lemma recase_join_sel [simp]:
  "j_table (recase_join f j) = recase_ref f (j_table j)" "j_type (recase_join f j) = j_type j"
  "j_on (recase_join f j) = recase_cond f (j_on j)"
  by (simp_all add: recase_join_def)

lemma recase_form: "same_form R (recase_cond f c) x \<longleftrightarrow> same_form (\<lambda>c. R (recase_col f c)) c x"
proof (induction c arbitrary: x)
  case (Comparison c op v rc)
  then show ?case by (cases rc) (auto simp: option_rel_Some1)
qed auto

lemma recase_bind:
  assumes "case_only f"
  shows "bind_ref ul cat ts r (recase_ref f ref) = Inr x \<longleftrightarrow> bind_ref ul cat ts r ref = Inr x"
  using case_only_facts [OF assms, of "tr_name ref"]
  by (auto simp: bind_ref_def recase_ref_def Let_def split: if_splits option.splits)

lemma recase_bind_joins:
  assumes "case_only f"
  shows "bind_joins ul cat ts r js = Inr (js', r') \<Longrightarrow>
    \<exists>js2. bind_joins ul cat ts r (map (recase_join f) js) = Inr (js2, r') \<and>
      map j_table js2 = map j_table js' \<and> map j_type js2 = map j_type js' \<and>
      map j_on js2 = map (recase_cond f) (map j_on js')"
proof (induction js arbitrary: r js')
  case (Cons j js)
  then obtain ref r1 js1 where 1: "bind_ref ul cat ts r (j_table j) = Inr (ref, r1)"
    "bind_joins ul cat ts r1 js = Inr (js1, r')" "js' = j\<lparr>j_table := ref\<rparr> # js1"
    by (auto simp: res_simps)
  from Cons.IH [OF 1(2)] obtain js2 where
    2: "bind_joins ul cat ts r1 (map (recase_join f) js) = Inr (js2, r')"
    "map j_table js2 = map j_table js1" "map j_type js2 = map j_type js1"
    "map j_on js2 = map (recase_cond f) (map j_on js1)" by blast
  have "bind_ref ul cat ts r (j_table (recase_join f j)) = Inr (ref, r1)"
    using 1(1) by (simp add: recase_bind [OF assms])
  with 2 1(3) show ?case by auto
qed simp

lemma join_res_cong:
  "list_all2 (join_res ul r) js' joins \<Longrightarrow> map j_table js2 = map j_table js' \<Longrightarrow>
     map j_type js2 = map j_type js' \<Longrightarrow> map j_on js2 = map (recase_cond f) (map j_on js') \<Longrightarrow>
     case_only f \<Longrightarrow> list_all2 (join_res ul r) js2 joins"
proof (induction arbitrary: js2 rule: list_all2_induct)
  case (Cons j js k ks)
  then obtain a as where a: "js2 = a # as" "j_table a = j_table j" "j_type a = j_type j"
    "j_on a = recase_cond f (j_on j)" "map j_table as = map j_table js" "map j_type as = map j_type js"
    "map j_on as = map (recase_cond f) (map j_on js)" by auto
  from Cons(1) obtain c where c: "same_form (col_resolves ul r False) (j_on j) c" "k = j\<lparr>j_on := c\<rparr>"
    by (auto simp: join_res_def)
  have "same_form (col_resolves ul r False) (j_on a) c"
    unfolding a(4) recase_form recase_resolves_fun [OF Cons.prems(4)] using c(1) .
  then have "join_res ul r a k"
    using a(2,3) c(2) by (cases a; cases j) (auto simp: join_res_def)
  with Cons.IH [OF a(5-7) Cons.prems(4)] a(1) show ?case by simp
qed simp

lemma resolve_recase:
  assumes "resolve ul cat q = Inr q'" "case_only f"
  shows "resolve ul cat (recase_query f q) = Inr q'"
proof -
  note rr = recase_resolves_fun [OF assms(2)]
  from assms(1) [unfolded resolve_Inr] obtain from' joins' r items joins wh group_by order_by where
    b: "build_scope ul cat q = Inr (from', joins', r)"
    and i: "list_all2 (item_res ul r) (q_columns q) items"
    and j: "list_all2 (join_res ul r) joins' joins"
    and w: "rel_option (same_form (col_resolves ul r False)) (q_where q) wh"
    and g: "list_all2 (col_resolves ul r True) (q_group_by q) group_by"
    and o1: "list_all2 (order_res ul r) (q_order_by q) order_by"
    and q': "q\<lparr>q_columns := items, q_from := from', q_joins := joins, q_where := wh,
        q_group_by := group_by, q_order_by := order_by\<rparr> = q'" by blast
  from b obtain tables r1 r2 where t: "cat_tables cat = Inr tables"
    and f: "bind_ref ul cat (first_spelling ul tables) new_resolver (q_from q) = Inr (from', r1)"
    and bj: "bind_joins ul cat (first_spelling ul tables) r1 (q_joins q) = Inr (joins', r2)"
    and r: "r = r2\<lparr>r_aliases := collect_aliases ul (q_columns q)\<rparr>"
    by (auto simp: build_scope_def res_simps)
  from recase_bind_joins [OF assms(2) bj] obtain js2 where js2:
    "bind_joins ul cat (first_spelling ul tables) r1 (map (recase_join f) (q_joins q)) = Inr (js2, r2)"
    "map j_table js2 = map j_table joins'" "map j_type js2 = map j_type joins'"
    "map j_on js2 = map (recase_cond f) (map j_on joins')" by blast
  have "collect_aliases ul (map (recase_item f) (q_columns q)) = collect_aliases ul (q_columns q)"
    by (rule collect_aliases_cong) (simp add: recase_item_def)
  then have "build_scope ul cat (recase_query f q) = Inr (from', js2, r)"
    using t r js2(1) recase_bind [OF assms(2), THEN iffD2, OF f]
    by (simp add: build_scope_def recase_query_def lift_catalog_def)
  moreover have "list_all2 (item_res ul r) (map (recase_item f) (q_columns q)) items"
    using i by (auto simp: list_all2_map1 item_res_def recase_item_def rr elim!: list.rel_mono_strong)
  moreover have "list_all2 (join_res ul r) js2 joins"
    by (rule join_res_cong [OF j js2(2-4) assms(2)])
  moreover have "rel_option (same_form (col_resolves ul r False)) (map_option (recase_cond f) (q_where q)) wh"
    using w by (auto simp: recase_form rr elim!: option.rel_cases)
  moreover have "list_all2 (col_resolves ul r True) (map (recase_col f) (q_group_by q)) group_by"
    using g by (simp add: list_all2_map1 rr)
  moreover have "list_all2 (order_res ul r)
      (map (\<lambda>x. x\<lparr>o_column := recase_col f (o_column x)\<rparr>) (q_order_by q)) order_by"
    using o1 by (auto simp: list_all2_map1 order_res_def rr elim!: list.rel_mono_strong)
  ultimately show ?thesis unfolding resolve_Inr
    by (intro exI [of _ from'] exI [of _ js2] exI [of _ r] exI [of _ items] exI [of _ joins]
        exI [of _ wh] exI [of _ group_by] exI [of _ order_by])
      (simp add: recase_query_def q' [symmetric])
qed

section \<open>The database catalog\<close>

lemma map_res_Inr_map: "(\<And>x. x \<in> set xs \<Longrightarrow> f x = Inr (g x)) \<Longrightarrow> map_res f xs = Inr (map g xs)"
  by (induction xs) auto

lemma db_catalog_tables_sorted:
  "cat_tables (db_catalog q eng) = Inr ts \<Longrightarrow> sorted ts"
  by (auto simp: db_catalog_def list_tables_def res_simps)

lemma db_catalog_columns_valid:
  "cat_columns (db_catalog q eng) t = Inr cols \<Longrightarrow> valid_ident t"
  by (auto simp: db_catalog_def describe_table_def res_simps split: if_splits)


section \<open>Properties\<close>

text \<open>
  C10: Resolution lets nothing through that the schema does not have: in a resolved query every
  table name is one of the catalog's, no two tables are addressed by the same name in any
  casing, every column of the select list, the joins and the filter is qualified with a table
  of the query and is one of that table's columns as the catalog spells it, and a grouping or
  ordering column is such a column or the alias of a select item.
\<close>

theorem resolve_sound:
  assumes "resolve ul cat q = Inr q'"
  shows "resolved ul cat q'"
  using assms by (rule resolve_resolved)

text \<open>
  Resolution changes names and nothing else: values, operators, aggregates, aliases, join
  types, limits and the whole shape of the query stay, and every column still has the same
  name, and the same qualifier if it had one, up to case.
\<close>

theorem resolve_keeps_rest:
  assumes "resolve ul cat q = Inr q'"
  shows "blank_query q' = blank_query q \<and>
    list_all2 (same_names ul) (strict_columns q @ loose_columns q) (strict_columns q' @ loose_columns q')"
  using resolve_blank [OF assms] resolve_names [OF assms] by blast

text \<open>
  An unqualified column that names no alias resolves exactly when one table in scope has it:
  with none the error says unknown, with two or more it says ambiguous.
\<close>

theorem resolve_bare_column:
  assumes "valid_ident (col_name col)" "col_table col = []"
    "al \<longrightarrow> r_aliases r (go_lower ul (col_name col)) = None"
  shows "resolve_col ul r col al =
    (case holders (go_lower ul (col_name col)) (r_order r) of
       [] \<Rightarrow> Inl (UnknownColumn (col_name col))
     | [(b, c)] \<Rightarrow> Inr \<lparr>col_table = b_name b, col_name = c\<rparr>
     | _ \<Rightarrow> Inl (AmbiguousColumn (col_name col)))"
  using assms by (rule resolve_col_ambiguous)

text \<open>
  Resolution is idempotent: a resolved query resolves to itself, when the schema's own names
  and the query's aliases are identifiers.
\<close>

theorem resolve_idempotent:
  assumes "resolve ul cat q = Inr q'" "names_valid cat" "aliases_valid q"
  shows "resolve ul cat q' = Inr q'"
  using assms by (rule resolve_again)

text \<open>
  C27: The casing of a query does not matter: rewriting its table names, qualifiers and columns
  by any function that changes only the case of ASCII letters gives the same resolved query,
  with the schema's own spelling. So a query in any casing addresses a case-sensitive schema.
\<close>

theorem resolve_any_casing:
  assumes "resolve ul cat q = Inr q'" "case_only f"
  shows "resolve ul cat (recase_query f q) = Inr q'"
  using assms by (rule resolve_recase)

text \<open>
  Over a database connection, every table a resolved query names is a plain identifier,
  whatever the database lists: the introspection of its columns has checked the canonical name.
\<close>

theorem db_tables_are_identifiers:
  assumes "resolve ul (db_catalog qy eng) q = Inr q'"
  shows "\<forall>ref\<in>set (query_refs q'). valid_ident (tr_name ref)"
proof -
  from resolve_relates [OF assms] obtain tables r where
    "resolver_ok ul (db_catalog qy eng) tables (query_refs q') r" by blast
  then have "list_all2 (binds ul (db_catalog qy eng) tables) (query_refs q') (r_order r)"
    by (simp add: resolver_ok_def)
  then show ?thesis
    by (induction rule: list_all2_induct) (auto simp: binds_def intro: db_catalog_columns_valid)
qed

section \<open>A sample schema\<close>

definition sample_catalog :: "unit catalog" where
  "sample_catalog =
     \<lparr>cat_tables = Inr [''Users'', ''orders''],
      cat_columns = (\<lambda>t. if t = ''Users'' then Inr [''Id'', ''Name'']
        else if t = ''orders'' then Inr [''id'', ''user_id''] else Inl ())\<rparr>"

abbreviation bare :: "string \<Rightarrow> column" where
  "bare n \<equiv> \<lparr>col_table = [], col_name = n\<rparr>"

abbreviation dotted :: "string \<Rightarrow> string \<Rightarrow> column" where
  "dotted t n \<equiv> \<lparr>col_table = t, col_name = n\<rparr>"

text \<open>\<open>SELECT name AS n FROM USERS AS u JOIN orders ON u.id = user_id ORDER BY n\<close>.\<close>

definition join_query :: query where
  "join_query = \<lparr>q_star = False,
     q_columns = [\<lparr>si_agg = [], si_star = False, si_column = bare ''name'', si_alias = ''n''\<rparr>],
     q_from = \<lparr>tr_name = ''USERS'', tr_alias = ''u''\<rparr>,
     q_joins = [\<lparr>j_type = InnerJoin, j_table = \<lparr>tr_name = ''orders'', tr_alias = []\<rparr>,
       j_on = Comparison (dotted ''u'' ''id'') ''='' zero_value (Some (bare ''user_id''))\<rparr>],
     q_where = None, q_group_by = [], q_order_by = [\<lparr>o_column = bare ''N'', o_desc = True\<rparr>],
     q_limit = Some 3, q_offset = None\<rparr>"

definition join_query_resolved :: query where
  "join_query_resolved = join_query\<lparr>
     q_columns := [\<lparr>si_agg = [], si_star = False, si_column = dotted ''u'' ''Name'', si_alias = ''n''\<rparr>],
     q_from := \<lparr>tr_name = ''Users'', tr_alias = ''u''\<rparr>,
     q_joins := [\<lparr>j_type = InnerJoin, j_table = \<lparr>tr_name = ''orders'', tr_alias = []\<rparr>,
       j_on = Comparison (dotted ''u'' ''Id'') ''='' zero_value (Some (dotted ''orders'' ''user_id''))\<rparr>],
     q_order_by := [\<lparr>o_column = bare ''n'', o_desc = True\<rparr>]\<rparr>"

lemma join_query_resolves: "resolve id sample_catalog join_query = Inr join_query_resolved"
  by code_simp

theorem resolve_sound_witness: "resolved id sample_catalog join_query_resolved"
  by (rule resolve_sound [OF join_query_resolves])

theorem resolve_keeps_rest_witness: "blank_query join_query_resolved = blank_query join_query"
  using resolve_keeps_rest [OF join_query_resolves] by (rule conjunct1)

definition sample_resolver :: resolver where
  "sample_resolver = \<lparr>r_scope = Map.empty,
     r_order = [\<lparr>b_name = ''a'', b_columns = [''id'' \<mapsto> ''Id'']\<rparr>, \<lparr>b_name = ''b'', b_columns = [''id'' \<mapsto> ''id'']\<rparr>],
     r_aliases = Map.empty\<rparr>"

theorem resolve_bare_column_witness:
  "resolve_col id sample_resolver (bare ''ID'') True = (Inl (AmbiguousColumn ''ID'') :: unit resolve_error + column)"
proof -
  have "resolve_col id sample_resolver (bare ''ID'') True =
    (case holders (go_lower id (col_name (bare ''ID''))) (r_order sample_resolver) of
       [] \<Rightarrow> Inl (UnknownColumn (col_name (bare ''ID'')))
     | [(b, c)] \<Rightarrow> Inr \<lparr>col_table = b_name b, col_name = c\<rparr>
     | _ \<Rightarrow> (Inl (AmbiguousColumn (col_name (bare ''ID''))) :: unit resolve_error + column))"
    by (rule resolve_bare_column) code_simp+
  moreover have "holders (go_lower id (col_name (bare ''ID''))) (r_order sample_resolver)
    = [(hd (r_order sample_resolver), ''Id''), (last (r_order sample_resolver), ''id'')]"
  proof -
    have "go_lower id (col_name (bare ''ID'')) = ''id''" by code_simp
    then show ?thesis by (simp only:) (simp add: sample_resolver_def)
  qed
  ultimately show ?thesis by simp
qed

lemma sample_names_valid: "names_valid sample_catalog"
proof -
  have "list_all valid_ident [''Users'', ''orders'']" "list_all valid_ident [''Id'', ''Name'']"
    "list_all valid_ident [''id'', ''user_id'']" by code_simp+
  then show ?thesis by (auto simp: names_valid_def sample_catalog_def split: if_splits)
qed

theorem resolve_idempotent_witness:
  "resolve id sample_catalog join_query_resolved = Inr join_query_resolved"
  by (rule resolve_idempotent [OF join_query_resolves sample_names_valid]) code_simp

lemma to_lower_case_only: "case_only to_lower"
  by (simp add: case_only_def)

theorem resolve_any_casing_witness:
  "resolve id sample_catalog (recase_query to_lower join_query) = Inr join_query_resolved"
  by (rule resolve_any_casing [OF join_query_resolves to_lower_case_only])

text \<open>A connection whose rows are lists of strings.\<close>

definition sample_querier :: "(unit, string list) querier" where
  "sample_querier =
     \<lparr>qy_query = (\<lambda>sql args. if args = [] then Inr ([[''t'']], None)
        else Inr ([[''a'', ''int'', ''YES'']], None)),
      qy_scan_name = (\<lambda>r. Inr (hd r)),
      qy_scan_text = (\<lambda>r. case r of [x, y, z] \<Rightarrow> Inr (x, y, z) | _ \<Rightarrow> Inl ()),
      qy_scan_int = (\<lambda>r. Inl ())\<rparr>"

definition t_query :: query where
  "t_query = \<lparr>q_star = True, q_columns = [], q_from = \<lparr>tr_name = ''T'', tr_alias = []\<rparr>, q_joins = [],
     q_where = None, q_group_by = [], q_order_by = [], q_limit = None, q_offset = None\<rparr>"

theorem db_tables_are_identifiers_witness:
  "list_all (\<lambda>ref. valid_ident (tr_name ref)) (query_refs (t_query\<lparr>q_from := \<lparr>tr_name = ''t'', tr_alias = []\<rparr>\<rparr>))"
proof -
  have "resolve id (db_catalog sample_querier EnginePostgres) t_query =
      Inr (t_query\<lparr>q_from := \<lparr>tr_name = ''t'', tr_alias = []\<rparr>\<rparr>)" by code_simp
  from db_tables_are_identifiers [OF this] show ?thesis by (simp only: list_all_iff)
qed

text \<open>
  The check that guards table names does not reach the canonical column names: the comment on
  \<open>identRe\<close> says resolution re-checks identifiers before they are handed to the query builder,
  but what it re-checks is the client's spelling. Go lower-cases the Kelvin sign (bytes E2 84 AA)
  to \<open>k\<close>, so a column of that name is handed on when the client writes \<open>k\<close>.
\<close>

definition kelvin :: string where
  "kelvin = [CHR 0xE2, CHR 0x84, CHR 0xAA]"

definition kelvin_catalog :: "unit catalog" where
  "kelvin_catalog = \<lparr>cat_tables = Inr [''t''], cat_columns = (\<lambda>t. Inr [kelvin])\<rparr>"

definition k_query :: query where
  "k_query = t_query\<lparr>q_star := False,
     q_columns := [\<lparr>si_agg = [], si_star = False, si_column = bare ''k'', si_alias = []\<rparr>]\<rparr>"

text \<open>
  The canonical spelling of a column is handed on without the identifier check: with a
  lower-casing that maps the Kelvin sign to \<open>k\<close>, as Go's does, the column \<open>k\<close> resolves to a
  name that is no identifier.
\<close>

theorem canonical_column_unchecked:
  "case resolve (\<lambda>s. if s = kelvin then ''k'' else s) kelvin_catalog k_query of
     Inl _ \<Rightarrow> False
   | Inr q \<Rightarrow> map si_column (q_columns q) = [dotted ''t'' kelvin] \<and> \<not> valid_ident kelvin"
  by code_simp


end
