(* ===== verification/Sqlq_Parser.thy ===== *)
theory Sqlq_Parser
  imports Sqlq_Lexer
begin

text \<open>
  The recursive-descent parser (\<open>internal/sqlq/parser.go\<close>).

  The Go methods mutate \<open>p.pos\<close>; here each takes the parser state and returns the state after
  it beside its result. \<open>p.toks\<close> is never written. A method that fails returns only its error:
  every Go caller propagates it at once, so the state at that point is never looked at again.

  The loops and the recursion of the conditions carry a fuel argument, because on a token
  slice that does not end in \<open>tokEOF\<close> the Go code would not return: \<open>next\<close> does not move past
  the last token. \<open>Sqlq_Grammar\<close> proves that on every stream the lexer returns, the fuel used
  here (from the number of tokens) is never used up. \<open>pf\<close> is \<open>strconv.ParseFloat\<close>.
\<close>

record parser =
  p_toks :: "token list"
  p_pos :: nat

definition agg_funcs :: "string list" where
  "agg_funcs = [''COUNT'', ''SUM'', ''AVG'', ''MIN'', ''MAX'']"

text \<open>Punctuation between single quotes, as the error messages name it.\<close>

definition quoted :: "string \<Rightarrow> string" where
  "quoted s = CHR 0x27 # s @ [CHR 0x27]"

definition cur :: "parser \<Rightarrow> token" where
  "cur p = p_toks p ! p_pos p"

definition next_tok :: "parser \<Rightarrow> token \<times> parser" where
  "next_tok p =
     (cur p, if p_pos p < length (p_toks p) - 1 then p\<lparr>p_pos := p_pos p + 1\<rparr> else p)"

abbreviation skip :: "parser \<Rightarrow> parser" where
  "skip p \<equiv> snd (next_tok p)"

definition is_keyword :: "string \<Rightarrow> parser \<Rightarrow> bool" where
  "is_keyword kw p \<longleftrightarrow> t_kind (cur p) = TokKeyword \<and> t_text (cur p) = kw"

definition accept_keyword :: "string \<Rightarrow> parser \<Rightarrow> bool \<times> parser" where
  "accept_keyword kw p = (if is_keyword kw p then (True, skip p) else (False, p))"

definition expect_keyword :: "string \<Rightarrow> parser \<Rightarrow> parse_error + parser" where
  "expect_keyword kw p =
     (let (ok, p') = accept_keyword kw p
      in if \<not> ok then Inl (Expected kw (cur p')) else Inr p')"

definition expect :: "tokenKind \<Rightarrow> string \<Rightarrow> parser \<Rightarrow> parse_error + token \<times> parser" where
  "expect kind what p =
     (if t_kind (cur p) \<noteq> kind then Inl (Expected what (cur p)) else Inr (next_tok p))"

text \<open>
  The loop all four comma-separated lists share: an item, and another one as long as a comma
  follows.
\<close>

fun comma_list ::
  "(parser \<Rightarrow> parse_error + 'a \<times> parser) \<Rightarrow> nat \<Rightarrow> parser \<Rightarrow> parse_error + 'a list \<times> parser" where
  "comma_list item 0 p = Inl OutOfFuel"
| "comma_list item (Suc n) p =
     bind_res (item p) (\<lambda>(x, p).
       if t_kind (cur p) \<noteq> TokComma then Inr ([x], p)
       else bind_res (comma_list item n (skip p)) (\<lambda>(xs, p). Inr (x # xs, p)))"

definition parse_column :: "parser \<Rightarrow> parse_error + column \<times> parser" where
  "parse_column p =
     bind_res (expect TokIdent ''a column name'' p) (\<lambda>(first, p).
       if t_kind (cur p) = TokDot then
         bind_res (expect TokIdent (''a column name after '' @ quoted ''.'') (skip p)) (\<lambda>(second, p).
           Inr (\<lparr>col_table = t_text first, col_name = t_text second\<rparr>, p))
       else Inr (\<lparr>col_table = [], col_name = t_text first\<rparr>, p))"

definition parse_column_list :: "parser \<Rightarrow> parse_error + column list \<times> parser" where
  "parse_column_list p = comma_list parse_column (length (p_toks p)) p"

text \<open>The optional \<open>AS alias\<close> of a select item.\<close>

definition parse_as_alias :: "parser \<Rightarrow> parse_error + string \<times> parser" where
  "parse_as_alias p =
     (let (ok, p) = accept_keyword ''AS'' p
      in if ok then
           bind_res (expect TokIdent ''an alias identifier'' p) (\<lambda>(alias, p). Inr (t_text alias, p))
         else Inr ([], p))"

definition parse_agg_arg :: "string \<Rightarrow> parser \<Rightarrow> parse_error + (bool \<times> column) \<times> parser" where
  "parse_agg_arg agg p =
     (if t_kind (cur p) = TokStar then
        if agg \<noteq> ''COUNT'' then Inl (AggStarNotAllowed agg)
        else Inr ((True, zero_column), skip p)
      else bind_res (parse_column p) (\<lambda>(col, p). Inr ((False, col), p)))"

definition parse_select_item :: "parser \<Rightarrow> parse_error + select_item \<times> parser" where
  "parse_select_item p =
     bind_res
       (if t_kind (cur p) = TokKeyword \<and> t_text (cur p) \<in> set agg_funcs then
          (let (t, p) = next_tok p; agg = t_text t
           in bind_res (expect TokLParen (quoted ''('') p) (\<lambda>(_, p).
              bind_res (parse_agg_arg agg p) (\<lambda>((star, col), p).
              bind_res (expect TokRParen (quoted '')'') p) (\<lambda>(_, p).
                Inr (\<lparr>si_agg = agg, si_star = star, si_column = col, si_alias = []\<rparr>, p)))))
        else
          bind_res (parse_column p) (\<lambda>(col, p).
            Inr (\<lparr>si_agg = [], si_star = False, si_column = col, si_alias = []\<rparr>, p)))
       (\<lambda>(item, p).
          bind_res (parse_as_alias p) (\<lambda>(alias, p). Inr (item\<lparr>si_alias := alias\<rparr>, p)))"

definition parse_select_list :: "parser \<Rightarrow> parse_error + select_item list \<times> parser" where
  "parse_select_list p = comma_list parse_select_item (length (p_toks p)) p"

definition parse_order_item :: "parser \<Rightarrow> parse_error + order_item \<times> parser" where
  "parse_order_item p =
     bind_res (parse_column p) (\<lambda>(col, p).
       let (desc, p1) = accept_keyword ''DESC'' p
       in if desc then Inr (\<lparr>o_column = col, o_desc = True\<rparr>, p1)
          else let (asc, p2) = accept_keyword ''ASC'' p
               in Inr (\<lparr>o_column = col, o_desc = False\<rparr>, p2))"

definition parse_order_list :: "parser \<Rightarrow> parse_error + order_item list \<times> parser" where
  "parse_order_list p = comma_list parse_order_item (length (p_toks p)) p"

definition parse_table_ref :: "parser \<Rightarrow> parse_error + table_ref \<times> parser" where
  "parse_table_ref p =
     bind_res (expect TokIdent ''a table name'' p) (\<lambda>(name, p).
       let (ok, p1) = accept_keyword ''AS'' p
       in if ok then
            bind_res (expect TokIdent ''an alias identifier'' p1) (\<lambda>(alias, p).
              Inr (\<lparr>tr_name = t_text name, tr_alias = t_text alias\<rparr>, p))
          else if t_kind (cur p) = TokIdent then
            (let (alias, p2) = next_tok p
             in Inr (\<lparr>tr_name = t_text name, tr_alias = t_text alias\<rparr>, p2))
          else Inr (\<lparr>tr_name = t_text name, tr_alias = []\<rparr>, p))"

definition parse_value :: "(string \<Rightarrow> 64 word option) \<Rightarrow> parser \<Rightarrow> parse_error + sql_value \<times> parser" where
  "parse_value pf p =
     (let t = cur p
      in if t_kind t = TokString then
           Inr (\<lparr>v_kind = StringVal, v_go = GoString (t_text t)\<rparr>, skip p)
         else if t_kind t = TokNumber then
           bind_res (parse_number pf (t_text t)) (\<lambda>g.
             Inr (\<lparr>v_kind = NumberVal, v_go = g\<rparr>, skip p))
         else if is_keyword ''TRUE'' p then
           Inr (\<lparr>v_kind = BoolVal, v_go = GoBool True\<rparr>, skip p)
         else if is_keyword ''FALSE'' p then
           Inr (\<lparr>v_kind = BoolVal, v_go = GoBool False\<rparr>, skip p)
         else if is_keyword ''NULL'' p then
           Inr (\<lparr>v_kind = NullVal, v_go = GoNil\<rparr>, skip p)
         else Inl (ExpectedValue t))"

definition parse_non_neg_int :: "string \<Rightarrow> parser \<Rightarrow> parse_error + int \<times> parser" where
  "parse_non_neg_int clause p =
     (let t = cur p
      in if t_kind t \<noteq> TokNumber then Inl (RequiresInteger clause t)
         else case parse_int64 (t_text t) of
                None \<Rightarrow> Inl (RequiresNonNegInt clause (t_text t))
              | Some v \<Rightarrow> if v < 0 then Inl (RequiresNonNegInt clause (t_text t))
                          else Inr (v, skip p))"

text \<open>\<open>parsePredicate\<close>, past the column it starts with.\<close>

definition parse_comparison ::
  "(string \<Rightarrow> 64 word option) \<Rightarrow> column \<Rightarrow> parser \<Rightarrow> parse_error + condition \<times> parser" where
  "parse_comparison pf col p =
     (let (t, p) = next_tok p; op = t_text t
      in if t_kind (cur p) = TokIdent then
           bind_res (parse_column p) (\<lambda>(right, p).
             Inr (Comparison col op zero_value (Some right), p))
         else
           bind_res (parse_value pf p) (\<lambda>(val, p). Inr (Comparison col op val None, p)))"

definition parse_in ::
  "(string \<Rightarrow> 64 word option) \<Rightarrow> column \<Rightarrow> parser \<Rightarrow> parse_error + condition \<times> parser" where
  "parse_in pf col p =
     bind_res (expect TokLParen (quoted ''('') p) (\<lambda>(_, p).
     bind_res (comma_list (parse_value pf) (length (p_toks p)) p) (\<lambda>(vals, p).
     bind_res (expect TokRParen (quoted '')'') p) (\<lambda>(_, p).
       Inr (In col vals, p))))"

definition parse_like ::
  "(string \<Rightarrow> 64 word option) \<Rightarrow> column \<Rightarrow> parser \<Rightarrow> parse_error + condition \<times> parser" where
  "parse_like pf col p =
     bind_res (parse_value pf p) (\<lambda>(v, p).
       if v_kind v \<noteq> StringVal then Inl LikeRequiresString else Inr (Like col v, p))"

definition parse_is :: "column \<Rightarrow> parser \<Rightarrow> parse_error + condition \<times> parser" where
  "parse_is col p =
     (let (negate, p) = accept_keyword ''NOT'' p
      in bind_res (expect_keyword ''NULL'' p) (\<lambda>p. Inr (IsNull col negate, p)))"

definition parse_between ::
  "(string \<Rightarrow> 64 word option) \<Rightarrow> column \<Rightarrow> parser \<Rightarrow> parse_error + condition \<times> parser" where
  "parse_between pf col p =
     bind_res (parse_value pf p) (\<lambda>(low, p).
     bind_res (expect_keyword ''AND'' p) (\<lambda>p.
     bind_res (parse_value pf p) (\<lambda>(high, p).
       Inr (Between col low high, p))))"

definition parse_predicate ::
  "(string \<Rightarrow> 64 word option) \<Rightarrow> parser \<Rightarrow> parse_error + condition \<times> parser" where
  "parse_predicate pf p =
     bind_res (parse_column p) (\<lambda>(col, p).
       if t_kind (cur p) = TokOp then parse_comparison pf col p
       else if is_keyword ''IN'' p then parse_in pf col (skip p)
       else if is_keyword ''LIKE'' p then parse_like pf col (skip p)
       else if is_keyword ''IS'' p then parse_is col (skip p)
       else if is_keyword ''BETWEEN'' p then parse_between pf col (skip p)
       else Inl (ExpectedPredicate (cur p)))"

text \<open>
  The mutually recursive condition productions. \<open>or_loop\<close> and \<open>and_loop\<close> are the \<open>for\<close> loops
  of \<open>parseCondition\<close> and \<open>parseAndTerm\<close>.
\<close>

fun cond_f :: "(string \<Rightarrow> 64 word option) \<Rightarrow> nat \<Rightarrow> parser \<Rightarrow> parse_error + condition \<times> parser"
  and or_loop :: "(string \<Rightarrow> 64 word option) \<Rightarrow> nat \<Rightarrow> condition \<Rightarrow> parser \<Rightarrow> parse_error + condition \<times> parser"
  and and_term_f :: "(string \<Rightarrow> 64 word option) \<Rightarrow> nat \<Rightarrow> parser \<Rightarrow> parse_error + condition \<times> parser"
  and and_loop :: "(string \<Rightarrow> 64 word option) \<Rightarrow> nat \<Rightarrow> condition \<Rightarrow> parser \<Rightarrow> parse_error + condition \<times> parser"
  and not_factor_f :: "(string \<Rightarrow> 64 word option) \<Rightarrow> nat \<Rightarrow> parser \<Rightarrow> parse_error + condition \<times> parser"
  and factor_f :: "(string \<Rightarrow> 64 word option) \<Rightarrow> nat \<Rightarrow> parser \<Rightarrow> parse_error + condition \<times> parser"
where
  "cond_f pf 0 p = Inl OutOfFuel"
| "cond_f pf (Suc n) p =
     bind_res (and_term_f pf n p) (\<lambda>(left, p). or_loop pf n left p)"
| "or_loop pf 0 left p = Inl OutOfFuel"
| "or_loop pf (Suc n) left p =
     (let (ok, p1) = accept_keyword ''OR'' p
      in if ok then
           bind_res (and_term_f pf n p1) (\<lambda>(right, p2). or_loop pf n (Logical OpOr left right) p2)
         else Inr (left, p))"
| "and_term_f pf 0 p = Inl OutOfFuel"
| "and_term_f pf (Suc n) p =
     bind_res (not_factor_f pf n p) (\<lambda>(left, p). and_loop pf n left p)"
| "and_loop pf 0 left p = Inl OutOfFuel"
| "and_loop pf (Suc n) left p =
     (let (ok, p1) = accept_keyword ''AND'' p
      in if ok then
           bind_res (not_factor_f pf n p1) (\<lambda>(right, p2). and_loop pf n (Logical OpAnd left right) p2)
         else Inr (left, p))"
| "not_factor_f pf 0 p = Inl OutOfFuel"
| "not_factor_f pf (Suc n) p =
     (let (ok, p1) = accept_keyword ''NOT'' p
      in if ok then bind_res (factor_f pf n p1) (\<lambda>(inner, p2). Inr (NotC inner, p2))
         else factor_f pf n p)"
| "factor_f pf 0 p = Inl OutOfFuel"
| "factor_f pf (Suc n) p =
     (if t_kind (cur p) = TokLParen then
        bind_res (cond_f pf n (skip p)) (\<lambda>(cond, p).
        bind_res (expect TokRParen (quoted '')'') p) (\<lambda>(_, p). Inr (cond, p)))
      else parse_predicate pf p)"

definition parse_condition ::
  "(string \<Rightarrow> 64 word option) \<Rightarrow> parser \<Rightarrow> parse_error + condition \<times> parser" where
  "parse_condition pf p = cond_f pf (5 * length (p_toks p) + 4) p"

definition at_join_start :: "parser \<Rightarrow> bool" where
  "at_join_start p \<longleftrightarrow>
     is_keyword ''JOIN'' p \<or> is_keyword ''INNER'' p \<or> is_keyword ''LEFT'' p \<or> is_keyword ''RIGHT'' p"

text \<open>The \<open>switch\<close> of \<open>parseJoin\<close>: the join words and the type they give.\<close>

definition parse_join_type :: "parser \<Rightarrow> parse_error + join_type \<times> parser" where
  "parse_join_type p =
     (if is_keyword ''INNER'' p then
        bind_res (expect_keyword ''JOIN'' (skip p)) (\<lambda>p. Inr (InnerJoin, p))
      else if is_keyword ''LEFT'' p then
        bind_res (expect_keyword ''JOIN'' (snd (accept_keyword ''OUTER'' (skip p))))
          (\<lambda>p. Inr (LeftJoin, p))
      else if is_keyword ''RIGHT'' p then
        bind_res (expect_keyword ''JOIN'' (snd (accept_keyword ''OUTER'' (skip p))))
          (\<lambda>p. Inr (RightJoin, p))
      else bind_res (expect_keyword ''JOIN'' p) (\<lambda>p. Inr (InnerJoin, p)))"

definition parse_join ::
  "(string \<Rightarrow> 64 word option) \<Rightarrow> parser \<Rightarrow> parse_error + join \<times> parser" where
  "parse_join pf p =
     bind_res (parse_join_type p) (\<lambda>(jt, p).
     bind_res (parse_table_ref p) (\<lambda>(ref, p).
     bind_res (expect_keyword ''ON'' p) (\<lambda>p.
     bind_res (parse_condition pf p) (\<lambda>(cond, p).
       Inr (\<lparr>j_type = jt, j_table = ref, j_on = cond\<rparr>, p)))))"

text \<open>The \<open>for p.atJoinStart()\<close> loop of \<open>parseQuery\<close>.\<close>

fun join_loop ::
  "(string \<Rightarrow> 64 word option) \<Rightarrow> nat \<Rightarrow> parser \<Rightarrow> parse_error + join list \<times> parser" where
  "join_loop pf 0 p = Inl OutOfFuel"
| "join_loop pf (Suc n) p =
     (if at_join_start p then
        bind_res (parse_join pf p) (\<lambda>(j, p).
        bind_res (join_loop pf n p) (\<lambda>(js, p). Inr (j # js, p)))
      else Inr ([], p))"

text \<open>The clauses of \<open>parseQuery\<close>, in its order.\<close>

definition parse_columns_clause :: "parser \<Rightarrow> parse_error + (bool \<times> select_item list) \<times> parser" where
  "parse_columns_clause p =
     (if t_kind (cur p) = TokStar then Inr ((True, []), skip p)
      else bind_res (parse_select_list p) (\<lambda>(items, p). Inr ((False, items), p)))"

definition parse_where_clause ::
  "(string \<Rightarrow> 64 word option) \<Rightarrow> parser \<Rightarrow> parse_error + condition option \<times> parser" where
  "parse_where_clause pf p =
     (let (ok, p) = accept_keyword ''WHERE'' p
      in if ok then bind_res (parse_condition pf p) (\<lambda>(c, p). Inr (Some c, p))
         else Inr (None, p))"

definition parse_group_clause :: "parser \<Rightarrow> parse_error + column list \<times> parser" where
  "parse_group_clause p =
     (let (ok, p) = accept_keyword ''GROUP'' p
      in if ok then bind_res (expect_keyword ''BY'' p) parse_column_list else Inr ([], p))"

definition parse_order_clause :: "parser \<Rightarrow> parse_error + order_item list \<times> parser" where
  "parse_order_clause p =
     (let (ok, p) = accept_keyword ''ORDER'' p
      in if ok then bind_res (expect_keyword ''BY'' p) parse_order_list else Inr ([], p))"

definition parse_limit_clause :: "parser \<Rightarrow> parse_error + (int option \<times> int option) \<times> parser" where
  "parse_limit_clause p =
     (let (ok, p) = accept_keyword ''LIMIT'' p
      in if ok then
           bind_res (parse_non_neg_int ''LIMIT'' p) (\<lambda>(limit, p).
             let (ok2, p) = accept_keyword ''OFFSET'' p
             in if ok2 then
                  bind_res (parse_non_neg_int ''OFFSET'' p) (\<lambda>(offset, p).
                    Inr ((Some limit, Some offset), p))
                else Inr ((Some limit, None), p))
         else Inr ((None, None), p))"

definition parse_query ::
  "(string \<Rightarrow> 64 word option) \<Rightarrow> parser \<Rightarrow> parse_error + query \<times> parser" where
  "parse_query pf p =
     bind_res (expect_keyword ''SELECT'' p) (\<lambda>p.
     bind_res (parse_columns_clause p) (\<lambda>((star, items), p).
     bind_res (expect_keyword ''FROM'' p) (\<lambda>p.
     bind_res (parse_table_ref p) (\<lambda>(from_ref, p).
     bind_res (join_loop pf (length (p_toks p)) p) (\<lambda>(joins, p).
     bind_res (parse_where_clause pf p) (\<lambda>(wh, p).
     bind_res (parse_group_clause p) (\<lambda>(group_by, p).
     bind_res (parse_order_clause p) (\<lambda>(order_by, p).
     bind_res (parse_limit_clause p) (\<lambda>((limit, offset), p).
       Inr (\<lparr>q_star = star, q_columns = items, q_from = from_ref, q_joins = joins,
              q_where = wh, q_group_by = group_by, q_order_by = order_by,
              q_limit = limit, q_offset = offset\<rparr>, p))))))))))"

text \<open>\<open>Parse\<close>: the token stream must be used up.\<close>

definition parse_tokens :: "(string \<Rightarrow> 64 word option) \<Rightarrow> token list \<Rightarrow> parse_error + query" where
  "parse_tokens pf toks =
     bind_res (parse_query pf \<lparr>p_toks = toks, p_pos = 0\<rparr>) (\<lambda>(q, p).
       if t_kind (cur p) \<noteq> TokEOF then Inl (UnexpectedAfterQuery (cur p)) else Inr q)"

definition parse :: "(string \<Rightarrow> 64 word option) \<Rightarrow> string \<Rightarrow> parse_error + query" where
  "parse pf src = bind_res (lex src) (parse_tokens pf)"

section \<open>Tokens in error messages\<close>

text \<open>How an error shows the token it carries; \<open>quote\<close> is the verb \<open>%q\<close>. The text of a string literal,
  which is data of the client, is not shown.\<close>

definition describe :: "(string \<Rightarrow> string) \<Rightarrow> token \<Rightarrow> string" where
  "describe quote t =
     (case t_kind t of
        TokEOF \<Rightarrow> ''end of input''
      | TokIdent \<Rightarrow> ''identifier '' @ quote (t_text t)
      | TokKeyword \<Rightarrow> t_text t
      | TokString \<Rightarrow> ''string literal''
      | TokNumber \<Rightarrow> ''number '' @ quote (t_text t)
      | _ \<Rightarrow> quote (t_text t))"

lemma describe_hides_literals:
  "t_kind t = TokString \<Longrightarrow> t_kind t' = TokString \<Longrightarrow> describe quote t = describe quote t'"
  by (simp add: describe_def)

end
