(* ===== verification/Sqlq_Grammar.thy ===== *)
theory Sqlq_Grammar
  imports Sqlq_Parser
begin

text \<open>
  The grammar of the query language and the proof that the parser decides it.

  The grammar is the one \<open>sqlTool.Help\<close> in \<open>internal/tools/tool_sql.go\<close> documents but for two places, where the
  text there does not say what the program means to accept: \<open>AGG( * )\<close> is for \<open>COUNT\<close> alone, and a table's alias may
  follow \<open>AS\<close> (lemmas \<open>star_argument_counts\<close>, \<open>sum_star_rejected\<close> and \<open>table_alias_after_as\<close>). It is written as
  derivation relations between a word of symbols (a token without its position) and the
  syntax tree it denotes. Each parser method is shown to be sound (what it consumes derives
  its result), complete (a word that derives a tree, followed by a symbol that cannot extend
  it, is parsed to that tree) and total (it never runs out of fuel on a stream of the lexer).
  These laws are the locale \<open>production\<close>; the comma-separated lists are treated once in it.
\<close>

type_synonym sym = "tokenKind \<times> string"

definition sym_of :: "token \<Rightarrow> sym" where
  "sym_of t = (t_kind t, t_text t)"

abbreviation kw :: "string \<Rightarrow> sym" where
  "kw s \<equiv> (TokKeyword, s)"

section \<open>Parser states on a lexed stream\<close>

definition pok :: "parser \<Rightarrow> bool" where
  "pok p \<longleftrightarrow> stream_ok (p_toks p) \<and> p_pos p < length (p_toks p)"

text \<open>The symbols from the current token on.\<close>

definition view :: "parser \<Rightarrow> sym list" where
  "view p = map sym_of (drop (p_pos p) (p_toks p))"

text \<open>\<open>p'\<close> is \<open>p\<close> after consuming the word \<open>w\<close>.\<close>

definition steps_to :: "parser \<Rightarrow> sym list \<Rightarrow> parser \<Rightarrow> bool" where
  "steps_to p w p' \<longleftrightarrow> pok p \<and> pok p' \<and> p_toks p' = p_toks p \<and> view p = w @ view p'"

lemma steps_to_refl [simp]: "pok p \<Longrightarrow> steps_to p [] p"
  by (simp add: steps_to_def)

lemma steps_to_trans [trans]: "steps_to p w q \<Longrightarrow> steps_to q u r \<Longrightarrow> steps_to p (w @ u) r"
  by (simp add: steps_to_def)

lemma steps_to_pok: "steps_to p w q \<Longrightarrow> pok q"
  by (simp add: steps_to_def)

lemma steps_to_view: "steps_to p w q \<Longrightarrow> view p = w @ v \<Longrightarrow> view q = v"
  by (simp add: steps_to_def)

lemma steps_to_toks: "steps_to p w q \<Longrightarrow> p_toks q = p_toks p"
  by (simp add: steps_to_def)

lemma steps_to_length: "steps_to p w q \<Longrightarrow> length (view p) = length w + length (view q)"
  by (simp add: steps_to_def)

lemma view_not_Nil [simp]: "pok p \<Longrightarrow> view p \<noteq> []"
  by (auto simp: view_def pok_def)

lemma view_cur: "pok p \<Longrightarrow> hd (view p) = sym_of (cur p)"
  by (auto simp: view_def pok_def cur_def hd_map hd_drop_conv_nth)

lemma view_Cons: "pok p \<Longrightarrow> view p = s # v \<Longrightarrow> s = sym_of (cur p)"
  using view_cur [of p] by simp

lemma cur_ok: "pok p \<Longrightarrow> token_ok (cur p)"
  by (auto simp: pok_def stream_ok_def cur_def list_all_length)

lemma cur_not_eof:
  assumes "pok p" "t_kind (cur p) \<noteq> TokEOF"
  shows "p_pos p < length (p_toks p) - 1"
proof (rule ccontr)
  assume "\<not> ?thesis"
  with assms(1) have "p_pos p = length (p_toks p) - 1" by (auto simp: pok_def)
  with assms show False
    by (auto simp: pok_def stream_ok_def cur_def last_conv_nth)
qed

lemma skip_steps:
  assumes "pok p" "t_kind (cur p) \<noteq> TokEOF"
  shows "steps_to p [sym_of (cur p)] (skip p)"
proof -
  from cur_not_eof [OF assms] have lt: "p_pos p < length (p_toks p) - 1" .
  then have "skip p = p\<lparr>p_pos := p_pos p + 1\<rparr>" by (simp add: next_tok_def)
  with lt assms(1) show ?thesis
    by (auto simp: steps_to_def pok_def view_def cur_def Cons_nth_drop_Suc [symmetric])
qed

lemma next_tok_case [simp]: "(case next_tok p of (t, q) \<Rightarrow> f t q) = f (cur p) (skip p)"
  by (simp add: next_tok_def)

lemma view_length_le: "length (view p) \<le> length (p_toks p)"
  by (simp add: view_def)

section \<open>The primitives of the parser\<close>

lemma expect_sound:
  assumes "expect k what p = Inr (t, p')" "pok p" "k \<noteq> TokEOF"
  shows "t = cur p \<and> t_kind t = k \<and> token_text_ok k (t_text t) \<and> steps_to p [(k, t_text t)] p'"
proof -
  from assms(1) have k: "t_kind (cur p) = k" and n: "next_tok p = (t, p')"
    by (auto simp: expect_def split: if_splits)
  from n have "t = cur p" "p' = skip p" by (auto simp: next_tok_def split: if_splits)
  with k assms(2,3) show ?thesis
    using skip_steps [of p] cur_ok [of p] by (auto simp: sym_of_def)
qed

lemma expect_steps:
  "expect k what p = Inr (t, p') \<Longrightarrow> pok p \<Longrightarrow> k \<noteq> TokEOF \<Longrightarrow> steps_to p [(k, t_text t)] p'"
  using expect_sound by blast

lemma expect_complete:
  assumes "pok p" "view p = (k, s) # v" "k \<noteq> TokEOF"
  shows "\<exists>t p'. expect k what p = Inr (t, p') \<and> t_text t = s \<and> steps_to p [(k, s)] p'"
proof -
  have c: "sym_of (cur p) = (k, s)" using view_Cons [OF assms(1,2)] by simp
  then have "expect k what p = Inr (cur p, skip p)"
    by (auto simp: expect_def sym_of_def next_tok_def)
  moreover have "steps_to p [(k, s)] (skip p)"
    using skip_steps [OF assms(1)] assms(3) c by (auto simp: sym_of_def)
  ultimately show ?thesis using c by (auto simp: sym_of_def)
qed

lemma is_keyword_view: "pok p \<Longrightarrow> is_keyword s p \<longleftrightarrow> hd (view p) = kw s"
  by (auto simp: is_keyword_def view_cur sym_of_def)

lemma keyword_skip: "pok p \<Longrightarrow> is_keyword s p \<Longrightarrow> steps_to p [kw s] (skip p)"
  using skip_steps [of p] by (auto simp: is_keyword_def sym_of_def)

lemma accept_keyword_True:
  "accept_keyword s p = (True, p') \<Longrightarrow> pok p \<Longrightarrow> steps_to p [kw s] p'"
  by (auto simp: accept_keyword_def keyword_skip split: if_splits)

lemma accept_keyword_False:
  "accept_keyword s p = (False, p') \<Longrightarrow> p' = p"
  by (auto simp: accept_keyword_def split: if_splits)

lemma accept_keyword_complete:
  assumes "pok p" "view p = kw s # v"
  shows "\<exists>p'. accept_keyword s p = (True, p') \<and> steps_to p [kw s] p'"
  using assms by (auto simp: accept_keyword_def is_keyword_view keyword_skip)

lemma accept_keyword_other:
  "pok p \<Longrightarrow> hd (view p) \<noteq> kw s \<Longrightarrow> accept_keyword s p = (False, p)"
  by (simp add: accept_keyword_def is_keyword_view)

lemma expect_keyword_sound:
  "expect_keyword s p = Inr p' \<Longrightarrow> pok p \<Longrightarrow> steps_to p [kw s] p'"
  by (auto simp: expect_keyword_def split: prod.splits if_splits dest: accept_keyword_True)

lemma expect_keyword_complete:
  "pok p \<Longrightarrow> view p = kw s # v \<Longrightarrow> \<exists>p'. expect_keyword s p = Inr p' \<and> steps_to p [kw s] p'"
  using accept_keyword_complete [of p s v] by (auto simp: expect_keyword_def)

lemma expect_total: "expect k what p \<noteq> Inl OutOfFuel"
  by (simp add: expect_def)

lemma expect_keyword_total: "expect_keyword s p \<noteq> Inl OutOfFuel"
  by (simp add: expect_keyword_def split: prod.splits)

section \<open>Productions and comma-separated lists\<close>

inductive g_list :: "(sym list \<Rightarrow> 'a \<Rightarrow> bool) \<Rightarrow> sym list \<Rightarrow> 'a list \<Rightarrow> bool"
  for G :: "sym list \<Rightarrow> 'a \<Rightarrow> bool" where
  g_list_one: "G w x \<Longrightarrow> g_list G w [x]"
| g_list_more: "G w x \<Longrightarrow> g_list G ws xs \<Longrightarrow> g_list G (w @ (TokComma, '','') # ws) (x # xs)"

text \<open>
  The contract of a parser method for a production: \<open>item\<close> is the method, \<open>G\<close> the derivation
  relation, \<open>fol\<close> the symbols after which the method stops where the word ends.
\<close>

locale production =
  fixes item :: "parser \<Rightarrow> parse_error + 'a \<times> parser"
    and G :: "sym list \<Rightarrow> 'a \<Rightarrow> bool"
    and fol :: "sym \<Rightarrow> bool"
  assumes item_sound: "pok p \<Longrightarrow> item p = Inr (x, p') \<Longrightarrow> \<exists>w. steps_to p w p' \<and> G w x"
    and item_complete: "pok p \<Longrightarrow> view p = w @ v \<Longrightarrow> v \<noteq> [] \<Longrightarrow> fol (hd v) \<Longrightarrow> G w x \<Longrightarrow>
      \<exists>p'. item p = Inr (x, p') \<and> steps_to p w p'"
    and item_total: "pok p \<Longrightarrow> item p \<noteq> Inl OutOfFuel"
    and item_word: "G w x \<Longrightarrow> w \<noteq> []"
begin

lemma comma_list_sound:
  "pok p \<Longrightarrow> comma_list item n p = Inr (xs, p') \<Longrightarrow> \<exists>w. steps_to p w p' \<and> g_list G w xs"
proof (induction n arbitrary: p xs p')
  case (Suc n)
  from Suc.prems(2) obtain x p1 where i: "item p = Inr (x, p1)"
    by (auto simp: res_simps)
  from item_sound [OF Suc.prems(1) i] obtain w where w: "steps_to p w p1" "G w x" by blast
  have ok1: "pok p1" using w steps_to_pok by blast
  show ?case
  proof (cases "t_kind (cur p1) = TokComma")
    case False
    with Suc.prems i have "xs = [x]" "p' = p1" by auto
    with w show ?thesis by (auto intro: g_list_one)
  next
    case True
    then have c: "steps_to p1 [(TokComma, '','')] (skip p1)"
      using skip_steps [OF ok1] cur_ok [OF ok1] by (auto simp: sym_of_def)
    from Suc.prems i True obtain xs' where
      l: "comma_list item n (skip p1) = Inr (xs', p')" and xs: "xs = x # xs'"
      by (auto simp: res_simps)
    from Suc.IH [OF steps_to_pok [OF c] l] obtain u where "steps_to (skip p1) u p'" "g_list G u xs'"
      by blast
    then have "steps_to p (w @ [(TokComma, '','')] @ u) p'"
      using w c steps_to_trans by blast
    with \<open>g_list G u xs'\<close> w xs show ?thesis using g_list_more [of G w x u xs'] by auto
  qed
qed simp

lemma comma_list_total: "pok p \<Longrightarrow> length (view p) \<le> n \<Longrightarrow> comma_list item n p \<noteq> Inl OutOfFuel"
proof (induction n arbitrary: p)
  case 0
  then show ?case by simp
next
  case (Suc n)
  show ?case
  proof (cases "item p")
    case (Inl e)
    then show ?thesis using item_total [OF Suc.prems(1)] by auto
  next
    case (Inr r)
    then obtain x p1 where i: "item p = Inr (x, p1)" by (cases r) auto
    from item_sound [OF Suc.prems(1) i] obtain w where w: "steps_to p w p1" "G w x" by blast
    have ok1: "pok p1" using w steps_to_pok by blast
    show ?thesis
    proof (cases "t_kind (cur p1) = TokComma")
      case True
      then have c: "steps_to p1 [sym_of (cur p1)] (skip p1)" by (intro skip_steps ok1) simp
      have "length (view (skip p1)) \<le> n"
        using steps_to_length [OF w(1)] steps_to_length [OF c] Suc.prems(2) by simp
      then have "comma_list item n (skip p1) \<noteq> Inl OutOfFuel"
        by (rule Suc.IH [OF steps_to_pok [OF c]])
      with i True show ?thesis by (auto simp: res_simps)
    qed (use i in auto)
  qed
qed

end

text \<open>A production whose method also stops before a comma can stand in a list.\<close>

locale list_production = production +
  assumes comma_follows: "fol (TokComma, '','')"
begin

lemma comma_list_complete:
  "g_list G w xs \<Longrightarrow> pok p \<Longrightarrow> view p = w @ v \<Longrightarrow> v \<noteq> [] \<Longrightarrow> fol (hd v) \<Longrightarrow>
     fst (hd v) \<noteq> TokComma \<Longrightarrow> length w \<le> n \<Longrightarrow>
     \<exists>p'. comma_list item n p = Inr (xs, p') \<and> steps_to p w p'"
proof (induction arbitrary: p n rule: g_list.induct)
  case (g_list_one w x)
  then obtain m where n: "n = Suc m"
    using item_word [of w x] by (cases n) auto
  from g_list_one item_complete [of p w v x] obtain p' where
    i: "item p = Inr (x, p')" "steps_to p w p'" by blast
  have "t_kind (cur p') \<noteq> TokComma"
    using steps_to_view [OF i(2) g_list_one.prems(2)] view_cur [OF steps_to_pok [OF i(2)]]
      g_list_one.prems(5) by (auto simp: sym_of_def)
  with i n show ?case by auto
next
  case (g_list_more w x ws xs)
  then obtain m where n: "n = Suc m" by (cases n) auto
  have vw: "view p = w @ ((TokComma, '','') # ws @ v)" using g_list_more.prems(2) by simp
  with g_list_more item_complete [of p w "(TokComma, '','') # ws @ v" x] comma_follows
  obtain p1 where i: "item p = Inr (x, p1)" "steps_to p w p1" by auto
  have v1: "view p1 = (TokComma, '','') # ws @ v" using steps_to_view [OF i(2) vw] .
  have ok1: "pok p1" using i(2) steps_to_pok by blast
  have c1: "sym_of (cur p1) = (TokComma, '','')" using view_Cons [OF ok1 v1] by simp
  then have c: "steps_to p1 [(TokComma, '','')] (skip p1)"
    using skip_steps [OF ok1] by (auto simp: sym_of_def)
  have "view (skip p1) = ws @ v" using steps_to_view [OF c, of "ws @ v"] v1 by simp
  then obtain p' where l: "comma_list item m (skip p1) = Inr (xs, p')" "steps_to (skip p1) ws p'"
    using g_list_more.IH [of "skip p1" m] g_list_more.prems n steps_to_pok [OF c] by auto
  have "steps_to p (w @ [(TokComma, '','')] @ ws) p'"
    using i(2) c l(2) steps_to_trans by blast
  with i l n c1 show ?case by (auto simp: sym_of_def)
qed

end

section \<open>Columns, aliases and literals\<close>

abbreviation sDot :: sym where "sDot \<equiv> (TokDot, ''.'')"
abbreviation sLP :: sym where "sLP \<equiv> (TokLParen, ''('')"
abbreviation sRP :: sym where "sRP \<equiv> (TokRParen, '')'')"
abbreviation sStar :: sym where "sStar \<equiv> (TokStar, ''*'')"

inductive g_column :: "sym list \<Rightarrow> column \<Rightarrow> bool" where
  g_bare: "g_column [(TokIdent, n)] \<lparr>col_table = [], col_name = n\<rparr>"
| g_qualified: "g_column [(TokIdent, t), sDot, (TokIdent, n)] \<lparr>col_table = t, col_name = n\<rparr>"

inductive g_value :: "(string \<Rightarrow> 64 word option) \<Rightarrow> sym list \<Rightarrow> sql_value \<Rightarrow> bool"
  for pf where
  "g_value pf [(TokString, s)] \<lparr>v_kind = StringVal, v_go = GoString s\<rparr>"
| "parse_number pf s = Inr g \<Longrightarrow> g_value pf [(TokNumber, s)] \<lparr>v_kind = NumberVal, v_go = g\<rparr>"
| "g_value pf [kw ''TRUE''] \<lparr>v_kind = BoolVal, v_go = GoBool True\<rparr>"
| "g_value pf [kw ''FALSE''] \<lparr>v_kind = BoolVal, v_go = GoBool False\<rparr>"
| "g_value pf [kw ''NULL''] \<lparr>v_kind = NullVal, v_go = GoNil\<rparr>"

inductive g_alias :: "sym list \<Rightarrow> string \<Rightarrow> bool" where
  "g_alias [] []"
| "g_alias [kw ''AS'', (TokIdent, a)] a"

inductive_simps g_column_word: "g_column w c"
inductive_simps g_value_word: "g_value pf w v"
inductive_simps g_alias_word: "g_alias w a"

lemma kind_view: "pok p \<Longrightarrow> t_kind (cur p) = fst (hd (view p))"
  by (simp add: view_cur sym_of_def)

lemma next_tok_steps:
  assumes "pok p" "t_kind (cur p) \<noteq> TokEOF" "next_tok p = (t, p')"
  shows "t = cur p \<and> steps_to p [sym_of t] p'"
  using skip_steps [OF assms(1,2)] assms(3) by (auto simp: next_tok_def split: if_splits)

lemma parse_column_sound:
  assumes "pok p" "parse_column p = Inr (c, p')"
  shows "\<exists>w. steps_to p w p' \<and> g_column w c"
proof -
  from assms(2) obtain f p1 where f: "expect TokIdent ''a column name'' p = Inr (f, p1)"
    by (auto simp: parse_column_def res_simps)
  have s1: "steps_to p [(TokIdent, t_text f)] p1"
    by (rule expect_steps [OF f assms(1)]) simp
  have ok1: "pok p1" using s1 steps_to_pok by blast
  show ?thesis
  proof (cases "t_kind (cur p1) = TokDot")
    case True
    then have s2: "steps_to p1 [sDot] (skip p1)"
      using skip_steps [OF ok1] cur_ok [OF ok1] by (auto simp: sym_of_def)
    from assms(2) f True obtain g where
      g: "expect TokIdent (''a column name after '' @ quoted ''.'') (skip p1) = Inr (g, p')"
      and c: "c = \<lparr>col_table = t_text f, col_name = t_text g\<rparr>"
      by (auto simp: parse_column_def res_simps)
    have s3: "steps_to (skip p1) [(TokIdent, t_text g)] p'"
      by (rule expect_steps [OF g steps_to_pok [OF s2]]) simp
    have "steps_to p ([(TokIdent, t_text f)] @ [sDot] @ [(TokIdent, t_text g)]) p'"
      using s1 s2 s3 steps_to_trans by blast
    then show ?thesis using c by (auto intro: g_qualified)
  next
    case False
    with assms(2) f s1 show ?thesis
      by (auto simp: parse_column_def g_column_word)
  qed
qed

lemma parse_column_complete:
  assumes "pok p" "view p = w @ v" "v \<noteq> []" "fst (hd v) \<noteq> TokDot" "g_column w c"
  shows "\<exists>p'. parse_column p = Inr (c, p') \<and> steps_to p w p'"
  using assms(5)
proof cases
  case (g_bare n)
  with assms(2) have "view p = (TokIdent, n) # v" by simp
  from expect_complete [OF assms(1) this] obtain t p' where
    e: "expect TokIdent ''a column name'' p = Inr (t, p')" "t_text t = n" "steps_to p w p'"
    unfolding g_bare(1) by blast
  have "view p' = v" using e(3) assms(2) by (rule steps_to_view)
  then have "t_kind (cur p') \<noteq> TokDot"
    using kind_view [OF steps_to_pok [OF e(3)]] assms(4) by simp
  with e g_bare show ?thesis by (auto simp: parse_column_def)
next
  case (g_qualified t n)
  with assms(2) have v0: "view p = (TokIdent, t) # sDot # (TokIdent, n) # v" by simp
  from expect_complete [OF assms(1) v0] obtain f p1 where
    e: "expect TokIdent ''a column name'' p = Inr (f, p1)" "t_text f = t"
    "steps_to p [(TokIdent, t)] p1" by blast
  have v1: "view p1 = sDot # (TokIdent, n) # v" using steps_to_view [OF e(3)] v0 by simp
  have ok1: "pok p1" using e(3) steps_to_pok by blast
  have c1: "sym_of (cur p1) = sDot" using view_Cons [OF ok1 v1] by simp
  then have s2: "steps_to p1 [sDot] (skip p1)"
    using skip_steps [OF ok1] by (auto simp: sym_of_def)
  have "view (skip p1) = (TokIdent, n) # v" using steps_to_view [OF s2] v1 by simp
  from expect_complete [OF steps_to_pok [OF s2] this] obtain g p' where
    g: "expect TokIdent (''a column name after '' @ quoted ''.'') (skip p1) = Inr (g, p')"
    "t_text g = n" "steps_to (skip p1) [(TokIdent, n)] p'" by blast
  have "steps_to p ([(TokIdent, t)] @ [sDot] @ [(TokIdent, n)]) p'"
    using e(3) s2 g(3) steps_to_trans by blast
  with e g c1 g_qualified show ?thesis by (auto simp: parse_column_def sym_of_def)
qed

lemma parse_column_total: "parse_column p \<noteq> Inl OutOfFuel"
  by (auto simp: parse_column_def res_simps expect_total split: if_splits)

interpretation col: list_production parse_column g_column "\<lambda>s. fst s \<noteq> TokDot"
  by unfold_locales
    (use parse_column_sound parse_column_complete parse_column_total in \<open>auto elim: g_column.cases\<close>)

lemma parse_value_sound:
  assumes "pok p" "parse_value pf p = Inr (x, p')"
  shows "\<exists>w. steps_to p w p' \<and> g_value pf w x"
proof (intro exI conjI)
  have "t_kind (cur p) \<noteq> TokEOF"
    using assms(2) by (auto simp: parse_value_def Let_def is_keyword_def split: if_splits)
  with assms show "steps_to p [sym_of (cur p)] p'" and "g_value pf [sym_of (cur p)] x"
    using skip_steps [OF assms(1)]
    by (auto simp: parse_value_def Let_def is_keyword_def sym_of_def g_value_word res_simps
        split: if_splits)
qed

lemma parse_value_complete:
  assumes "pok p" "view p = w @ v" "g_value pf w x"
  shows "\<exists>p'. parse_value pf p = Inr (x, p') \<and> steps_to p w p'"
proof -
  obtain s where w: "w = [s]" using assms(3) by (auto simp: g_value_word)
  then have s: "s = sym_of (cur p)" using view_Cons [OF assms(1)] assms(2) by simp
  have "t_kind (cur p) \<noteq> TokEOF" using assms(3) w s by (auto simp: g_value_word sym_of_def)
  then have "steps_to p w (skip p)" using skip_steps [OF assms(1)] w s by simp
  moreover have "parse_value pf p = Inr (x, skip p)"
    using assms(3) w s by (auto simp: g_value_word parse_value_def Let_def is_keyword_def sym_of_def)
  ultimately show ?thesis by blast
qed

lemma parse_number_total: "parse_number pf s \<noteq> Inl OutOfFuel"
  by (simp add: parse_number_def split: option.splits)

lemma parse_value_total: "parse_value pf p \<noteq> Inl OutOfFuel"
  by (auto simp: parse_value_def Let_def res_simps parse_number_total)

interpretation val: list_production "parse_value pf" "g_value pf" "\<lambda>_. True" for pf
  by unfold_locales
    (use parse_value_sound parse_value_complete parse_value_total in \<open>auto simp: g_value_word\<close>)

lemma parse_as_alias_sound:
  assumes "pok p" "parse_as_alias p = Inr (a, p')"
  shows "\<exists>w. steps_to p w p' \<and> g_alias w a"
proof (cases "accept_keyword ''AS'' p")
  case (Pair ok p1)
  show ?thesis
  proof (cases ok)
    case True
    then have s1: "steps_to p [kw ''AS''] p1" using Pair assms(1) accept_keyword_True by auto
    from Pair True assms(2) obtain t where
      e: "expect TokIdent ''an alias identifier'' p1 = Inr (t, p')" "a = t_text t"
      by (auto simp: parse_as_alias_def res_simps)
    have "steps_to p ([kw ''AS''] @ [(TokIdent, a)]) p'"
      using s1 expect_steps [OF e(1) steps_to_pok [OF s1]] e(2) steps_to_trans by blast
    then show ?thesis by (auto simp: g_alias_word)
  next
    case False
    with Pair have "p1 = p" by (auto dest: accept_keyword_False)
    with Pair False assms have "steps_to p [] p'" "g_alias [] a"
      by (auto simp: parse_as_alias_def g_alias_word)
    then show ?thesis by blast
  qed
qed

lemma parse_as_alias_complete:
  assumes "pok p" "view p = w @ v" "v \<noteq> []" "hd v \<noteq> kw ''AS''" "g_alias w a"
  shows "\<exists>p'. parse_as_alias p = Inr (a, p') \<and> steps_to p w p'"
  using assms(5)
proof cases
  case 1
  with assms show ?thesis by (auto simp: parse_as_alias_def accept_keyword_other)
next
  case 2
  then have v0: "view p = kw ''AS'' # (TokIdent, a) # v" using assms(2) by simp
  from accept_keyword_complete [OF assms(1) v0] obtain p1 where
    s1: "accept_keyword ''AS'' p = (True, p1)" "steps_to p [kw ''AS''] p1" by blast
  have "view p1 = (TokIdent, a) # v" using steps_to_view [OF s1(2)] v0 by simp
  from expect_complete [OF steps_to_pok [OF s1(2)] this] obtain t p' where
    e: "expect TokIdent ''an alias identifier'' p1 = Inr (t, p')" "t_text t = a"
    "steps_to p1 [(TokIdent, a)] p'" by blast
  have "steps_to p ([kw ''AS''] @ [(TokIdent, a)]) p'"
    using s1(2) e(3) steps_to_trans by blast
  with s1 e 2 show ?thesis by (auto simp: parse_as_alias_def)
qed

lemma parse_as_alias_total: "parse_as_alias p \<noteq> Inl OutOfFuel"
  by (auto simp: parse_as_alias_def res_simps expect_total split: prod.splits)

section \<open>Select items, order items, table references\<close>

inductive g_agg_arg :: "string \<Rightarrow> sym list \<Rightarrow> bool \<times> column \<Rightarrow> bool" where
  "g_agg_arg ''COUNT'' [sStar] (True, zero_column)"
| "g_column w c \<Longrightarrow> g_agg_arg agg w (False, c)"

inductive g_select_item :: "sym list \<Rightarrow> select_item \<Rightarrow> bool" where
  g_plain: "g_column w c \<Longrightarrow> g_alias u a \<Longrightarrow>
     g_select_item (w @ u) \<lparr>si_agg = [], si_star = False, si_column = c, si_alias = a\<rparr>"
| g_agg: "agg \<in> set agg_funcs \<Longrightarrow> g_agg_arg agg w (star, c) \<Longrightarrow> g_alias u a \<Longrightarrow>
     g_select_item (kw agg # sLP # w @ sRP # u)
       \<lparr>si_agg = agg, si_star = star, si_column = c, si_alias = a\<rparr>"

inductive g_order_item :: "sym list \<Rightarrow> order_item \<Rightarrow> bool" where
  "g_column w c \<Longrightarrow> g_order_item (w @ [kw ''DESC'']) \<lparr>o_column = c, o_desc = True\<rparr>"
| "g_column w c \<Longrightarrow> g_order_item (w @ [kw ''ASC'']) \<lparr>o_column = c, o_desc = False\<rparr>"
| "g_column w c \<Longrightarrow> g_order_item w \<lparr>o_column = c, o_desc = False\<rparr>"

inductive g_table_ref :: "sym list \<Rightarrow> table_ref \<Rightarrow> bool" where
  "g_table_ref [(TokIdent, n)] \<lparr>tr_name = n, tr_alias = []\<rparr>"
| "g_table_ref [(TokIdent, n), (TokIdent, a)] \<lparr>tr_name = n, tr_alias = a\<rparr>"
| "g_table_ref [(TokIdent, n), kw ''AS'', (TokIdent, a)] \<lparr>tr_name = n, tr_alias = a\<rparr>"

inductive_simps g_agg_arg_word: "g_agg_arg agg w x"
inductive_simps g_table_ref_word: "g_table_ref w r"

lemma parse_agg_arg_sound:
  assumes "pok p" "parse_agg_arg agg p = Inr (x, p')"
  shows "\<exists>w. steps_to p w p' \<and> g_agg_arg agg w x"
proof (cases "t_kind (cur p) = TokStar")
  case True
  then have "steps_to p [sStar] (skip p)"
    using skip_steps [OF assms(1)] cur_ok [OF assms(1)] by (auto simp: sym_of_def)
  with True assms(2) show ?thesis
    by (auto simp: parse_agg_arg_def g_agg_arg_word split: if_splits)
next
  case False
  with assms col.item_sound show ?thesis
    by (fastforce simp: parse_agg_arg_def res_simps g_agg_arg_word)
qed

lemma parse_agg_arg_complete:
  assumes "pok p" "view p = w @ v" "v \<noteq> []" "fst (hd v) \<noteq> TokDot" "g_agg_arg agg w x"
  shows "\<exists>p'. parse_agg_arg agg p = Inr (x, p') \<and> steps_to p w p'"
  using assms(5)
proof cases
  case 1
  then have "sym_of (cur p) = sStar" using view_Cons [OF assms(1)] assms(2) by simp
  with 1 show ?thesis
    using skip_steps [OF assms(1)] by (auto simp: parse_agg_arg_def sym_of_def)
next
  case (2 c)
  then obtain p' where c: "parse_column p = Inr (c, p')" "steps_to p w p'"
    using col.item_complete assms by blast
  have "fst (hd (view p)) = TokIdent"
    using 2 assms(2) by (auto simp: g_column_word)
  with c 2 show ?thesis by (auto simp: parse_agg_arg_def kind_view [OF assms(1)])
qed

lemma parse_agg_arg_total: "parse_agg_arg agg p \<noteq> Inl OutOfFuel"
  by (auto simp: parse_agg_arg_def res_simps parse_column_total)

text \<open>The part of a select item before its alias.\<close>

definition select_head :: "parser \<Rightarrow> parse_error + select_item \<times> parser" where
  "select_head p =
     (if t_kind (cur p) = TokKeyword \<and> t_text (cur p) \<in> set agg_funcs then
        (let (t, p) = next_tok p; agg = t_text t
         in bind_res (expect TokLParen (quoted ''('') p) (\<lambda>(_, p).
            bind_res (parse_agg_arg agg p) (\<lambda>((star, col), p).
            bind_res (expect TokRParen (quoted '')'') p) (\<lambda>(_, p).
              Inr (\<lparr>si_agg = agg, si_star = star, si_column = col, si_alias = []\<rparr>, p)))))
      else
        bind_res (parse_column p) (\<lambda>(col, p).
          Inr (\<lparr>si_agg = [], si_star = False, si_column = col, si_alias = []\<rparr>, p)))"

lemma parse_select_item_head:
  "parse_select_item p = bind_res (select_head p) (\<lambda>(item, p).
     bind_res (parse_as_alias p) (\<lambda>(alias, p). Inr (item\<lparr>si_alias := alias\<rparr>, p)))"
  by (simp add: parse_select_item_def select_head_def)

inductive g_select_head :: "sym list \<Rightarrow> select_item \<Rightarrow> bool" where
  "g_column w c \<Longrightarrow>
     g_select_head w \<lparr>si_agg = [], si_star = False, si_column = c, si_alias = []\<rparr>"
| "agg \<in> set agg_funcs \<Longrightarrow> g_agg_arg agg w (star, c) \<Longrightarrow>
     g_select_head (kw agg # sLP # w @ [sRP])
       \<lparr>si_agg = agg, si_star = star, si_column = c, si_alias = []\<rparr>"

lemma select_item_split:
  "g_select_item w x \<longleftrightarrow> (\<exists>w1 u h a. w = w1 @ u \<and> g_select_head w1 h \<and> g_alias u a \<and> x = h\<lparr>si_alias := a\<rparr>)"
proof
  assume "g_select_item w x"
  then show "\<exists>w1 u h a. w = w1 @ u \<and> g_select_head w1 h \<and> g_alias u a \<and> x = h\<lparr>si_alias := a\<rparr>"
  proof cases
    case (g_plain w c u a)
    then show ?thesis using g_select_head.intros(1) by fastforce
  next
    case (g_agg agg w star c u a)
    then show ?thesis using g_select_head.intros(2) [of agg w star c]
      by (intro exI[of _ "kw agg # sLP # w @ [sRP]"] exI[of _ u]) fastforce
  qed
next
  assume "\<exists>w1 u h a. w = w1 @ u \<and> g_select_head w1 h \<and> g_alias u a \<and> x = h\<lparr>si_alias := a\<rparr>"
  then show "g_select_item w x"
    by (elim exE conjE g_select_head.cases) (auto intro: g_select_item.intros)
qed

lemma select_head_sound:
  assumes "pok p" "select_head p = Inr (x, p')"
  shows "\<exists>w. steps_to p w p' \<and> g_select_head w x"
proof (cases "t_kind (cur p) = TokKeyword \<and> t_text (cur p) \<in> set agg_funcs")
  case True
  let ?agg = "t_text (cur p)"
  from True have s0: "steps_to p [kw ?agg] (skip p)"
    using skip_steps [OF assms(1)] by (auto simp: sym_of_def)
  from assms(2) True obtain l p1 star c p2 r where
    l: "expect TokLParen (quoted ''('') (skip p) = Inr (l, p1)"
    and a: "parse_agg_arg ?agg p1 = Inr ((star, c), p2)"
    and r: "expect TokRParen (quoted '')'') p2 = Inr (r, p')"
    and x: "x = \<lparr>si_agg = ?agg, si_star = star, si_column = c, si_alias = []\<rparr>"
    by (auto simp: select_head_def Let_def res_simps)
  have s1: "steps_to (skip p) [sLP] p1"
    using expect_sound [OF l steps_to_pok [OF s0]] by auto
  from parse_agg_arg_sound [OF steps_to_pok [OF s1] a] obtain w where
    s2: "steps_to p1 w p2" "g_agg_arg ?agg w (star, c)" by blast
  have s3: "steps_to p2 [sRP] p'"
    using expect_sound [OF r steps_to_pok [OF s2(1)]] by auto
  have "steps_to p ([kw ?agg] @ [sLP] @ w @ [sRP]) p'"
    using s0 s1 s2(1) s3 steps_to_trans by blast
  with s2(2) True x g_select_head.intros(2) [of ?agg w star c] show ?thesis by auto
next
  case False
  with assms(2) obtain c where c: "parse_column p = Inr (c, p')"
    and x: "x = \<lparr>si_agg = [], si_star = False, si_column = c, si_alias = []\<rparr>"
    by (auto simp: select_head_def res_simps)
  from col.item_sound [OF assms(1) c] show ?thesis
    unfolding x using g_select_head.intros(1) by blast
qed

lemma select_head_complete:
  assumes "pok p" "view p = w @ v" "v \<noteq> []" "fst (hd v) \<noteq> TokDot" "g_select_head w x"
  shows "\<exists>p'. select_head p = Inr (x, p') \<and> steps_to p w p'"
  using assms(5)
proof cases
  case (1 c)
  then have "t_kind (cur p) = TokIdent"
    using assms(2) by (auto simp: kind_view [OF assms(1)] g_column_word)
  moreover obtain p' where "parse_column p = Inr (c, p')" "steps_to p w p'"
    using col.item_complete 1 assms by blast
  ultimately show ?thesis using 1 by (auto simp: select_head_def)
next
  case (2 agg u star c)
  then have v0: "view p = kw agg # sLP # u @ sRP # v" using assms(2) by simp
  have c0: "sym_of (cur p) = kw agg" using view_Cons [OF assms(1) v0] by simp
  then have s0: "steps_to p [kw agg] (skip p)"
    using skip_steps [OF assms(1)] by (auto simp: sym_of_def)
  have v1: "view (skip p) = sLP # u @ sRP # v" using steps_to_view [OF s0] v0 by simp
  from expect_complete [OF steps_to_pok [OF s0] v1] obtain l p1 where
    l: "expect TokLParen (quoted ''('') (skip p) = Inr (l, p1)" "steps_to (skip p) [sLP] p1" by blast
  have v2: "view p1 = u @ sRP # v" using steps_to_view [OF l(2)] v1 by simp
  from parse_agg_arg_complete [OF steps_to_pok [OF l(2)] v2 _ _ 2(4)] obtain p2 where
    a: "parse_agg_arg agg p1 = Inr ((star, c), p2)" "steps_to p1 u p2" by auto
  have v3: "view p2 = sRP # v" using steps_to_view [OF a(2) v2] .
  from expect_complete [OF steps_to_pok [OF a(2)] v3] obtain r p' where
    r: "expect TokRParen (quoted '')'') p2 = Inr (r, p')" "steps_to p2 [sRP] p'" by blast
  have "steps_to p ([kw agg] @ [sLP] @ u @ [sRP]) p'"
    using s0 l(2) a(2) r(2) steps_to_trans by blast
  with 2 c0 l a r show ?thesis
    by (auto simp: select_head_def sym_of_def)
qed

lemma select_head_total: "select_head p \<noteq> Inl OutOfFuel"
  by (auto simp: select_head_def Let_def res_simps expect_total parse_agg_arg_total
      parse_column_total)

lemma parse_select_item_sound:
  assumes "pok p" "parse_select_item p = Inr (x, p')"
  shows "\<exists>w. steps_to p w p' \<and> g_select_item w x"
proof -
  from assms(2) obtain h p1 a where h: "select_head p = Inr (h, p1)"
    and a: "parse_as_alias p1 = Inr (a, p')" and x: "x = h\<lparr>si_alias := a\<rparr>"
    by (auto simp: parse_select_item_head res_simps)
  from select_head_sound [OF assms(1) h] obtain w where w: "steps_to p w p1" "g_select_head w h"
    by blast
  from parse_as_alias_sound [OF steps_to_pok [OF w(1)] a] obtain u where
    "steps_to p1 u p'" "g_alias u a" by blast
  with w x show ?thesis using select_item_split steps_to_trans by blast
qed

abbreviation item_fol :: "sym \<Rightarrow> bool" where
  "item_fol s \<equiv> fst s \<noteq> TokDot \<and> s \<noteq> kw ''AS''"

lemma parse_select_item_complete:
  assumes "pok p" "view p = w @ v" "v \<noteq> []" "item_fol (hd v)" "g_select_item w x"
  shows "\<exists>p'. parse_select_item p = Inr (x, p') \<and> steps_to p w p'"
proof -
  from assms(5) obtain w1 u h a where w: "w = w1 @ u" and h: "g_select_head w1 h"
    and a: "g_alias u a" and x: "x = h\<lparr>si_alias := a\<rparr>"
    by (auto simp: select_item_split)
  have v0: "view p = w1 @ u @ v" using assms(2) w by simp
  have "u @ v \<noteq> []" "fst (hd (u @ v)) \<noteq> TokDot" using a assms(3,4) by (auto simp: g_alias_word)
  with select_head_complete [OF assms(1) v0 _ _ h] obtain p1 where
    p1: "select_head p = Inr (h, p1)" "steps_to p w1 p1" by blast
  from parse_as_alias_complete [OF steps_to_pok [OF p1(2)] steps_to_view [OF p1(2) v0] assms(3) _ a]
  obtain p' where p': "parse_as_alias p1 = Inr (a, p')" "steps_to p1 u p'"
    using assms(4) by blast
  have "steps_to p w p'" unfolding w using p1(2) p'(2) steps_to_trans by blast
  with p1 p' x show ?thesis by (auto simp: parse_select_item_head)
qed

lemma parse_select_item_total: "parse_select_item p \<noteq> Inl OutOfFuel"
  by (auto simp: parse_select_item_head res_simps select_head_total parse_as_alias_total)

lemma g_select_item_word: "g_select_item w x \<Longrightarrow> w \<noteq> []"
  by (induction rule: g_select_item.induct) (auto simp: g_column_word)

interpretation item: list_production parse_select_item g_select_item item_fol
  by unfold_locales
    (use parse_select_item_sound parse_select_item_complete parse_select_item_total
       g_select_item_word in auto)

lemma keyword_cases:
  assumes "pok p"
  obtains q where "accept_keyword s p = (True, q)" "steps_to p [kw s] q" "hd (view p) = kw s"
  | "accept_keyword s p = (False, p)" "hd (view p) \<noteq> kw s"
  using assms
  by (cases "is_keyword s p") (auto simp: accept_keyword_def is_keyword_view keyword_skip)

lemma parse_order_item_sound:
  assumes "pok p" "parse_order_item p = Inr (x, p')"
  shows "\<exists>w. steps_to p w p' \<and> g_order_item w x"
proof -
  from assms(2) obtain c p1 where c: "parse_column p = Inr (c, p1)"
    by (auto simp: parse_order_item_def res_simps)
  from parse_column_sound [OF assms(1) c] obtain w where w: "steps_to p w p1" "g_column w c" by blast
  have ok1: "pok p1" using w(1) steps_to_pok by blast
  show ?thesis
  proof (rule keyword_cases [OF ok1, of "''DESC''"])
    fix q assume "accept_keyword ''DESC'' p1 = (True, q)" "steps_to p1 [kw ''DESC''] q"
    with c w assms(2) show ?thesis
      using steps_to_trans g_order_item.intros(1) [OF w(2)] by (fastforce simp: parse_order_item_def)
  next
    assume d: "accept_keyword ''DESC'' p1 = (False, p1)"
    show ?thesis
    proof (rule keyword_cases [OF ok1, of "''ASC''"])
      fix q assume "accept_keyword ''ASC'' p1 = (True, q)" "steps_to p1 [kw ''ASC''] q"
      with c w assms(2) d show ?thesis
        using steps_to_trans g_order_item.intros(2) [OF w(2)] by (fastforce simp: parse_order_item_def)
    next
      assume "accept_keyword ''ASC'' p1 = (False, p1)"
      with c w assms(2) d show ?thesis
        using g_order_item.intros(3) [OF w(2)] by (auto simp: parse_order_item_def)
    qed
  qed
qed

abbreviation order_fol :: "sym \<Rightarrow> bool" where
  "order_fol s \<equiv> fst s \<noteq> TokDot \<and> s \<noteq> kw ''DESC'' \<and> s \<noteq> kw ''ASC''"

lemma parse_order_item_complete:
  assumes "pok p" "view p = w @ v" "v \<noteq> []" "order_fol (hd v)" "g_order_item w x"
  shows "\<exists>p'. parse_order_item p = Inr (x, p') \<and> steps_to p w p'"
proof -
  obtain w1 u c where w: "w = w1 @ u" and c: "g_column w1 c" and
    u: "u = [kw ''DESC''] \<and> x = \<lparr>o_column = c, o_desc = True\<rparr>
      \<or> u = [kw ''ASC''] \<and> x = \<lparr>o_column = c, o_desc = False\<rparr>
      \<or> u = [] \<and> x = \<lparr>o_column = c, o_desc = False\<rparr>"
    using assms(5)
  proof cases
    case (1 w1 c)
    then show ?thesis using that [of w1 "[kw ''DESC'']" c] by simp
  next
    case (2 w1 c)
    then show ?thesis using that [of w1 "[kw ''ASC'']" c] by simp
  next
    case (3 c)
    then show ?thesis using that [of w "[]" c] by simp
  qed
  have v0: "view p = w1 @ u @ v" using assms(2) w by simp
  have "u @ v \<noteq> []" "fst (hd (u @ v)) \<noteq> TokDot" using u assms(3,4) by auto
  with parse_column_complete [OF assms(1) v0 _ _ c] obtain p1 where
    p1: "parse_column p = Inr (c, p1)" "steps_to p w1 p1" by blast
  note ok1 = steps_to_pok [OF p1(2)] and v1 = steps_to_view [OF p1(2) v0]
  from u show ?thesis
  proof (elim disjE conjE)
    assume ux: "u = [kw ''DESC'']" "x = \<lparr>o_column = c, o_desc = True\<rparr>"
    with accept_keyword_complete [OF ok1, of "''DESC''" v] v1 obtain q where
      "accept_keyword ''DESC'' p1 = (True, q)" "steps_to p1 u q" by auto
    with p1 ux w show ?thesis using steps_to_trans by (fastforce simp: parse_order_item_def)
  next
    assume ux: "u = [kw ''ASC'']" "x = \<lparr>o_column = c, o_desc = False\<rparr>"
    with accept_keyword_complete [OF ok1, of "''ASC''" v] v1 obtain q where
      "accept_keyword ''ASC'' p1 = (True, q)" "steps_to p1 u q" by auto
    moreover have "accept_keyword ''DESC'' p1 = (False, p1)"
      using ok1 v1 ux by (simp add: accept_keyword_other)
    ultimately show ?thesis
      using p1 ux w steps_to_trans by (fastforce simp: parse_order_item_def)
  next
    assume ux: "u = []" "x = \<lparr>o_column = c, o_desc = False\<rparr>"
    with p1 w v1 assms(4) ok1 show ?thesis
      by (auto simp: parse_order_item_def accept_keyword_other)
  qed
qed

lemma parse_order_item_total: "parse_order_item p \<noteq> Inl OutOfFuel"
  by (auto simp: parse_order_item_def res_simps parse_column_total split: prod.splits)

lemma g_order_item_word: "g_order_item w x \<Longrightarrow> w \<noteq> []"
  by (induction rule: g_order_item.induct) (auto simp: g_column_word)

interpretation ord: list_production parse_order_item g_order_item order_fol
  by unfold_locales
    (use parse_order_item_sound parse_order_item_complete parse_order_item_total
       g_order_item_word in auto)

lemma parse_table_ref_sound:
  assumes "pok p" "parse_table_ref p = Inr (x, p')"
  shows "\<exists>w. steps_to p w p' \<and> g_table_ref w x"
proof -
  from assms(2) obtain n p1 where n: "expect TokIdent ''a table name'' p = Inr (n, p1)"
    by (auto simp: parse_table_ref_def res_simps)
  have s1: "steps_to p [(TokIdent, t_text n)] p1"
    by (rule expect_steps [OF n assms(1)]) simp
  note ok1 = steps_to_pok [OF s1]
  show ?thesis
  proof (rule keyword_cases [OF ok1, of "''AS''"])
    fix q assume a: "accept_keyword ''AS'' p1 = (True, q)" and s2: "steps_to p1 [kw ''AS''] q"
    with assms(2) n obtain al where e: "expect TokIdent ''an alias identifier'' q = Inr (al, p')"
      and x: "x = \<lparr>tr_name = t_text n, tr_alias = t_text al\<rparr>"
      by (auto simp: parse_table_ref_def res_simps)
    have "steps_to q [(TokIdent, t_text al)] p'"
      by (rule expect_steps [OF e steps_to_pok [OF s2]]) simp
    then have "steps_to p ([(TokIdent, t_text n)] @ [kw ''AS''] @ [(TokIdent, t_text al)]) p'"
      using s1 s2 steps_to_trans by blast
    then show ?thesis using x by (auto simp: g_table_ref_word)
  next
    assume a: "accept_keyword ''AS'' p1 = (False, p1)"
    show ?thesis
    proof (cases "t_kind (cur p1) = TokIdent")
      case True
      then have "steps_to p1 [(TokIdent, t_text (cur p1))] (skip p1)"
        using skip_steps [OF ok1] by (auto simp: sym_of_def)
      then have "steps_to p ([(TokIdent, t_text n)] @ [(TokIdent, t_text (cur p1))]) (skip p1)"
        using s1 steps_to_trans by blast
      with a True assms(2) n show ?thesis
        by (auto simp: parse_table_ref_def g_table_ref_word)
    next
      case False
      with a assms(2) n s1 show ?thesis by (auto simp: parse_table_ref_def g_table_ref_word)
    qed
  qed
qed

abbreviation table_fol :: "sym \<Rightarrow> bool" where
  "table_fol s \<equiv> fst s \<noteq> TokIdent \<and> s \<noteq> kw ''AS''"

lemma parse_table_ref_complete:
  assumes "pok p" "view p = w @ v" "v \<noteq> []" "table_fol (hd v)" "g_table_ref w x"
  shows "\<exists>p'. parse_table_ref p = Inr (x, p') \<and> steps_to p w p'"
proof -
  from assms(5) obtain n u where w: "w = (TokIdent, n) # u" and
    u: "u = [] \<and> x = \<lparr>tr_name = n, tr_alias = []\<rparr>
      \<or> (\<exists>a. u = [(TokIdent, a)] \<and> x = \<lparr>tr_name = n, tr_alias = a\<rparr>)
      \<or> (\<exists>a. u = [kw ''AS'', (TokIdent, a)] \<and> x = \<lparr>tr_name = n, tr_alias = a\<rparr>)"
    by (auto simp: g_table_ref_word)
  then have v0: "view p = (TokIdent, n) # u @ v" using assms(2) by simp
  from expect_complete [OF assms(1) v0] obtain t p1 where
    e: "expect TokIdent ''a table name'' p = Inr (t, p1)" "t_text t = n"
    "steps_to p [(TokIdent, n)] p1" by blast
  note ok1 = steps_to_pok [OF e(3)]
  have v1: "view p1 = u @ v" using steps_to_view [OF e(3)] v0 by simp
  have k1: "t_kind (cur p1) = fst (hd (u @ v))" using kind_view [OF ok1] v1 by simp
  from u show ?thesis
  proof (elim disjE exE conjE)
    assume ux: "u = []" "x = \<lparr>tr_name = n, tr_alias = []\<rparr>"
    then have "accept_keyword ''AS'' p1 = (False, p1)"
      using ok1 v1 assms(4) by (simp add: accept_keyword_other)
    with e ux w k1 assms(4) show ?thesis by (auto simp: parse_table_ref_def)
  next
    fix a assume ux: "u = [(TokIdent, a)]" "x = \<lparr>tr_name = n, tr_alias = a\<rparr>"
    then have c: "sym_of (cur p1) = (TokIdent, a)" using view_Cons [OF ok1] v1 by auto
    then have "steps_to p1 u (skip p1)" using skip_steps [OF ok1] ux by (auto simp: sym_of_def)
    then have "steps_to p w (skip p1)"
      using e(3) steps_to_trans [of p "[(TokIdent, n)]"] w by fastforce
    moreover have "accept_keyword ''AS'' p1 = (False, p1)"
      using ok1 v1 ux by (simp add: accept_keyword_other)
    ultimately show ?thesis using e ux c by (auto simp: parse_table_ref_def sym_of_def)
  next
    fix a assume ux: "u = [kw ''AS'', (TokIdent, a)]" "x = \<lparr>tr_name = n, tr_alias = a\<rparr>"
    then have v1': "view p1 = kw ''AS'' # (TokIdent, a) # v" using v1 by simp
    from accept_keyword_complete [OF ok1 v1'] obtain q where
      q: "accept_keyword ''AS'' p1 = (True, q)" "steps_to p1 [kw ''AS''] q" by blast
    have "view q = (TokIdent, a) # v" using steps_to_view [OF q(2)] v1' by simp
    from expect_complete [OF steps_to_pok [OF q(2)] this] obtain al p' where
      al: "expect TokIdent ''an alias identifier'' q = Inr (al, p')" "t_text al = a"
      "steps_to q [(TokIdent, a)] p'" by blast
    have "steps_to p ([(TokIdent, n)] @ [kw ''AS''] @ [(TokIdent, a)]) p'"
      using e(3) q(2) al(3) steps_to_trans by blast
    with e q al ux w show ?thesis by (auto simp: parse_table_ref_def)
  qed
qed

lemma parse_table_ref_total: "parse_table_ref p \<noteq> Inl OutOfFuel"
  by (auto simp: parse_table_ref_def res_simps expect_total Let_def split: prod.splits if_splits)

lemma g_table_ref_nonempty: "g_table_ref w x \<Longrightarrow> w \<noteq> []"
  by (auto simp: g_table_ref_word)

interpretation tab: production parse_table_ref g_table_ref table_fol
  by unfold_locales
    (use parse_table_ref_sound parse_table_ref_complete parse_table_ref_total
       g_table_ref_nonempty in auto)

section \<open>Predicates\<close>

text \<open>What may follow the column of a predicate, and the predicate it makes.\<close>

inductive g_pred_tail :: "(string \<Rightarrow> 64 word option) \<Rightarrow> column \<Rightarrow> sym list \<Rightarrow> condition \<Rightarrow> bool"
  for pf c where
  g_cmp_column: "g_column w r \<Longrightarrow>
     g_pred_tail pf c ((TokOp, op) # w) (Comparison c op zero_value (Some r))"
| g_cmp_value: "g_value pf w v \<Longrightarrow> g_pred_tail pf c ((TokOp, op) # w) (Comparison c op v None)"
| g_in: "g_list (g_value pf) w vs \<Longrightarrow> g_pred_tail pf c (kw ''IN'' # sLP # w @ [sRP]) (In c vs)"
| g_like: "g_value pf w v \<Longrightarrow> v_kind v = StringVal \<Longrightarrow> g_pred_tail pf c (kw ''LIKE'' # w) (Like c v)"
| g_is_null: "g_pred_tail pf c [kw ''IS'', kw ''NULL''] (IsNull c False)"
| g_is_not_null: "g_pred_tail pf c [kw ''IS'', kw ''NOT'', kw ''NULL''] (IsNull c True)"
| g_between: "g_value pf w lo \<Longrightarrow> g_value pf u hi \<Longrightarrow>
     g_pred_tail pf c (kw ''BETWEEN'' # w @ kw ''AND'' # u) (Between c lo hi)"

inductive g_pred :: "(string \<Rightarrow> 64 word option) \<Rightarrow> sym list \<Rightarrow> condition \<Rightarrow> bool" for pf where
  "g_column w c \<Longrightarrow> g_pred_tail pf c u x \<Longrightarrow> g_pred pf (w @ u) x"

text \<open>The method run after the column.\<close>

definition pred_tail ::
  "(string \<Rightarrow> 64 word option) \<Rightarrow> column \<Rightarrow> parser \<Rightarrow> parse_error + condition \<times> parser" where
  "pred_tail pf col p =
     (if t_kind (cur p) = TokOp then parse_comparison pf col p
      else if is_keyword ''IN'' p then parse_in pf col (skip p)
      else if is_keyword ''LIKE'' p then parse_like pf col (skip p)
      else if is_keyword ''IS'' p then parse_is col (skip p)
      else if is_keyword ''BETWEEN'' p then parse_between pf col (skip p)
      else Inl (ExpectedPredicate (cur p)))"

lemma parse_predicate_tail:
  "parse_predicate pf p = bind_res (parse_column p) (\<lambda>(col, p). pred_tail pf col p)"
  by (simp add: parse_predicate_def pred_tail_def)

lemma comparison_sound:
  assumes "pok p" "t_kind (cur p) = TokOp" "parse_comparison pf c p = Inr (x, p')"
  shows "\<exists>w. steps_to p w p' \<and> g_pred_tail pf c w x"
proof -
  let ?op = "t_text (cur p)"
  have s0: "steps_to p [(TokOp, ?op)] (skip p)"
    using skip_steps [OF assms(1)] assms(2) by (auto simp: sym_of_def)
  note ok0 = steps_to_pok [OF s0]
  show ?thesis
  proof (cases "t_kind (cur (skip p)) = TokIdent")
    case True
    with assms(3) obtain r where r: "parse_column (skip p) = Inr (r, p')"
      and x: "x = Comparison c ?op zero_value (Some r)"
      by (auto simp: parse_comparison_def Let_def res_simps)
    from parse_column_sound [OF ok0 r] obtain w where "steps_to (skip p) w p'" "g_column w r" by blast
    with s0 x show ?thesis using steps_to_trans g_cmp_column by fastforce
  next
    case False
    with assms(3) obtain v where v: "parse_value pf (skip p) = Inr (v, p')"
      and x: "x = Comparison c ?op v None"
      by (auto simp: parse_comparison_def Let_def res_simps)
    from parse_value_sound [OF ok0 v] obtain w where "steps_to (skip p) w p'" "g_value pf w v" by blast
    with s0 x show ?thesis using steps_to_trans g_cmp_value by fastforce
  qed
qed

lemma in_sound:
  assumes "pok p" "parse_in pf c p = Inr (x, p')"
  shows "\<exists>w vs. steps_to p (sLP # w @ [sRP]) p' \<and> g_list (g_value pf) w vs \<and> x = In c vs"
proof -
  from assms(2) obtain l p1 vs p2 r where l: "expect TokLParen (quoted ''('') p = Inr (l, p1)"
    and vs: "comma_list (parse_value pf) (length (p_toks p1)) p1 = Inr (vs, p2)"
    and r: "expect TokRParen (quoted '')'') p2 = Inr (r, p')" and x: "x = In c vs"
    by (auto simp: parse_in_def res_simps)
  have s1: "steps_to p [sLP] p1" using expect_sound [OF l assms(1)] by auto
  from val.comma_list_sound [OF steps_to_pok [OF s1] vs] obtain w where
    s2: "steps_to p1 w p2" "g_list (g_value pf) w vs" by blast
  have s3: "steps_to p2 [sRP] p'" using expect_sound [OF r steps_to_pok [OF s2(1)]] by auto
  have "steps_to p ([sLP] @ w @ [sRP]) p'" using s1 s2(1) s3 steps_to_trans by blast
  with s2(2) x show ?thesis by auto
qed

lemma is_sound:
  assumes "pok p" "parse_is c p = Inr (x, p')"
  shows "\<exists>w. steps_to p w p' \<and> (w = [kw ''NULL''] \<and> x = IsNull c False
     \<or> w = [kw ''NOT'', kw ''NULL''] \<and> x = IsNull c True)"
proof (rule keyword_cases [OF assms(1), of "''NOT''"])
  fix q assume a: "accept_keyword ''NOT'' p = (True, q)" "steps_to p [kw ''NOT''] q"
  with assms(2) have e: "expect_keyword ''NULL'' q = Inr p'" "x = IsNull c True"
    by (auto simp: parse_is_def res_simps)
  have "steps_to p ([kw ''NOT''] @ [kw ''NULL'']) p'"
    using a(2) expect_keyword_sound [OF e(1) steps_to_pok [OF a(2)]] steps_to_trans by blast
  with e show ?thesis by auto
next
  assume "accept_keyword ''NOT'' p = (False, p)"
  with assms show ?thesis by (auto simp: parse_is_def res_simps dest: expect_keyword_sound)
qed

lemma between_sound:
  assumes "pok p" "parse_between pf c p = Inr (x, p')"
  shows "\<exists>w u lo hi. steps_to p (w @ kw ''AND'' # u) p' \<and> g_value pf w lo \<and> g_value pf u hi
     \<and> x = Between c lo hi"
proof -
  from assms(2) obtain lo p1 p2 hi where lo: "parse_value pf p = Inr (lo, p1)"
    and a: "expect_keyword ''AND'' p1 = Inr p2" and hi: "parse_value pf p2 = Inr (hi, p')"
    and x: "x = Between c lo hi"
    by (auto simp: parse_between_def res_simps)
  from parse_value_sound [OF assms(1) lo] obtain w where w: "steps_to p w p1" "g_value pf w lo" by blast
  have s: "steps_to p1 [kw ''AND''] p2" by (rule expect_keyword_sound [OF a steps_to_pok [OF w(1)]])
  from parse_value_sound [OF steps_to_pok [OF s] hi] obtain u where
    u: "steps_to p2 u p'" "g_value pf u hi" by blast
  have "steps_to p (w @ [kw ''AND''] @ u) p'" using w(1) s u(1) steps_to_trans by blast
  with w u x show ?thesis by fastforce
qed

lemma pred_tail_sound:
  assumes "pok p" "pred_tail pf c p = Inr (x, p')"
  shows "\<exists>w. steps_to p w p' \<and> g_pred_tail pf c w x"
proof -
  have keyword: "steps_to p (kw k # w) q"
    if "is_keyword k p" "steps_to (skip p) w q" for k w q
    using steps_to_trans [OF keyword_skip [OF assms(1) that(1)] that(2)] by simp
  have ok: "pok (skip p)" if "is_keyword k p" for k
    using keyword_skip [OF assms(1) that] steps_to_pok by blast
  consider (op) "t_kind (cur p) = TokOp" "parse_comparison pf c p = Inr (x, p')"
    | (in_kw) "is_keyword ''IN'' p" "parse_in pf c (skip p) = Inr (x, p')"
    | (like_kw) "is_keyword ''LIKE'' p" "parse_like pf c (skip p) = Inr (x, p')"
    | (is_kw) "is_keyword ''IS'' p" "parse_is c (skip p) = Inr (x, p')"
    | (between_kw) "is_keyword ''BETWEEN'' p" "parse_between pf c (skip p) = Inr (x, p')"
    using assms(2) by (auto simp: pred_tail_def split: if_splits)
  then show ?thesis
  proof cases
    case op
    then show ?thesis using comparison_sound assms(1) by blast
  next
    case in_kw
    then show ?thesis using in_sound [OF ok [OF in_kw(1)] in_kw(2)] keyword g_in by blast
  next
    case like_kw
    then obtain v where "parse_value pf (skip p) = Inr (v, p')" "v_kind v = StringVal" "x = Like c v"
      by (auto simp: parse_like_def res_simps split: if_splits)
    with like_kw show ?thesis
      using parse_value_sound [OF ok [OF like_kw(1)]] keyword g_like by metis
  next
    case is_kw
    then show ?thesis
      using is_sound [OF ok [OF is_kw(1)] is_kw(2)] keyword g_is_null g_is_not_null by blast
  next
    case between_kw
    then show ?thesis
      using between_sound [OF ok [OF between_kw(1)] between_kw(2)] keyword g_between by blast
  qed
qed

lemma parse_predicate_sound:
  assumes "pok p" "parse_predicate pf p = Inr (x, p')"
  shows "\<exists>w. steps_to p w p' \<and> g_pred pf w x"
proof -
  from assms(2) obtain c p1 where c: "parse_column p = Inr (c, p1)" "pred_tail pf c p1 = Inr (x, p')"
    by (auto simp: parse_predicate_tail res_simps)
  from parse_column_sound [OF assms(1) c(1)] obtain w where w: "steps_to p w p1" "g_column w c"
    by blast
  from pred_tail_sound [OF steps_to_pok [OF w(1)] c(2)] obtain u where
    "steps_to p1 u p'" "g_pred_tail pf c u x" by blast
  with w show ?thesis using steps_to_trans g_pred.intros by blast
qed

text \<open>Completeness of the predicate forms.\<close>

lemma in_complete:
  assumes "pok p" "view p = sLP # w @ sRP # v" "g_list (g_value pf) w vs"
  shows "\<exists>p'. parse_in pf c p = Inr (In c vs, p') \<and> steps_to p (sLP # w @ [sRP]) p'"
proof -
  from expect_complete [OF assms(1,2)] obtain l p1 where
    l: "expect TokLParen (quoted ''('') p = Inr (l, p1)" "steps_to p [sLP] p1" by blast
  note ok1 = steps_to_pok [OF l(2)]
  have v1: "view p1 = w @ sRP # v" using steps_to_view [OF l(2)] assms(2) by simp
  have "length w \<le> length (p_toks p1)" using view_length_le [of p1] v1 by simp
  with val.comma_list_complete [OF assms(3) ok1 v1] obtain p2 where
    p2: "comma_list (parse_value pf) (length (p_toks p1)) p1 = Inr (vs, p2)" "steps_to p1 w p2"
    by auto
  from expect_complete [OF steps_to_pok [OF p2(2)] steps_to_view [OF p2(2) v1]] obtain r p' where
    r: "expect TokRParen (quoted '')'') p2 = Inr (r, p')" "steps_to p2 [sRP] p'" by blast
  have "steps_to p ([sLP] @ w @ [sRP]) p'" using l(2) p2(2) r(2) steps_to_trans by blast
  with l p2 r show ?thesis by (auto simp: parse_in_def)
qed

lemma between_complete:
  assumes "pok p" "view p = w @ kw ''AND'' # u @ v" "g_value pf w lo" "g_value pf u hi"
  shows "\<exists>p'. parse_between pf c p = Inr (Between c lo hi, p') \<and> steps_to p (w @ kw ''AND'' # u) p'"
proof -
  from parse_value_complete [OF assms(1-3)] obtain p1 where
    p1: "parse_value pf p = Inr (lo, p1)" "steps_to p w p1" by blast
  have v1: "view p1 = kw ''AND'' # u @ v" using steps_to_view [OF p1(2) assms(2)] .
  from expect_keyword_complete [OF steps_to_pok [OF p1(2)] v1] obtain p2 where
    p2: "expect_keyword ''AND'' p1 = Inr p2" "steps_to p1 [kw ''AND''] p2" by blast
  have v2: "view p2 = u @ v" using steps_to_view [OF p2(2)] v1 by simp
  from parse_value_complete [OF steps_to_pok [OF p2(2)] v2 assms(4)] obtain p' where
    p': "parse_value pf p2 = Inr (hi, p')" "steps_to p2 u p'" by blast
  have "steps_to p (w @ [kw ''AND''] @ u) p'" using p1(2) p2(2) p'(2) steps_to_trans by blast
  with p1 p2 p' show ?thesis by (auto simp: parse_between_def)
qed

lemma is_complete:
  assumes "pok p" "view p = w @ v" "w = [kw ''NULL''] \<and> \<not> neg \<or> w = [kw ''NOT'', kw ''NULL''] \<and> neg"
  shows "\<exists>p'. parse_is c p = Inr (IsNull c neg, p') \<and> steps_to p w p'"
  using assms(3)
proof (elim disjE conjE)
  assume w: "w = [kw ''NULL'']" "\<not> neg"
  then have "accept_keyword ''NOT'' p = (False, p)" using assms(1,2) by (simp add: accept_keyword_other)
  with w expect_keyword_complete [OF assms(1), of "''NULL''" v] assms(2) show ?thesis
    by (auto simp: parse_is_def)
next
  assume w: "w = [kw ''NOT'', kw ''NULL'']" "neg"
  with accept_keyword_complete [OF assms(1), of "''NOT''" "kw ''NULL'' # v"] assms(2) obtain q where
    q: "accept_keyword ''NOT'' p = (True, q)" "steps_to p [kw ''NOT''] q" by auto
  have "view q = kw ''NULL'' # v" using steps_to_view [OF q(2)] assms(2) w by simp
  from expect_keyword_complete [OF steps_to_pok [OF q(2)] this] obtain p' where
    p': "expect_keyword ''NULL'' q = Inr p'" "steps_to q [kw ''NULL''] p'" by blast
  have "steps_to p ([kw ''NOT''] @ [kw ''NULL'']) p'" using q(2) p'(2) steps_to_trans by blast
  with q p' w show ?thesis by (auto simp: parse_is_def)
qed

lemma g_value_not_ident: "g_value pf w v \<Longrightarrow> fst (hd w) \<noteq> TokIdent \<and> w \<noteq> []"
  by (auto simp: g_value_word)

lemma comparison_complete:
  assumes "pok p" "view p = (TokOp, op) # w @ v" "v \<noteq> []" "fst (hd v) \<noteq> TokDot"
    and "g_column w r \<and> x = Comparison c op zero_value (Some r)
       \<or> (\<exists>y. g_value pf w y \<and> x = Comparison c op y None)"
  shows "\<exists>p'. parse_comparison pf c p = Inr (x, p') \<and> steps_to p ((TokOp, op) # w) p'"
proof -
  have c0: "sym_of (cur p) = (TokOp, op)" using view_Cons [OF assms(1,2)] by simp
  then have s0: "steps_to p [(TokOp, op)] (skip p)"
    using skip_steps [OF assms(1)] by (auto simp: sym_of_def)
  note ok0 = steps_to_pok [OF s0]
  have v0: "view (skip p) = w @ v" using steps_to_view [OF s0] assms(2) by simp
  have k0: "t_kind (cur (skip p)) = fst (hd (w @ v))" using kind_view [OF ok0] v0 by simp
  from assms(5) show ?thesis
  proof (elim disjE exE conjE)
    assume g: "g_column w r" "x = Comparison c op zero_value (Some r)"
    then have "t_kind (cur (skip p)) = TokIdent" using k0 by (auto simp: g_column_word)
    moreover obtain p' where "parse_column (skip p) = Inr (r, p')" "steps_to (skip p) w p'"
      using parse_column_complete [OF ok0 v0 assms(3,4) g(1)] by blast
    ultimately show ?thesis
      using g c0 steps_to_trans [OF s0] by (auto simp: parse_comparison_def Let_def sym_of_def)
  next
    fix y assume g: "g_value pf w y" "x = Comparison c op y None"
    then have "t_kind (cur (skip p)) \<noteq> TokIdent"
      using k0 g_value_not_ident [OF g(1)] by (auto simp: hd_append)
    moreover obtain p' where "parse_value pf (skip p) = Inr (y, p')" "steps_to (skip p) w p'"
      using parse_value_complete [OF ok0 v0 g(1)] by blast
    ultimately show ?thesis
      using g c0 steps_to_trans [OF s0] by (auto simp: parse_comparison_def Let_def sym_of_def)
  qed
qed

lemma pred_tail_keyword:
  assumes "pok p" "view p = kw k # v"
  shows "t_kind (cur p) = TokKeyword" and "is_keyword s p \<longleftrightarrow> s = k" and "view (skip p) = v"
    and "pok (skip p)" and "steps_to (skip p) w q \<Longrightarrow> steps_to p (kw k # w) q"
proof -
  have c: "sym_of (cur p) = kw k" using view_Cons [OF assms] by simp
  then show "t_kind (cur p) = TokKeyword" and "is_keyword s p \<longleftrightarrow> s = k"
    by (auto simp: sym_of_def is_keyword_def)
  have s: "steps_to p [kw k] (skip p)" using skip_steps [OF assms(1)] c by (auto simp: sym_of_def)
  then show "pok (skip p)" "view (skip p) = v"
    using steps_to_pok steps_to_view [OF s] assms(2) by auto
  show "steps_to (skip p) w q \<Longrightarrow> steps_to p (kw k # w) q" using steps_to_trans [OF s] by fastforce
qed

lemma pred_tail_complete:
  assumes "pok p" "view p = w @ v" "v \<noteq> []" "fst (hd v) \<noteq> TokDot" "g_pred_tail pf c w x"
  shows "\<exists>p'. pred_tail pf c p = Inr (x, p') \<and> steps_to p w p'"
proof -
  note key = pred_tail_keyword [OF assms(1)]
  have op: "t_kind (cur p) = TokOp" if "w = (TokOp, o1) # u" for o1 u
    using that assms(2) by (simp add: kind_view [OF assms(1)])
  from assms(5) show ?thesis
  proof cases
    case (g_cmp_column u r o1)
    then show ?thesis
      using comparison_complete [OF assms(1), of o1 u v r x c pf] op assms(2-4)
      by (auto simp: pred_tail_def)
  next
    case (g_cmp_value u y o1)
    then show ?thesis
      using comparison_complete [OF assms(1), of o1 u v _ x c pf] op assms(2-4)
      by (auto simp: pred_tail_def)
  next
    case (g_in u vs)
    then have v0: "view p = kw ''IN'' # sLP # u @ sRP # v" using assms(2) by simp
    from in_complete [OF key(4)[OF v0] key(3)[OF v0] g_in(3), of c] g_in key(1,2,5)[OF v0]
    show ?thesis by (auto simp: pred_tail_def)
  next
    case (g_like u y)
    then have v0: "view p = kw ''LIKE'' # u @ v" using assms(2) by simp
    obtain p' where p': "parse_value pf (skip p) = Inr (y, p')" "steps_to (skip p) u p'"
      using parse_value_complete [OF key(4)[OF v0] key(3)[OF v0]] g_like by blast
    then have "pred_tail pf c p = Inr (x, p')"
      using g_like key(1,2)[OF v0] by (simp add: pred_tail_def parse_like_def)
    with key(5)[OF v0 p'(2)] g_like show ?thesis by auto
  next
    case g_is_null
    then have v0: "view p = kw ''IS'' # [kw ''NULL''] @ v" using assms(2) by simp
    from is_complete [OF key(4)[OF v0] key(3)[OF v0], of False c] g_is_null key(1,2,5)[OF v0]
    show ?thesis by (auto simp: pred_tail_def)
  next
    case g_is_not_null
    then have v0: "view p = kw ''IS'' # [kw ''NOT'', kw ''NULL''] @ v" using assms(2) by simp
    from is_complete [OF key(4)[OF v0] key(3)[OF v0], of True c] g_is_not_null key(1,2,5)[OF v0]
    show ?thesis by (auto simp: pred_tail_def)
  next
    case (g_between u lo z hi)
    then have v0: "view p = kw ''BETWEEN'' # u @ kw ''AND'' # z @ v" using assms(2) by simp
    obtain p' where p': "parse_between pf c (skip p) = Inr (Between c lo hi, p')"
      "steps_to (skip p) (u @ kw ''AND'' # z) p'"
      using between_complete [OF key(4)[OF v0] key(3)[OF v0] g_between(3,4)] by blast
    then have "pred_tail pf c p = Inr (x, p')"
      using g_between key(1,2)[OF v0] by (simp add: pred_tail_def)
    with key(5)[OF v0 p'(2)] g_between show ?thesis by auto
  qed
qed

lemma g_pred_tail_head: "g_pred_tail pf c w x \<Longrightarrow> w \<noteq> [] \<and> fst (hd w) \<noteq> TokDot"
  by (induction rule: g_pred_tail.induct) auto

lemma parse_predicate_complete:
  assumes "pok p" "view p = w @ v" "v \<noteq> []" "fst (hd v) \<noteq> TokDot" "g_pred pf w x"
  shows "\<exists>p'. parse_predicate pf p = Inr (x, p') \<and> steps_to p w p'"
  using assms(5)
proof cases
  case (1 w1 c u)
  have v0: "view p = w1 @ u @ v" using assms(2) 1 by simp
  have "u @ v \<noteq> []" "fst (hd (u @ v)) \<noteq> TokDot" using g_pred_tail_head [OF 1(3)] by auto
  with parse_column_complete [OF assms(1) v0 _ _ 1(2)] obtain p1 where
    p1: "parse_column p = Inr (c, p1)" "steps_to p w1 p1" by blast
  from pred_tail_complete [OF steps_to_pok [OF p1(2)] steps_to_view [OF p1(2) v0] assms(3,4) 1(3)]
  obtain p' where "pred_tail pf c p1 = Inr (x, p')" "steps_to p1 u p'" by blast
  with p1 1 show ?thesis using steps_to_trans by (auto simp: parse_predicate_tail)
qed

lemma comma_values_total:
  "pok p \<Longrightarrow> comma_list (parse_value pf) (length (p_toks p)) p \<noteq> Inl OutOfFuel"
  by (rule val.comma_list_total) (simp_all add: view_length_le)

lemma parse_predicate_total:
  assumes "pok p"
  shows "parse_predicate pf p \<noteq> Inl OutOfFuel"
proof -
  have in_total: "parse_in pf c q \<noteq> Inl OutOfFuel" if "pok q" for c q
    using that expect_sound
    by (auto simp: parse_in_def res_simps expect_total) (metis comma_values_total expect_sound
        steps_to_pok tokenKind.distinct)+
  have skip_ok: "pok (skip q)" if "pok q" "is_keyword k q" for k q
    using keyword_skip [OF that] steps_to_pok by blast
  have "pred_tail pf c q \<noteq> Inl OutOfFuel" if "pok q" for c q
    using in_total [OF skip_ok [OF that]]
    by (auto simp: pred_tail_def parse_comparison_def parse_like_def parse_is_def parse_between_def
        Let_def res_simps parse_value_total parse_column_total expect_keyword_total
        split: prod.splits if_splits)
  then show ?thesis
    using parse_column_sound [OF assms] steps_to_pok
    by (auto simp: parse_predicate_tail res_simps parse_column_total)
qed

section \<open>Conditions\<close>

text \<open>
  \<open>AND\<close> binds tighter than \<open>OR\<close>, \<open>NOT\<close> takes one factor, and a chain of the same operator
  groups to the left: \<open>g_or_tail l u c\<close> says that the rest \<open>u\<close> of a chain whose part read so far
  denotes \<open>l\<close> makes the condition \<open>c\<close>.
\<close>

inductive g_or :: "(string \<Rightarrow> 64 word option) \<Rightarrow> sym list \<Rightarrow> condition \<Rightarrow> bool"
  and g_or_tail :: "(string \<Rightarrow> 64 word option) \<Rightarrow> condition \<Rightarrow> sym list \<Rightarrow> condition \<Rightarrow> bool"
  and g_and :: "(string \<Rightarrow> 64 word option) \<Rightarrow> sym list \<Rightarrow> condition \<Rightarrow> bool"
  and g_and_tail :: "(string \<Rightarrow> 64 word option) \<Rightarrow> condition \<Rightarrow> sym list \<Rightarrow> condition \<Rightarrow> bool"
  and g_not :: "(string \<Rightarrow> 64 word option) \<Rightarrow> sym list \<Rightarrow> condition \<Rightarrow> bool"
  and g_factor :: "(string \<Rightarrow> 64 word option) \<Rightarrow> sym list \<Rightarrow> condition \<Rightarrow> bool"
  for pf where
  g_or_chain: "g_and pf w l \<Longrightarrow> g_or_tail pf l u c \<Longrightarrow> g_or pf (w @ u) c"
| g_or_end: "g_or_tail pf l [] l"
| g_or_more: "g_and pf w r \<Longrightarrow> g_or_tail pf (Logical OpOr l r) u c \<Longrightarrow>
     g_or_tail pf l (kw ''OR'' # w @ u) c"
| g_and_chain: "g_not pf w l \<Longrightarrow> g_and_tail pf l u c \<Longrightarrow> g_and pf (w @ u) c"
| g_and_end: "g_and_tail pf l [] l"
| g_and_more: "g_not pf w r \<Longrightarrow> g_and_tail pf (Logical OpAnd l r) u c \<Longrightarrow>
     g_and_tail pf l (kw ''AND'' # w @ u) c"
| g_negated: "g_factor pf w c \<Longrightarrow> g_not pf (kw ''NOT'' # w) (NotC c)"
| g_plain_factor: "g_factor pf w c \<Longrightarrow> g_not pf w c"
| g_paren: "g_or pf w c \<Longrightarrow> g_factor pf (sLP # w @ [sRP]) c"
| g_predicate: "g_pred pf w c \<Longrightarrow> g_factor pf w c"

lemma cond_sound:
  "(\<forall>p x q. pok p \<longrightarrow> cond_f pf n p = Inr (x, q) \<longrightarrow> (\<exists>w. steps_to p w q \<and> g_or pf w x))
   \<and> (\<forall>l p x q. pok p \<longrightarrow> or_loop pf n l p = Inr (x, q) \<longrightarrow> (\<exists>w. steps_to p w q \<and> g_or_tail pf l w x))
   \<and> (\<forall>p x q. pok p \<longrightarrow> and_term_f pf n p = Inr (x, q) \<longrightarrow> (\<exists>w. steps_to p w q \<and> g_and pf w x))
   \<and> (\<forall>l p x q. pok p \<longrightarrow> and_loop pf n l p = Inr (x, q) \<longrightarrow> (\<exists>w. steps_to p w q \<and> g_and_tail pf l w x))
   \<and> (\<forall>p x q. pok p \<longrightarrow> not_factor_f pf n p = Inr (x, q) \<longrightarrow> (\<exists>w. steps_to p w q \<and> g_not pf w x))
   \<and> (\<forall>p x q. pok p \<longrightarrow> factor_f pf n p = Inr (x, q) \<longrightarrow> (\<exists>w. steps_to p w q \<and> g_factor pf w x))"
proof (induction n)
  case 0
  then show ?case by simp
next
  case (Suc n)
  then have orS: "\<And>p x q. pok p \<Longrightarrow> cond_f pf n p = Inr (x, q) \<Longrightarrow> \<exists>w. steps_to p w q \<and> g_or pf w x"
    and ortS: "\<And>l p x q. pok p \<Longrightarrow> or_loop pf n l p = Inr (x, q) \<Longrightarrow> \<exists>w. steps_to p w q \<and> g_or_tail pf l w x"
    and andS: "\<And>p x q. pok p \<Longrightarrow> and_term_f pf n p = Inr (x, q) \<Longrightarrow> \<exists>w. steps_to p w q \<and> g_and pf w x"
    and andtS: "\<And>l p x q. pok p \<Longrightarrow> and_loop pf n l p = Inr (x, q) \<Longrightarrow> \<exists>w. steps_to p w q \<and> g_and_tail pf l w x"
    and notS: "\<And>p x q. pok p \<Longrightarrow> not_factor_f pf n p = Inr (x, q) \<Longrightarrow> \<exists>w. steps_to p w q \<and> g_not pf w x"
    and facS: "\<And>p x q. pok p \<Longrightarrow> factor_f pf n p = Inr (x, q) \<Longrightarrow> \<exists>w. steps_to p w q \<and> g_factor pf w x"
    by blast+
  note pk = steps_to_pok
  have "\<exists>w. steps_to p w q \<and> g_or pf w x" if "pok p" "cond_f pf (Suc n) p = Inr (x, q)" for p x q
  proof -
    from that(2) obtain l p1 where "and_term_f pf n p = Inr (l, p1)" "or_loop pf n l p1 = Inr (x, q)"
      by (auto simp: res_simps)
    then show ?thesis using andS [OF that(1)] ortS [OF pk] steps_to_trans g_or_chain by metis
  qed
  moreover have "\<exists>w. steps_to p w q \<and> g_or_tail pf l w x"
    if "pok p" "or_loop pf (Suc n) l p = Inr (x, q)" for l p x q
  proof (rule keyword_cases [OF that(1), of "''OR''"])
    fix p1 assume a: "accept_keyword ''OR'' p = (True, p1)" "steps_to p [kw ''OR''] p1"
    with that(2) obtain r p2 where r: "and_term_f pf n p1 = Inr (r, p2)"
      "or_loop pf n (Logical OpOr l r) p2 = Inr (x, q)"
      by (auto simp: res_simps)
    from andS [OF pk [OF a(2)] r(1)] obtain w where w: "steps_to p1 w p2" "g_and pf w r" by blast
    from ortS [OF pk [OF w(1)] r(2)] obtain u where
      u: "steps_to p2 u q" "g_or_tail pf (Logical OpOr l r) u x" by blast
    have "steps_to p ([kw ''OR''] @ w @ u) q" using a(2) w(1) u(1) steps_to_trans by blast
    with g_or_more [OF w(2) u(2)] show ?thesis by auto
  next
    assume "accept_keyword ''OR'' p = (False, p)"
    with that have "x = l \<and> q = p" by simp
    with g_or_end [of pf l] steps_to_refl [OF that(1)] show ?thesis by blast
  qed
  moreover have "\<exists>w. steps_to p w q \<and> g_and pf w x"
    if "pok p" "and_term_f pf (Suc n) p = Inr (x, q)" for p x q
  proof -
    from that(2) obtain l p1 where "not_factor_f pf n p = Inr (l, p1)" "and_loop pf n l p1 = Inr (x, q)"
      by (auto simp: res_simps)
    then show ?thesis using notS [OF that(1)] andtS [OF pk] steps_to_trans g_and_chain by metis
  qed
  moreover have "\<exists>w. steps_to p w q \<and> g_and_tail pf l w x"
    if "pok p" "and_loop pf (Suc n) l p = Inr (x, q)" for l p x q
  proof (rule keyword_cases [OF that(1), of "''AND''"])
    fix p1 assume a: "accept_keyword ''AND'' p = (True, p1)" "steps_to p [kw ''AND''] p1"
    with that(2) obtain r p2 where r: "not_factor_f pf n p1 = Inr (r, p2)"
      "and_loop pf n (Logical OpAnd l r) p2 = Inr (x, q)"
      by (auto simp: res_simps)
    from notS [OF pk [OF a(2)] r(1)] obtain w where w: "steps_to p1 w p2" "g_not pf w r" by blast
    from andtS [OF pk [OF w(1)] r(2)] obtain u where
      u: "steps_to p2 u q" "g_and_tail pf (Logical OpAnd l r) u x" by blast
    have "steps_to p ([kw ''AND''] @ w @ u) q" using a(2) w(1) u(1) steps_to_trans by blast
    with g_and_more [OF w(2) u(2)] show ?thesis by auto
  next
    assume "accept_keyword ''AND'' p = (False, p)"
    with that have "x = l \<and> q = p" by simp
    with g_and_end [of pf l] steps_to_refl [OF that(1)] show ?thesis by blast
  qed
  moreover have "\<exists>w. steps_to p w q \<and> g_not pf w x"
    if "pok p" "not_factor_f pf (Suc n) p = Inr (x, q)" for p x q
  proof (rule keyword_cases [OF that(1), of "''NOT''"])
    fix p1 assume a: "accept_keyword ''NOT'' p = (True, p1)" "steps_to p [kw ''NOT''] p1"
    with that(2) obtain c where c: "factor_f pf n p1 = Inr (c, q)" "x = NotC c"
      by (auto simp: res_simps)
    from facS [OF pk [OF a(2)] c(1)] obtain w where "steps_to p1 w q" "g_factor pf w c" by blast
    then show ?thesis using steps_to_trans [OF a(2)] c(2) g_negated by fastforce
  next
    assume "accept_keyword ''NOT'' p = (False, p)"
    with that facS show ?thesis using g_plain_factor by fastforce
  qed
  moreover have "\<exists>w. steps_to p w q \<and> g_factor pf w x"
    if "pok p" "factor_f pf (Suc n) p = Inr (x, q)" for p x q
  proof (cases "t_kind (cur p) = TokLParen")
    case True
    then have s0: "steps_to p [sLP] (skip p)"
      using skip_steps [OF that(1)] cur_ok [OF that(1)] by (auto simp: sym_of_def)
    from that(2) True obtain p1 t where c: "cond_f pf n (skip p) = Inr (x, p1)"
      and r: "expect TokRParen (quoted '')'') p1 = Inr (t, q)"
      by (auto simp: res_simps)
    from orS [OF pk [OF s0] c] obtain w where w: "steps_to (skip p) w p1" "g_or pf w x" by blast
    have "steps_to p1 [sRP] q" using expect_sound [OF r pk [OF w(1)]] by auto
    then have "steps_to p ([sLP] @ w @ [sRP]) q" using s0 w(1) steps_to_trans by blast
    with g_paren [OF w(2)] show ?thesis by auto
  next
    case False
    with that have "parse_predicate pf p = Inr (x, q)" by simp
    from parse_predicate_sound [OF that(1) this] show ?thesis using g_predicate by blast
  qed
  ultimately show ?case by blast
qed

text \<open>
  A word is parsed with fuel five times its length and a rank for each production. A
  condition ends before a symbol that is neither a dot nor an operator word that would extend
  it.
\<close>

abbreviation and_fol :: "sym \<Rightarrow> bool" where
  "and_fol s \<equiv> fst s \<noteq> TokDot \<and> s \<noteq> kw ''AND''"

abbreviation cond_fol :: "sym \<Rightarrow> bool" where
  "cond_fol s \<equiv> fst s \<noteq> TokDot \<and> s \<noteq> kw ''AND'' \<and> s \<noteq> kw ''OR''"

definition parses_to ::
  "(parser \<Rightarrow> parse_error + 'a \<times> parser) \<Rightarrow> sym list \<Rightarrow> (sym \<Rightarrow> bool) \<Rightarrow> 'a \<Rightarrow> bool" where
  "parses_to f w fol x \<longleftrightarrow> (\<forall>p v. pok p \<longrightarrow> view p = w @ v \<longrightarrow> v \<noteq> [] \<longrightarrow> fol (hd v) \<longrightarrow>
     (\<exists>p'. f p = Inr (x, p') \<and> steps_to p w p'))"

lemma parses_toI:
  assumes "\<And>p v. pok p \<Longrightarrow> view p = w @ v \<Longrightarrow> v \<noteq> [] \<Longrightarrow> fol (hd v) \<Longrightarrow>
    \<exists>p'. f p = Inr (x, p') \<and> steps_to p w p'"
  shows "parses_to f w fol x"
  using assms by (simp add: parses_to_def)

lemma parses_toE:
  assumes "parses_to f w fol x" "pok p" "view p = w @ v" "v \<noteq> []" "fol (hd v)"
  obtains p' where "f p = Inr (x, p')" "steps_to p w p'" "view p' = v" "pok p'"
  using assms steps_to_view steps_to_pok unfolding parses_to_def by metis

text \<open>The chains: an operand, then a tail that starts with no operand symbol.\<close>

lemma tail_fol:
  "g_or_tail pf l u c \<Longrightarrow> u = [] \<or> and_fol (hd u)"
  "g_and_tail pf l u c \<Longrightarrow> u = [] \<or> fst (hd u) \<noteq> TokDot"
  by (auto elim: g_or_tail.cases g_and_tail.cases)

lemma g_pred_head: "g_pred pf w c \<Longrightarrow> w \<noteq> [] \<and> fst (hd w) = TokIdent"
  by (auto elim!: g_pred.cases simp: g_column_word)

lemma g_factor_head: "g_factor pf w c \<Longrightarrow> w \<noteq> [] \<and> fst (hd w) \<noteq> TokKeyword"
  by (auto elim!: g_factor.cases dest: g_pred_head)

lemma cond_words:
  "g_or pf w c \<Longrightarrow> w \<noteq> []" "g_or_tail pf l w c \<Longrightarrow> True" "g_and pf w c \<Longrightarrow> w \<noteq> []"
  "g_and_tail pf l w c \<Longrightarrow> True" "g_not pf w c \<Longrightarrow> w \<noteq> []" "g_factor pf w c \<Longrightarrow> w \<noteq> []"
  by (induction rule: g_or_g_or_tail_g_and_g_and_tail_g_not_g_factor.inducts)
    (auto dest: g_pred_head)

lemma parses_bind:
  assumes "parses_to f w fol l" "parses_to (h l) u fol' c"
    and "\<And>s. u = [] \<Longrightarrow> fol' s \<Longrightarrow> fol s" and "u \<noteq> [] \<Longrightarrow> fol (hd u)"
  shows "parses_to (\<lambda>p. bind_res (f p) (\<lambda>(l, p). h l p)) (w @ u) fol' c"
proof (rule parses_toI)
  fix p v assume v: "pok p" "view p = (w @ u) @ v" "v \<noteq> []" "fol' (hd v)"
  then have "fol (hd (u @ v))" using assms(3,4) by (cases u) auto
  then obtain p1 where p1: "f p = Inr (l, p1)" "steps_to p w p1" "view p1 = u @ v" "pok p1"
    using parses_toE [OF assms(1) v(1), of "u @ v"] v by auto
  from parses_toE [OF assms(2) p1(4,3) v(3,4)] obtain p' where
    "h l p1 = Inr (c, p')" "steps_to p1 u p'" by blast
  with p1 steps_to_trans show "\<exists>p'. bind_res (f p) (\<lambda>(l, p). h l p) = Inr (c, p') \<and> steps_to p (w @ u) p'"
    by fastforce
qed

lemma chain_complete:
  assumes "parses_to f w fol l" "parses_to (h l) u fol' c" "\<And>s. fol' s \<Longrightarrow> fol s"
    and "u = [] \<or> fol (hd u)"
  shows "parses_to (\<lambda>p. bind_res (f p) (\<lambda>(l, p). h l p)) (w @ u) fol' c"
  by (rule parses_bind [of f w fol l h u fol' c, OF assms(1,2)]) (use assms(3,4) in auto)

lemma operator_complete:
  assumes "parses_to f w fol r" "parses_to (h r) u fol' c" "\<And>s. fol' s \<Longrightarrow> fol s"
    and "u = [] \<or> fol (hd u)"
  shows "parses_to (\<lambda>p. let (ok, p1) = accept_keyword k p
     in if ok then bind_res (f p1) (\<lambda>(r, p). h r p) else d p) (kw k # w @ u) fol' c"
proof (rule parses_toI)
  fix p v assume v: "pok p" "view p = (kw k # w @ u) @ v" "v \<noteq> []" "fol' (hd v)"
  then have v0: "view p = kw k # (w @ u) @ v" by simp
  from accept_keyword_complete [OF v(1) v0] obtain p1 where
    a: "accept_keyword k p = (True, p1)" "steps_to p [kw k] p1" by blast
  have "view p1 = (w @ u) @ v" using steps_to_view [OF a(2)] v0 by simp
  with parses_toE [OF chain_complete [of f w fol r h u fol' c, OF assms] steps_to_pok [OF a(2)] _ v(3,4)] obtain p' where
    "bind_res (f p1) (\<lambda>(l, p). h l p) = Inr (c, p')" "steps_to p1 (w @ u) p'" by blast
  with a steps_to_trans [OF a(2)]
  show "\<exists>p'. (let (ok, p1) = accept_keyword k p
     in if ok then bind_res (f p1) (\<lambda>(r, p). h r p) else d p) = Inr (c, p') \<and>
     steps_to p (kw k # w @ u) p'" by fastforce
qed

lemma no_operator_complete:
  assumes "\<And>s. fol s \<Longrightarrow> s \<noteq> kw k"
  shows "parses_to (\<lambda>p. let (ok, p1) = accept_keyword k p
     in if ok then g p1 else Inr (l, p)) [] fol l"
  by (rule parses_toI) (use assms in \<open>auto simp: accept_keyword_other\<close>)

lemma cond_steps:
  "cond_f pf (Suc n) = (\<lambda>p. bind_res (and_term_f pf n p) (\<lambda>(l, p). or_loop pf n l p))"
  "and_term_f pf (Suc n) = (\<lambda>p. bind_res (not_factor_f pf n p) (\<lambda>(l, p). and_loop pf n l p))"
  "or_loop pf (Suc n) l = (\<lambda>p. let (ok, p1) = accept_keyword ''OR'' p
     in if ok then bind_res (and_term_f pf n p1) (\<lambda>(r, p). or_loop pf n (Logical OpOr l r) p)
        else Inr (l, p))"
  "and_loop pf (Suc n) l = (\<lambda>p. let (ok, p1) = accept_keyword ''AND'' p
     in if ok then bind_res (not_factor_f pf n p1) (\<lambda>(r, p). and_loop pf n (Logical OpAnd l r) p)
        else Inr (l, p))"
  by (simp_all add: fun_eq_iff)

lemma negated_complete:
  assumes "parses_to (factor_f pf n) w (\<lambda>s. fst s \<noteq> TokDot) c"
  shows "parses_to (not_factor_f pf (Suc n)) (kw ''NOT'' # w) (\<lambda>s. fst s \<noteq> TokDot) (NotC c)"
proof (rule parses_toI)
  fix p v assume v: "pok p" "view p = (kw ''NOT'' # w) @ v" "v \<noteq> []" "fst (hd v) \<noteq> TokDot"
  then have v0: "view p = kw ''NOT'' # w @ v" by simp
  from accept_keyword_complete [OF v(1) v0] obtain p1 where
    a: "accept_keyword ''NOT'' p = (True, p1)" "steps_to p [kw ''NOT''] p1" by blast
  have "view p1 = w @ v" using steps_to_view [OF a(2)] v0 by simp
  from parses_toE [OF assms steps_to_pok [OF a(2)] this v(3,4)] obtain p' where
    "factor_f pf n p1 = Inr (c, p')" "steps_to p1 w p'" by blast
  with a steps_to_trans [OF a(2)]
  show "\<exists>p'. not_factor_f pf (Suc n) p = Inr (NotC c, p') \<and> steps_to p (kw ''NOT'' # w) p'"
    by fastforce
qed

lemma plain_factor_complete:
  assumes "parses_to (factor_f pf n) w fol c" "w \<noteq> []" "fst (hd w) \<noteq> TokKeyword"
  shows "parses_to (not_factor_f pf (Suc n)) w fol c"
proof (rule parses_toI)
  fix p v assume v: "pok p" "view p = w @ v" "v \<noteq> []" "fol (hd v)"
  then have "hd (view p) \<noteq> kw ''NOT''" using assms(2,3) by auto
  then have "accept_keyword ''NOT'' p = (False, p)" using v(1) by (simp add: accept_keyword_other)
  with parses_toE [OF assms(1) v]
  show "\<exists>p'. not_factor_f pf (Suc n) p = Inr (c, p') \<and> steps_to p w p'" by fastforce
qed

lemma paren_complete:
  assumes "parses_to (cond_f pf n) w cond_fol c"
  shows "parses_to (factor_f pf (Suc n)) (sLP # w @ [sRP]) (\<lambda>s. fst s \<noteq> TokDot) c"
proof (rule parses_toI)
  fix p v assume v: "pok p" "view p = (sLP # w @ [sRP]) @ v" "v \<noteq> []" "fst (hd v) \<noteq> TokDot"
  then have v0: "view p = sLP # w @ sRP # v" by simp
  have c: "sym_of (cur p) = sLP" using view_Cons [OF v(1) v0] by simp
  then have s0: "steps_to p [sLP] (skip p)" using skip_steps [OF v(1)] by (auto simp: sym_of_def)
  have "view (skip p) = w @ sRP # v" using steps_to_view [OF s0] v0 by simp
  from parses_toE [OF assms steps_to_pok [OF s0] this] obtain p1 where
    p1: "cond_f pf n (skip p) = Inr (c, p1)" "steps_to (skip p) w p1" "view p1 = sRP # v" "pok p1"
    by auto
  from expect_complete [OF p1(4,3)] obtain t p' where
    r: "expect TokRParen (quoted '')'') p1 = Inr (t, p')" "steps_to p1 [sRP] p'" by blast
  have "steps_to p ([sLP] @ w @ [sRP]) p'" using s0 p1(2) r(2) steps_to_trans by blast
  with c p1 r show "\<exists>p'. factor_f pf (Suc n) p = Inr (c, p') \<and> steps_to p (sLP # w @ [sRP]) p'"
    by (auto simp: sym_of_def)
qed

lemma predicate_complete:
  assumes "g_pred pf w c"
  shows "parses_to (factor_f pf (Suc n)) w (\<lambda>s. fst s \<noteq> TokDot) c"
proof (rule parses_toI)
  fix p v assume v: "pok p" "view p = w @ v" "v \<noteq> []" "fst (hd v) \<noteq> TokDot"
  then have "t_kind (cur p) = TokIdent" using g_pred_head [OF assms] by (auto simp: kind_view)
  with parse_predicate_complete [OF v assms]
  show "\<exists>p'. factor_f pf (Suc n) p = Inr (c, p') \<and> steps_to p w p'" by auto
qed

lemma fuel_ge: "(\<forall>n\<ge>Suc m. P n) \<longleftrightarrow> (\<forall>n\<ge>m. P (Suc n))"
  by (metis Suc_le_D Suc_le_mono)

lemma cond_complete_fuel:
  "g_or pf w c \<Longrightarrow> \<forall>n\<ge>Suc (5 * length w + 3). parses_to (cond_f pf n) w cond_fol c"
  "g_or_tail pf l w c \<Longrightarrow> \<forall>n\<ge>Suc (5 * length w). parses_to (or_loop pf n l) w cond_fol c"
  "g_and pf w c \<Longrightarrow> \<forall>n\<ge>Suc (5 * length w + 2). parses_to (and_term_f pf n) w and_fol c"
  "g_and_tail pf l w c \<Longrightarrow> \<forall>n\<ge>Suc (5 * length w). parses_to (and_loop pf n l) w and_fol c"
  "g_not pf w c \<Longrightarrow> \<forall>n\<ge>Suc (5 * length w + 1). parses_to (not_factor_f pf n) w (\<lambda>s. fst s \<noteq> TokDot) c"
  "g_factor pf w c \<Longrightarrow> \<forall>n\<ge>Suc (5 * length w). parses_to (factor_f pf n) w (\<lambda>s. fst s \<noteq> TokDot) c"
proof (induction rule: g_or_g_or_tail_g_and_g_and_tail_g_not_g_factor.inducts)
  case (g_or_chain w l u c)
  show ?case
    unfolding fuel_ge cond_steps
    by (intro allI impI chain_complete [where l = l and fol = and_fol])
      (simp_all add: tail_fol(1) [OF g_or_chain(3)] g_or_chain(2,4))
next
  case (g_or_end l)
  then show ?case unfolding fuel_ge cond_steps by (intro allI impI no_operator_complete) simp
next
  case (g_or_more w r l u c)
  then show ?case
    unfolding fuel_ge cond_steps
    by (intro allI impI operator_complete [where r = r and fol = and_fol])
      (simp_all add: tail_fol(1) [OF g_or_more(3)] g_or_more(2,4))
next
  case (g_and_chain w l u c)
  then show ?case
    unfolding fuel_ge cond_steps
    by (intro allI impI chain_complete [where l = l and fol = "\<lambda>s. fst s \<noteq> TokDot"])
      (simp_all add: tail_fol(2) [OF g_and_chain(3)] g_and_chain(2,4))
next
  case (g_and_end l)
  then show ?case unfolding fuel_ge cond_steps by (intro allI impI no_operator_complete) simp
next
  case (g_and_more w r l u c)
  then show ?case
    unfolding fuel_ge cond_steps
    by (intro allI impI operator_complete [where r = r and fol = "\<lambda>s. fst s \<noteq> TokDot"])
      (simp_all add: tail_fol(2) [OF g_and_more(3)] g_and_more(2,4))
next
  case (g_negated w c)
  show ?case unfolding fuel_ge by (intro allI impI negated_complete) (simp add: g_negated)
next
  case (g_plain_factor w c)
  show ?case
    unfolding fuel_ge
    by (intro allI impI plain_factor_complete)
      (use g_plain_factor g_factor_head [OF g_plain_factor(1)] in simp_all)
next
  case (g_paren w c)
  show ?case unfolding fuel_ge by (intro allI impI paren_complete) (simp add: g_paren)
next
  case (g_predicate w c)
  then show ?case unfolding fuel_ge by (intro allI impI predicate_complete)
qed

lemma parse_condition_complete:
  assumes "pok p" "view p = w @ v" "v \<noteq> []" "cond_fol (hd v)" "g_or pf w c"
  shows "\<exists>p'. parse_condition pf p = Inr (c, p') \<and> steps_to p w p'"
proof -
  have "length w \<le> length (p_toks p)" using view_length_le [of p] assms(2) by simp
  then have "parses_to (cond_f pf (5 * length (p_toks p) + 4)) w cond_fol c"
    using cond_complete_fuel(1) [OF assms(5)] by simp
  from parses_toE [OF this assms(1-4)] show ?thesis unfolding parse_condition_def by metis
qed

lemma parse_condition_sound:
  "pok p \<Longrightarrow> parse_condition pf p = Inr (x, q) \<Longrightarrow> \<exists>w. steps_to p w q \<and> g_or pf w x"
  unfolding parse_condition_def by (rule cond_sound [THEN conjunct1, rule_format])

text \<open>The fuel is never used up: each rank bounds the calls made before a symbol is consumed.\<close>

lemma bind_total:
  assumes "m \<noteq> Inl OutOfFuel"
    and "\<And>x q. m = Inr (x, q) \<Longrightarrow> pok q \<and> length (view q) \<le> k"
    and "\<And>x q. pok q \<Longrightarrow> length (view q) \<le> k \<Longrightarrow> f x q \<noteq> Inl OutOfFuel"
  shows "bind_res m (\<lambda>(x, q). f x q) \<noteq> Inl OutOfFuel"
  using assms by (auto simp: res_simps)

lemma cond_total:
  "(\<forall>p. pok p \<longrightarrow> 5 * length (view p) + 4 \<le> n \<longrightarrow> cond_f pf n p \<noteq> Inl OutOfFuel)
   \<and> (\<forall>l p. pok p \<longrightarrow> 5 * length (view p) + 1 \<le> n \<longrightarrow> or_loop pf n l p \<noteq> Inl OutOfFuel)
   \<and> (\<forall>p. pok p \<longrightarrow> 5 * length (view p) + 3 \<le> n \<longrightarrow> and_term_f pf n p \<noteq> Inl OutOfFuel)
   \<and> (\<forall>l p. pok p \<longrightarrow> 5 * length (view p) + 1 \<le> n \<longrightarrow> and_loop pf n l p \<noteq> Inl OutOfFuel)
   \<and> (\<forall>p. pok p \<longrightarrow> 5 * length (view p) + 2 \<le> n \<longrightarrow> not_factor_f pf n p \<noteq> Inl OutOfFuel)
   \<and> (\<forall>p. pok p \<longrightarrow> 5 * length (view p) + 1 \<le> n \<longrightarrow> factor_f pf n p \<noteq> Inl OutOfFuel)"
proof (induction n)
  case 0
  then show ?case by simp
next
  case (Suc n)
  then have orT: "\<And>p. pok p \<Longrightarrow> 5 * length (view p) + 4 \<le> n \<Longrightarrow> cond_f pf n p \<noteq> Inl OutOfFuel"
    and ortT: "\<And>l p. pok p \<Longrightarrow> 5 * length (view p) + 1 \<le> n \<Longrightarrow> or_loop pf n l p \<noteq> Inl OutOfFuel"
    and andT: "\<And>p. pok p \<Longrightarrow> 5 * length (view p) + 3 \<le> n \<Longrightarrow> and_term_f pf n p \<noteq> Inl OutOfFuel"
    and andtT: "\<And>l p. pok p \<Longrightarrow> 5 * length (view p) + 1 \<le> n \<Longrightarrow> and_loop pf n l p \<noteq> Inl OutOfFuel"
    and notT: "\<And>p. pok p \<Longrightarrow> 5 * length (view p) + 2 \<le> n \<Longrightarrow> not_factor_f pf n p \<noteq> Inl OutOfFuel"
    and facT: "\<And>p. pok p \<Longrightarrow> 5 * length (view p) + 1 \<le> n \<Longrightarrow> factor_f pf n p \<noteq> Inl OutOfFuel"
    by blast+
  have andS: "pok q \<and> length (view q) \<le> length (view p)"
    if "pok p" "and_term_f pf n p = Inr (x, q)" for p x q
    using cond_sound [of pf n] that steps_to_length steps_to_pok by (metis le_add2)
  have notS: "pok q \<and> length (view q) \<le> length (view p)"
    if "pok p" "not_factor_f pf n p = Inr (x, q)" for p x q
    using cond_sound [of pf n] that steps_to_length steps_to_pok by (metis le_add2)
  have kwL: "pok q \<and> length (view p) = Suc (length (view q))" if "steps_to p [k] q" for p k q
    using steps_to_length [OF that] steps_to_pok [OF that] by simp
  have "cond_f pf (Suc n) p \<noteq> Inl OutOfFuel" if "pok p" "5 * length (view p) + 4 \<le> Suc n" for p
    unfolding cond_steps
    by (rule bind_total [OF andT andS ortT]) (use that in auto)
  moreover have "and_term_f pf (Suc n) p \<noteq> Inl OutOfFuel"
    if "pok p" "5 * length (view p) + 3 \<le> Suc n" for p
    unfolding cond_steps
    by (rule bind_total [OF notT notS andtT]) (use that in auto)
  moreover have "or_loop pf (Suc n) l p \<noteq> Inl OutOfFuel"
    if "pok p" "5 * length (view p) + 1 \<le> Suc n" for l p
  proof (rule keyword_cases [OF that(1), of "''OR''"])
    fix q assume a: "accept_keyword ''OR'' p = (True, q)" "steps_to p [kw ''OR''] q"
    have "bind_res (and_term_f pf n q) (\<lambda>(r, p). or_loop pf n (Logical OpOr l r) p)
        \<noteq> Inl OutOfFuel"
      by (rule bind_total [OF andT andS ortT]) (use kwL [OF a(2)] that in auto)
    with a show ?thesis by simp
  qed simp
  moreover have "and_loop pf (Suc n) l p \<noteq> Inl OutOfFuel"
    if "pok p" "5 * length (view p) + 1 \<le> Suc n" for l p
  proof (rule keyword_cases [OF that(1), of "''AND''"])
    fix q assume a: "accept_keyword ''AND'' p = (True, q)" "steps_to p [kw ''AND''] q"
    have "bind_res (not_factor_f pf n q) (\<lambda>(r, p). and_loop pf n (Logical OpAnd l r) p) \<noteq> Inl OutOfFuel"
      by (rule bind_total [OF notT notS andtT]) (use kwL [OF a(2)] that in auto)
    with a show ?thesis by simp
  qed simp
  moreover have "not_factor_f pf (Suc n) p \<noteq> Inl OutOfFuel"
    if "pok p" "5 * length (view p) + 2 \<le> Suc n" for p
  proof (rule keyword_cases [OF that(1), of "''NOT''"])
    fix q assume a: "accept_keyword ''NOT'' p = (True, q)" "steps_to p [kw ''NOT''] q"
    have "factor_f pf n q \<noteq> Inl OutOfFuel" using kwL [OF a(2)] that by (intro facT) auto
    with a show ?thesis by (auto simp: res_simps)
  qed (use that facT in simp)
  moreover have "factor_f pf (Suc n) p \<noteq> Inl OutOfFuel"
    if "pok p" "5 * length (view p) + 1 \<le> Suc n" for p
  proof (cases "t_kind (cur p) = TokLParen")
    case True
    then have "steps_to p [sym_of (cur p)] (skip p)" by (intro skip_steps that) simp
    then have "cond_f pf n (skip p) \<noteq> Inl OutOfFuel" using kwL that by (intro orT) auto
    with True show ?thesis by (auto simp: res_simps expect_total)
  qed (use that parse_predicate_total in simp)
  ultimately show ?case by blast
qed

lemma parse_condition_total: "pok p \<Longrightarrow> parse_condition pf p \<noteq> Inl OutOfFuel"
  unfolding parse_condition_def
  by (rule cond_total [THEN conjunct1, rule_format]) (simp_all add: view_length_le)

interpretation cond: production "parse_condition pf" "g_or pf" cond_fol for pf
  by unfold_locales
    (use parse_condition_sound parse_condition_complete parse_condition_total cond_words(1) in auto)

section \<open>Sequences of productions\<close>

text \<open>
  The methods above the conditions are sequences of calls. \<open>decides f G\<close> joins soundness and
  totality of a method; it and \<open>parses_to\<close> compose along \<open>bind_res\<close> and the keyword tests.
\<close>

definition decides ::
  "(parser \<Rightarrow> parse_error + 'a \<times> parser) \<Rightarrow> (sym list \<Rightarrow> 'a \<Rightarrow> bool) \<Rightarrow> bool" where
  "decides f G \<longleftrightarrow> (\<forall>p. pok p \<longrightarrow> f p \<noteq> Inl OutOfFuel \<and>
     (\<forall>x p'. f p = Inr (x, p') \<longrightarrow> (\<exists>w. steps_to p w p' \<and> G w x)))"

lemma decidesI:
  assumes "\<And>p. pok p \<Longrightarrow> f p \<noteq> Inl OutOfFuel"
    and "\<And>p x p'. pok p \<Longrightarrow> f p = Inr (x, p') \<Longrightarrow> \<exists>w. steps_to p w p' \<and> G w x"
  shows "decides f G"
  using assms by (simp add: decides_def)

lemma decides_total: "decides f G \<Longrightarrow> pok p \<Longrightarrow> f p \<noteq> Inl OutOfFuel"
  by (simp add: decides_def)

lemma decides_sound:
  "decides f G \<Longrightarrow> pok p \<Longrightarrow> f p = Inr (x, p') \<Longrightarrow> \<exists>w. steps_to p w p' \<and> G w x"
  by (simp add: decides_def)

lemma decides_mono: "decides f G \<Longrightarrow> (\<And>w x. G w x \<Longrightarrow> G' w x) \<Longrightarrow> decides f G'"
  unfolding decides_def by meson

lemma decides_return: "decides (\<lambda>p. Inr (x, p)) (\<lambda>w y. w = [] \<and> y = x)"
  by (simp add: decides_def)

lemma decides_bind:
  assumes f: "decides f G" and h: "\<And>x. decides (h x) (H x)"
  shows "decides (\<lambda>p. bind_res (f p) (\<lambda>(x, p). h x p))
    (\<lambda>w y. \<exists>w1 w2 x. w = w1 @ w2 \<and> G w1 x \<and> H x w2 y)"
proof (rule decidesI)
  fix p assume p: "pok p"
  then show "bind_res (f p) (\<lambda>(x, p). h x p) \<noteq> Inl OutOfFuel"
    using decides_sound [OF f p] decides_total [OF f p] decides_total [OF h]
    by (auto simp: res_simps) (meson steps_to_pok)
  fix y p' assume "bind_res (f p) (\<lambda>(x, p). h x p) = Inr (y, p')"
  then obtain x p1 where 1: "f p = Inr (x, p1)" "h x p1 = Inr (y, p')" by (auto simp: res_simps)
  from decides_sound [OF f p 1(1)] obtain w1 where w1: "steps_to p w1 p1" "G w1 x" by blast
  from decides_sound [OF h steps_to_pok [OF w1(1)] 1(2)] obtain w2 where
    w2: "steps_to p1 w2 p'" "H x w2 y" by blast
  show "\<exists>w. steps_to p w p' \<and> (\<exists>w1 w2 x. w = w1 @ w2 \<and> G w1 x \<and> H x w2 y)"
    using steps_to_trans [OF w1(1) w2(1)] w1(2) w2(2) by blast
qed

lemma decides_expect:
  assumes h: "decides h H"
  shows "decides (\<lambda>p. bind_res (expect_keyword k p) h) (\<lambda>w y. \<exists>u. w = kw k # u \<and> H u y)"
proof (rule decidesI)
  fix p assume p: "pok p"
  note k = expect_keyword_sound [OF _ p]
  show "bind_res (expect_keyword k p) h \<noteq> Inl OutOfFuel"
    using decides_total [OF h steps_to_pok [OF k]] by (auto simp: res_simps expect_keyword_total)
  fix y p' assume "bind_res (expect_keyword k p) h = Inr (y, p')"
  then obtain p1 where 1: "expect_keyword k p = Inr p1" "h p1 = Inr (y, p')"
    by (auto simp: res_simps)
  from decides_sound [OF h steps_to_pok [OF k [OF 1(1)]] 1(2)]
  show "\<exists>w. steps_to p w p' \<and> (\<exists>u. w = kw k # u \<and> H u y)"
    using steps_to_trans [OF k [OF 1(1)]] by fastforce
qed

lemma decides_accept:
  assumes f: "decides f F" and g: "decides g G"
  shows "decides (\<lambda>p. let (ok, p) = accept_keyword k p in if ok then f p else g p)
    (\<lambda>w y. (\<exists>u. w = kw k # u \<and> F u y) \<or> G w y)" (is "decides ?m _")
proof (rule decidesI)
  fix p assume p: "pok p"
  show "?m p \<noteq> Inl OutOfFuel"
    by (rule keyword_cases [OF p, of k])
      (use decides_total [OF f] decides_total [OF g p] steps_to_pok in auto)
  fix y p' assume m: "?m p = Inr (y, p')"
  show "\<exists>w. steps_to p w p' \<and> ((\<exists>u. w = kw k # u \<and> F u y) \<or> G w y)"
  proof (rule keyword_cases [OF p, of k])
    fix q assume a: "accept_keyword k p = (True, q)" "steps_to p [kw k] q"
    with m have "f q = Inr (y, p')" by simp
    from decides_sound [OF f steps_to_pok [OF a(2)] this] steps_to_trans [OF a(2)]
    show ?thesis by fastforce
  next
    assume "accept_keyword k p = (False, p)"
    with m decides_sound [OF g p] show ?thesis by auto
  qed
qed

lemma parses_return: "parses_to (\<lambda>p. Inr (x, p)) [] fol x"
  by (rule parses_toI) auto

lemma parses_expect:
  assumes "parses_to h u fol x"
  shows "parses_to (\<lambda>p. bind_res (expect_keyword k p) h) (kw k # u) fol x"
proof (rule parses_toI)
  fix p v assume v: "pok p" "view p = (kw k # u) @ v" "v \<noteq> []" "fol (hd v)"
  then have v0: "view p = kw k # u @ v" by simp
  from expect_keyword_complete [OF v(1) v0] obtain q where
    q: "expect_keyword k p = Inr q" "steps_to p [kw k] q" by blast
  have "view q = u @ v" using steps_to_view [OF q(2)] v0 by simp
  from parses_toE [OF assms steps_to_pok [OF q(2)] this v(3,4)] obtain p' where
    "h q = Inr (x, p')" "steps_to q u p'" by blast
  with q steps_to_trans [OF q(2)]
  show "\<exists>p'. bind_res (expect_keyword k p) h = Inr (x, p') \<and> steps_to p (kw k # u) p'"
    by fastforce
qed

lemma parses_accept:
  assumes "parses_to f u fol x"
  shows "parses_to (\<lambda>p. let (ok, p) = accept_keyword k p in if ok then f p else g p)
    (kw k # u) fol x"
proof (rule parses_toI)
  fix p v assume v: "pok p" "view p = (kw k # u) @ v" "v \<noteq> []" "fol (hd v)"
  then have v0: "view p = kw k # u @ v" by simp
  from accept_keyword_complete [OF v(1) v0] obtain q where
    q: "accept_keyword k p = (True, q)" "steps_to p [kw k] q" by blast
  have "view q = u @ v" using steps_to_view [OF q(2)] v0 by simp
  from parses_toE [OF assms steps_to_pok [OF q(2)] this v(3,4)] obtain p' where
    "f q = Inr (x, p')" "steps_to q u p'" by blast
  with q steps_to_trans [OF q(2)]
  show "\<exists>p'. (let (ok, p) = accept_keyword k p in if ok then f p else g p) = Inr (x, p') \<and>
    steps_to p (kw k # u) p'" by fastforce
qed

lemma parses_skip:
  assumes "parses_to g u fol x" "\<And>s. u = [] \<Longrightarrow> fol s \<Longrightarrow> s \<noteq> kw k"
    and "u \<noteq> [] \<Longrightarrow> hd u \<noteq> kw k"
  shows "parses_to (\<lambda>p. let (ok, p) = accept_keyword k p in if ok then f p else g p) u fol x"
proof (rule parses_toI)
  fix p v assume v: "pok p" "view p = u @ v" "v \<noteq> []" "fol (hd v)"
  then have "hd (view p) \<noteq> kw k" using assms(2,3) by (cases "u = []") auto
  with v(1) have a: "accept_keyword k p = (False, p)" by (simp add: accept_keyword_other)
  from parses_toE [OF assms(1) v] a
  show "\<exists>p'. (let (ok, p) = accept_keyword k p in if ok then f p else g p) = Inr (x, p') \<and>
    steps_to p u p'" by fastforce
qed

context production
begin

lemma decides_item: "decides item G"
  by (rule decidesI) (use item_sound item_total in auto)

lemma decides_list: "decides (\<lambda>p. comma_list item (length (p_toks p)) p) (g_list G)"
  by (rule decidesI) (use comma_list_sound comma_list_total view_length_le in auto)

lemma parses_item: "G w x \<Longrightarrow> (\<And>s. fol' s \<Longrightarrow> fol s) \<Longrightarrow> parses_to item w fol' x"
  by (rule parses_toI) (use item_complete in blast)

end

context list_production
begin

lemma parses_list:
  assumes "g_list G w xs" "\<And>s. fol' s \<Longrightarrow> fol s \<and> fst s \<noteq> TokComma"
  shows "parses_to (\<lambda>p. comma_list item (length (p_toks p)) p) w fol' xs"
proof (rule parses_toI)
  fix p v assume v: "pok p" "view p = w @ v" "v \<noteq> []" "fol' (hd v)"
  then have "length w \<le> length (p_toks p)" using view_length_le [of p] by simp
  with comma_list_complete [OF assms(1) v(1-3)] assms(2) [OF v(4)]
  show "\<exists>p'. comma_list item (length (p_toks p)) p = Inr (xs, p') \<and> steps_to p w p'" by simp
qed

end

section \<open>Joins\<close>

inductive g_join_type :: "sym list \<Rightarrow> join_type \<Rightarrow> bool" where
  "g_join_type [kw ''JOIN''] InnerJoin"
| "g_join_type [kw ''INNER'', kw ''JOIN''] InnerJoin"
| "g_join_type [kw ''LEFT'', kw ''JOIN''] LeftJoin"
| "g_join_type [kw ''LEFT'', kw ''OUTER'', kw ''JOIN''] LeftJoin"
| "g_join_type [kw ''RIGHT'', kw ''JOIN''] RightJoin"
| "g_join_type [kw ''RIGHT'', kw ''OUTER'', kw ''JOIN''] RightJoin"

inductive_simps g_join_type_word: "g_join_type w t"

inductive g_join :: "(string \<Rightarrow> 64 word option) \<Rightarrow> sym list \<Rightarrow> join \<Rightarrow> bool" for pf where
  "g_join_type w t \<Longrightarrow> g_table_ref u r \<Longrightarrow> g_or pf x c \<Longrightarrow>
     g_join pf (w @ u @ kw ''ON'' # x) \<lparr>j_type = t, j_table = r, j_on = c\<rparr>"

inductive g_joins :: "(string \<Rightarrow> 64 word option) \<Rightarrow> sym list \<Rightarrow> join list \<Rightarrow> bool" for pf where
  g_no_join: "g_joins pf [] []"
| g_more_join: "g_join pf w j \<Longrightarrow> g_joins pf u js \<Longrightarrow> g_joins pf (w @ u) (j # js)"

lemma is_keyword_accept:
  "(if is_keyword k p then f (skip p) else g p)
     = (let (ok, p) = accept_keyword k p in if ok then f p else g p)"
  "h (snd (accept_keyword k p)) = (let (ok, p) = accept_keyword k p in if ok then h p else h p)"
  by (simp_all add: accept_keyword_def)

lemma parse_join_type_accept:
  "parse_join_type = (\<lambda>p.
     let (ok, p) = accept_keyword ''INNER'' p
     in if ok then bind_res (expect_keyword ''JOIN'' p) (\<lambda>p. Inr (InnerJoin, p))
     else let (ok, p) = accept_keyword ''LEFT'' p
     in if ok then
          (let (ok, p) = accept_keyword ''OUTER'' p
           in if ok then bind_res (expect_keyword ''JOIN'' p) (\<lambda>p. Inr (LeftJoin, p))
              else bind_res (expect_keyword ''JOIN'' p) (\<lambda>p. Inr (LeftJoin, p)))
     else let (ok, p) = accept_keyword ''RIGHT'' p
     in if ok then
          (let (ok, p) = accept_keyword ''OUTER'' p
           in if ok then bind_res (expect_keyword ''JOIN'' p) (\<lambda>p. Inr (RightJoin, p))
              else bind_res (expect_keyword ''JOIN'' p) (\<lambda>p. Inr (RightJoin, p)))
     else bind_res (expect_keyword ''JOIN'' p) (\<lambda>p. Inr (InnerJoin, p)))"
  by (rule ext) (simp add: parse_join_type_def accept_keyword_def)

lemma decides_join_type: "decides parse_join_type g_join_type"
  unfolding parse_join_type_accept
  by (rule decides_mono, (rule decides_accept decides_expect decides_return)+)
    (auto simp: g_join_type_word)

lemma parses_join_type: "g_join_type w t \<Longrightarrow> parses_to parse_join_type w (\<lambda>_. True) t"
  unfolding parse_join_type_accept
  by (erule g_join_type.cases; hypsubst)
    (assumption | rule parses_accept parses_expect parses_return parses_skip | simp)+

lemma parse_join_seq:
  "parse_join pf = (\<lambda>p. bind_res (parse_join_type p) (\<lambda>(jt, p).
     bind_res (parse_table_ref p) (\<lambda>(ref, p).
     bind_res (expect_keyword ''ON'' p) (\<lambda>p.
     bind_res (parse_condition pf p) (\<lambda>(cond, p).
       Inr (\<lparr>j_type = jt, j_table = ref, j_on = cond\<rparr>, p))))))"
  by (simp add: parse_join_def fun_eq_iff)

lemma decides_join: "decides (parse_join pf) (g_join pf)"
  unfolding parse_join_seq
  by (rule decides_mono, (rule decides_bind decides_expect decides_return decides_join_type
        tab.decides_item cond.decides_item)+)
    (auto intro: g_join.intros)

lemma parses_join:
  assumes "g_join pf w j"
  shows "parses_to (parse_join pf) w cond_fol j"
  using assms
proof cases
  case (1 w1 t u r x c)
  have "parses_to (parse_join pf) (w1 @ u @ (kw ''ON'' # x @ [])) cond_fol j"
    unfolding parse_join_seq 1(2)
    by (rule parses_bind [OF parses_join_type [OF 1(3)]]
        parses_bind [OF tab.parses_item [OF 1(4), of table_fol]] parses_expect
        parses_bind [OF cond.parses_item [OF 1(5), of cond_fol]] parses_return | simp)+
  then show ?thesis by (simp add: 1)
qed

abbreviation join_start :: "sym \<Rightarrow> bool" where
  "join_start s \<equiv> s = kw ''JOIN'' \<or> s = kw ''INNER'' \<or> s = kw ''LEFT'' \<or> s = kw ''RIGHT''"

abbreviation joins_fol :: "sym \<Rightarrow> bool" where
  "joins_fol s \<equiv> cond_fol s \<and> \<not> join_start s"

lemma g_join_head: "g_join pf w j \<Longrightarrow> w \<noteq> [] \<and> join_start (hd w)"
  by (auto elim!: g_join.cases simp: g_join_type_word)

lemma g_joins_head: "g_joins pf w js \<Longrightarrow> w = [] \<or> join_start (hd w)"
  by (erule g_joins.cases) (auto dest: g_join_head)

lemma at_join_start_view: "pok p \<Longrightarrow> at_join_start p \<longleftrightarrow> join_start (hd (view p))"
  by (simp add: at_join_start_def is_keyword_view)

lemma join_loop_complete:
  "g_joins pf w js \<Longrightarrow> \<forall>n\<ge>Suc (length w). parses_to (join_loop pf n) w joins_fol js"
proof (induction rule: g_joins.induct)
  case g_no_join
  show ?case unfolding fuel_ge
    by (intro allI impI parses_toI) (auto simp: at_join_start_view)
next
  case (g_more_join w j u js)
  show ?case unfolding fuel_ge
  proof (intro allI impI parses_toI)
    fix n p v assume n: "length (w @ u) \<le> n"
      and v: "pok p" "view p = (w @ u) @ v" "v \<noteq> []" "joins_fol (hd v)"
    have "length w > 0" using g_join_head [OF g_more_join(1)] by simp
    with n have "Suc (length u) \<le> n" by (simp only: length_append)
    then have u: "parses_to (join_loop pf n) u joins_fol js" using g_more_join(3) by blast
    have "parses_to (\<lambda>p. bind_res (join_loop pf n p) (\<lambda>(js, p). Inr (j # js, p))) (u @ [])
      joins_fol (j # js)"
      by (rule parses_bind [OF u] parses_return | simp)+
    then have "parses_to (\<lambda>p. bind_res (parse_join pf p) (\<lambda>(j, p).
      bind_res (join_loop pf n p) (\<lambda>(js, p). Inr (j # js, p)))) (w @ u) joins_fol (j # js)"
      by (intro parses_bind [OF parses_join [OF g_more_join(1)]])
        (use g_joins_head [OF g_more_join(2)] in auto)
    from parses_toE [OF this v] obtain p' where "bind_res (parse_join pf p) (\<lambda>(j, p).
      bind_res (join_loop pf n p) (\<lambda>(js, p). Inr (j # js, p))) = Inr (j # js, p')"
      "steps_to p (w @ u) p'" by blast
    moreover have "at_join_start p"
      using v(1,2) g_join_head [OF g_more_join(1)] by (simp add: at_join_start_view)
    ultimately show "\<exists>p'. join_loop pf (Suc n) p = Inr (j # js, p') \<and> steps_to p (w @ u) p'"
      by simp
  qed
qed

lemma join_loop_decides:
  "pok p \<Longrightarrow> length (view p) \<le> n \<Longrightarrow> join_loop pf n p \<noteq> Inl OutOfFuel \<and>
     (\<forall>js q. join_loop pf n p = Inr (js, q) \<longrightarrow> (\<exists>w. steps_to p w q \<and> g_joins pf w js))"
proof (induction n arbitrary: p)
  case 0
  then show ?case by simp
next
  case (Suc n)
  show ?case
  proof (cases "at_join_start p")
    case False
    have "steps_to p [] p \<and> g_joins pf [] []" using Suc.prems(1) g_no_join by simp
    then have "\<exists>w. steps_to p w p \<and> g_joins pf w []" by blast
    with False show ?thesis by simp
  next
    case True
    have IH: "join_loop pf n q \<noteq> Inl OutOfFuel \<and>
      (\<forall>js r. join_loop pf n q = Inr (js, r) \<longrightarrow> (\<exists>u. steps_to p (w @ u) r \<and> g_joins pf u js))"
      if "steps_to p w q" "g_join pf w j" for w q j
    proof -
      have "length w > 0" using g_join_head [OF that(2)] by simp
      then have "length (view q) \<le> n" using steps_to_length [OF that(1)] Suc.prems(2) by linarith
      from Suc.IH [OF steps_to_pok [OF that(1)] this] show ?thesis
        using steps_to_trans [OF that(1)] by blast
    qed
    note j = decides_sound [OF decides_join Suc.prems(1)]
    show ?thesis
    proof (intro conjI allI impI notI)
      assume "join_loop pf (Suc n) p = Inl OutOfFuel"
      with True decides_total [OF decides_join Suc.prems(1)] obtain j q where
        "parse_join pf p = Inr (j, q)" "join_loop pf n q = Inl OutOfFuel"
        by (auto simp: res_simps)
      then show False using j IH by blast
    next
      fix js r assume "join_loop pf (Suc n) p = Inr (js, r)"
      with True obtain j' q js' where 1: "parse_join pf p = Inr (j', q)"
        "join_loop pf n q = Inr (js', r)" "js = j' # js'" by (auto simp: res_simps)
      from j [OF 1(1)] obtain w where w: "steps_to p w q" "g_join pf w j'" by blast
      from IH [OF w] 1(2) obtain u where "steps_to p (w @ u) r" "g_joins pf u js'" by blast
      with w(2) 1(3) show "\<exists>w. steps_to p w r \<and> g_joins pf w js" using g_more_join by blast
    qed
  qed
qed

lemma decides_joins: "decides (\<lambda>p. join_loop pf (length (p_toks p)) p) (g_joins pf)"
  by (rule decidesI) (use join_loop_decides view_length_le in blast)+

lemma parses_joins:
  assumes "g_joins pf w js"
  shows "parses_to (\<lambda>p. join_loop pf (length (p_toks p)) p) w joins_fol js"
proof (rule parses_toI)
  fix p v assume v: "pok p" "view p = w @ v" "v \<noteq> []" "joins_fol (hd v)"
  then have "Suc (length w) \<le> length (p_toks p)" using view_length_le [of p] by (cases v) auto
  then have "parses_to (join_loop pf (length (p_toks p))) w joins_fol js"
    using join_loop_complete [OF assms] by blast
  from parses_toE [OF this v]
  show "\<exists>p'. join_loop pf (length (p_toks p)) p = Inr (js, p') \<and> steps_to p w p'" by blast
qed

section \<open>Clauses and the query\<close>

inductive g_columns_clause :: "sym list \<Rightarrow> bool \<times> select_item list \<Rightarrow> bool" where
  "g_columns_clause [sStar] (True, [])"
| "g_list g_select_item w items \<Longrightarrow> g_columns_clause w (False, items)"

inductive g_where :: "(string \<Rightarrow> 64 word option) \<Rightarrow> sym list \<Rightarrow> condition option \<Rightarrow> bool" for pf where
  "g_where pf [] None"
| "g_or pf w c \<Longrightarrow> g_where pf (kw ''WHERE'' # w) (Some c)"

inductive g_group :: "sym list \<Rightarrow> column list \<Rightarrow> bool" where
  "g_group [] []"
| "g_list g_column w cs \<Longrightarrow> g_group (kw ''GROUP'' # kw ''BY'' # w) cs"

inductive g_order :: "sym list \<Rightarrow> order_item list \<Rightarrow> bool" where
  "g_order [] []"
| "g_list g_order_item w os \<Longrightarrow> g_order (kw ''ORDER'' # kw ''BY'' # w) os"

text \<open>A limit or an offset is a number that is an integer in the range of \<open>int64\<close>, not negative.\<close>

definition non_neg_int :: "string \<Rightarrow> int \<Rightarrow> bool" where
  "non_neg_int s v \<longleftrightarrow> parse_int64 s = Some v \<and> 0 \<le> v"

inductive g_limit :: "sym list \<Rightarrow> int option \<times> int option \<Rightarrow> bool" where
  "g_limit [] (None, None)"
| "non_neg_int s l \<Longrightarrow> g_limit [kw ''LIMIT'', (TokNumber, s)] (Some l, None)"
| "non_neg_int s l \<Longrightarrow> non_neg_int t off \<Longrightarrow>
     g_limit [kw ''LIMIT'', (TokNumber, s), kw ''OFFSET'', (TokNumber, t)] (Some l, Some off)"

inductive g_query :: "(string \<Rightarrow> 64 word option) \<Rightarrow> sym list \<Rightarrow> query \<Rightarrow> bool" for pf where
  "g_columns_clause w1 (star, items) \<Longrightarrow> g_table_ref w2 from_ref \<Longrightarrow> g_joins pf w3 joins \<Longrightarrow>
   g_where pf w4 wh \<Longrightarrow> g_group w5 group_by \<Longrightarrow> g_order w6 order_by \<Longrightarrow> g_limit w7 (limit, offset) \<Longrightarrow>
   g_query pf (kw ''SELECT'' # w1 @ kw ''FROM'' # w2 @ w3 @ w4 @ w5 @ w6 @ w7)
     \<lparr>q_star = star, q_columns = items, q_from = from_ref, q_joins = joins, q_where = wh,
       q_group_by = group_by, q_order_by = order_by, q_limit = limit, q_offset = offset\<rparr>"

inductive_simps g_columns_clause_word: "g_columns_clause w x"
inductive_simps g_where_word: "g_where pf w x"
inductive_simps g_group_word: "g_group w x"
inductive_simps g_order_word: "g_order w x"
inductive_simps g_limit_word: "g_limit w x"

lemma clause_heads:
  "g_where pf w4 wh \<Longrightarrow> w4 = [] \<or> hd w4 = kw ''WHERE''"
  "g_group w5 gs \<Longrightarrow> w5 = [] \<or> hd w5 = kw ''GROUP''"
  "g_order w6 os \<Longrightarrow> w6 = [] \<or> hd w6 = kw ''ORDER''"
  "g_limit w7 lim \<Longrightarrow> w7 = [] \<or> hd w7 = kw ''LIMIT''"
  by (auto simp: g_where_word g_group_word g_order_word g_limit_word)

lemma decides_columns_clause: "decides parse_columns_clause g_columns_clause"
proof (rule decidesI)
  note list = item.decides_list [folded parse_select_list_def]
  fix p assume p: "pok p"
  show "parse_columns_clause p \<noteq> Inl OutOfFuel"
    using decides_total [OF list p] by (auto simp: parse_columns_clause_def res_simps)
  fix x p' assume x: "parse_columns_clause p = Inr (x, p')"
  show "\<exists>w. steps_to p w p' \<and> g_columns_clause w x"
  proof (cases "t_kind (cur p) = TokStar")
    case True
    then have "steps_to p [sStar] (skip p)"
      using skip_steps [OF p] cur_ok [OF p] by (auto simp: sym_of_def)
    with True x show ?thesis by (auto simp: parse_columns_clause_def g_columns_clause_word)
  next
    case False
    with x decides_sound [OF list p] show ?thesis
      by (auto simp: parse_columns_clause_def res_simps g_columns_clause_word)
  qed
qed

lemma g_list_head:
  assumes "\<And>w x. G w x \<Longrightarrow> w \<noteq> [] \<and> P (hd w)"
  shows "g_list G w xs \<Longrightarrow> w \<noteq> [] \<and> P (hd w)"
  by (erule g_list.cases) (use assms in fastforce)+

lemma g_select_item_head: "g_select_item w x \<Longrightarrow> w \<noteq> [] \<and> fst (hd w) \<noteq> TokStar"
  by (erule g_select_item.cases) (auto simp: g_column_word)

lemma parses_columns_clause:
  assumes "g_columns_clause w x"
  shows "parses_to parse_columns_clause w (\<lambda>s. s = kw ''FROM'') x"
  using assms
proof cases
  case 1
  show ?thesis
  proof (rule parses_toI)
    fix p v assume v: "pok p" "view p = w @ v"
    then have "sym_of (cur p) = sStar" using view_Cons [OF v(1)] 1 by simp
    then show "\<exists>p'. parse_columns_clause p = Inr (x, p') \<and> steps_to p w p'"
      using skip_steps [OF v(1)] 1 by (auto simp: parse_columns_clause_def sym_of_def)
  qed
next
  case (2 items)
  show ?thesis
  proof (rule parses_toI)
    fix p v assume v: "pok p" "view p = w @ v" "v \<noteq> []" "hd v = kw ''FROM''"
    then have "t_kind (cur p) \<noteq> TokStar"
      using g_list_head [OF g_select_item_head 2(2)] by (auto simp: kind_view)
    moreover have "parses_to parse_select_list w (\<lambda>s. s = kw ''FROM'') items"
      unfolding parse_select_list_def by (rule item.parses_list [OF 2(2)]) simp
    then obtain p' where "parse_select_list p = Inr (items, p')" "steps_to p w p'"
      by (rule parses_toE) (use v in auto)
    ultimately show "\<exists>p'. parse_columns_clause p = Inr (x, p') \<and> steps_to p w p'"
      using 2 by (auto simp: parse_columns_clause_def)
  qed
qed

lemma decides_case:
  "(\<And>a b. decides (f a b) (G a b)) \<Longrightarrow>
     decides (\<lambda>p. case x of (a, b) \<Rightarrow> f a b p) (case x of (a, b) \<Rightarrow> G a b)"
  by (cases x) simp

lemma decides_where: "decides (parse_where_clause pf) (g_where pf)"
proof -
  have "parse_where_clause pf = (\<lambda>p. let (ok, p) = accept_keyword ''WHERE'' p
    in if ok then bind_res (parse_condition pf p) (\<lambda>(c, p). Inr (Some c, p)) else Inr (None, p))"
    by (simp add: parse_where_clause_def fun_eq_iff)
  then show ?thesis
    by (simp only:) (rule decides_mono,
      (rule decides_accept decides_bind decides_return cond.decides_item)+,
      auto simp: g_where_word)
qed

lemma parses_where:
  assumes "g_where pf w wh"
  shows "parses_to (parse_where_clause pf) w (\<lambda>s. cond_fol s \<and> s \<noteq> kw ''WHERE'') wh"
proof -
  have seq: "parse_where_clause pf = (\<lambda>p. let (ok, p) = accept_keyword ''WHERE'' p
    in if ok then bind_res (parse_condition pf p) (\<lambda>(c, p). Inr (Some c, p)) else Inr (None, p))"
    by (simp add: parse_where_clause_def fun_eq_iff)
  from assms show ?thesis
  proof cases
    case 1
    show ?thesis unfolding seq 1 by (rule parses_skip parses_return | simp)+
  next
    case (2 u c)
    have "parses_to (parse_where_clause pf) (kw ''WHERE'' # u @ [])
      (\<lambda>s. cond_fol s \<and> s \<noteq> kw ''WHERE'') (Some c)"
      unfolding seq
      by (rule parses_accept parses_bind [OF cond.parses_item [OF 2(3), of cond_fol]]
          parses_return | simp)+
    with 2 show ?thesis by simp
  qed
qed

lemma group_seq:
  "parse_group_clause = (\<lambda>p. let (ok, p) = accept_keyword ''GROUP'' p
     in if ok then bind_res (expect_keyword ''BY'' p) parse_column_list else Inr ([], p))"
  by (simp add: parse_group_clause_def fun_eq_iff)

lemma order_seq:
  "parse_order_clause = (\<lambda>p. let (ok, p) = accept_keyword ''ORDER'' p
     in if ok then bind_res (expect_keyword ''BY'' p) parse_order_list else Inr ([], p))"
  by (simp add: parse_order_clause_def fun_eq_iff)

lemma list_methods:
  "parse_column_list = (\<lambda>p. comma_list parse_column (length (p_toks p)) p)"
  "parse_order_list = (\<lambda>p. comma_list parse_order_item (length (p_toks p)) p)"
  by (simp_all add: parse_column_list_def parse_order_list_def fun_eq_iff)

lemma decides_group: "decides parse_group_clause g_group"
  unfolding group_seq list_methods
  by (rule decides_mono, (rule decides_accept decides_expect decides_return col.decides_list)+)
    (auto simp: g_group_word)

lemma decides_order: "decides parse_order_clause g_order"
  unfolding order_seq list_methods
  by (rule decides_mono, (rule decides_accept decides_expect decides_return ord.decides_list)+)
    (auto simp: g_order_word)

lemma parses_group:
  assumes "g_group w cs"
  shows "parses_to parse_group_clause w
    (\<lambda>s. fst s \<noteq> TokDot \<and> fst s \<noteq> TokComma \<and> s \<noteq> kw ''GROUP'') cs"
  using assms
proof cases
  case 1
  show ?thesis unfolding group_seq 1 by (rule parses_skip parses_return | simp)+
next
  case (2 u)
  show ?thesis unfolding group_seq list_methods 2
    by (rule parses_accept parses_expect col.parses_list [OF 2(2)] | simp)+
qed

lemma parses_order:
  assumes "g_order w os"
  shows "parses_to parse_order_clause w
    (\<lambda>s. order_fol s \<and> fst s \<noteq> TokComma \<and> s \<noteq> kw ''ORDER'') os"
  using assms
proof cases
  case 1
  show ?thesis unfolding order_seq 1 by (rule parses_skip parses_return | simp)+
next
  case (2 u)
  show ?thesis unfolding order_seq list_methods 2
    by (rule parses_accept parses_expect ord.parses_list [OF 2(2)] | simp)+
qed

lemma decides_non_neg_int:
  "decides (parse_non_neg_int clause) (\<lambda>w v. \<exists>s. w = [(TokNumber, s)] \<and> non_neg_int s v)"
proof (rule decidesI)
  fix p assume p: "pok p"
  show "parse_non_neg_int clause p \<noteq> Inl OutOfFuel"
    by (auto simp: parse_non_neg_int_def Let_def split: option.splits)
  fix x p' assume "parse_non_neg_int clause p = Inr (x, p')"
  then have "t_kind (cur p) = TokNumber" "p' = skip p" "non_neg_int (t_text (cur p)) x"
    by (auto simp: parse_non_neg_int_def Let_def non_neg_int_def split: option.splits if_splits)
  then show "\<exists>w. steps_to p w p' \<and> (\<exists>s. w = [(TokNumber, s)] \<and> non_neg_int s x)"
    using skip_steps [OF p] by (auto simp: sym_of_def)
qed

lemma parses_non_neg_int:
  assumes "non_neg_int s l"
  shows "parses_to (parse_non_neg_int clause) [(TokNumber, s)] (\<lambda>_. True) l"
proof (rule parses_toI)
  fix p v assume v: "pok p" "view p = [(TokNumber, s)] @ v"
  then have "sym_of (cur p) = (TokNumber, s)" using view_Cons [OF v(1)] by simp
  then show "\<exists>p'. parse_non_neg_int clause p = Inr (l, p') \<and> steps_to p [(TokNumber, s)] p'"
    using skip_steps [OF v(1)] assms
    by (auto simp: parse_non_neg_int_def non_neg_int_def sym_of_def Let_def)
qed

lemma limit_seq:
  "parse_limit_clause = (\<lambda>p. let (ok, p) = accept_keyword ''LIMIT'' p
     in if ok then bind_res (parse_non_neg_int ''LIMIT'' p) (\<lambda>(l, p).
          let (ok, p) = accept_keyword ''OFFSET'' p
          in if ok then bind_res (parse_non_neg_int ''OFFSET'' p) (\<lambda>(off, p).
               Inr ((Some l, Some off), p))
             else Inr ((Some l, None), p))
        else Inr ((None, None), p))"
  by (simp add: parse_limit_clause_def fun_eq_iff)

lemma decides_limit: "decides parse_limit_clause g_limit"
  unfolding limit_seq
  by (rule decides_mono, (rule decides_accept decides_bind decides_return decides_non_neg_int)+)
    (auto simp: g_limit_word)

lemma parses_limit:
  assumes "g_limit w lim"
  shows "parses_to parse_limit_clause w (\<lambda>s. s \<noteq> kw ''LIMIT'' \<and> s \<noteq> kw ''OFFSET'') lim"
  using assms
proof cases
  case 1
  show ?thesis unfolding limit_seq 1 by (rule parses_skip parses_return | simp)+
next
  case (2 s l)
  have "parses_to parse_limit_clause (kw ''LIMIT'' # [(TokNumber, s)] @ [])
    (\<lambda>s. s \<noteq> kw ''LIMIT'' \<and> s \<noteq> kw ''OFFSET'') (Some l, None)"
    unfolding limit_seq
    by (rule parses_accept parses_bind [OF parses_non_neg_int [OF 2(3)]] parses_skip parses_return
        | simp)+
  with 2 show ?thesis by simp
next
  case (3 s l t off)
  have "parses_to parse_limit_clause (kw ''LIMIT'' # [(TokNumber, s)] @ (kw ''OFFSET'' # [(TokNumber, t)] @ []))
    (\<lambda>s. s \<noteq> kw ''LIMIT'' \<and> s \<noteq> kw ''OFFSET'') (Some l, Some off)"
    unfolding limit_seq
    by (rule parses_accept parses_bind [OF parses_non_neg_int [OF 3(3)]]
        parses_bind [OF parses_non_neg_int [OF 3(4)]] parses_return | simp)+
  with 3 show ?thesis by simp
qed

lemma query_seq:
  "parse_query pf = (\<lambda>p. bind_res (expect_keyword ''SELECT'' p) (\<lambda>p.
     bind_res (parse_columns_clause p) (\<lambda>(cols, p).
       case cols of (star, items) \<Rightarrow>
     bind_res (expect_keyword ''FROM'' p) (\<lambda>p.
     bind_res (parse_table_ref p) (\<lambda>(from_ref, p).
     bind_res (join_loop pf (length (p_toks p)) p) (\<lambda>(joins, p).
     bind_res (parse_where_clause pf p) (\<lambda>(wh, p).
     bind_res (parse_group_clause p) (\<lambda>(group_by, p).
     bind_res (parse_order_clause p) (\<lambda>(order_by, p).
     bind_res (parse_limit_clause p) (\<lambda>(lim, p).
       case lim of (limit, offset) \<Rightarrow>
       Inr (\<lparr>q_star = star, q_columns = items, q_from = from_ref, q_joins = joins,
              q_where = wh, q_group_by = group_by, q_order_by = order_by,
              q_limit = limit, q_offset = offset\<rparr>, p)))))))))))"
  unfolding parse_query_def fun_eq_iff by (simp add: case_prod_beta')

lemma decides_query: "decides (parse_query pf) (g_query pf)"
  unfolding query_seq
  by (rule decides_mono,
      (rule decides_expect decides_bind decides_case decides_return decides_columns_clause
        tab.decides_item decides_joins decides_where decides_group decides_order decides_limit)+)
    (clarsimp, rule g_query.intros; assumption)

lemma parses_case:
  "parses_to (f a b) w fol x \<Longrightarrow> parses_to (\<lambda>p. case (a, b) of (a, b) \<Rightarrow> f a b p) w fol x"
  by simp

abbreviation eof_fol :: "sym \<Rightarrow> bool" where
  "eof_fol s \<equiv> fst s = TokEOF"

lemma rest_head:
  assumes "w = [] \<or> hd w \<in> K" "u = [] \<or> hd u \<in> L"
  shows "w @ u = [] \<or> hd (w @ u) \<in> K \<union> L"
  using assms by (cases w) auto

lemma parses_bind_eof:
  assumes "parses_to f w fol l" "u = [] \<or> hd u \<in> L"
    and "\<forall>s\<in>L. fol s" "\<forall>s. eof_fol s \<longrightarrow> fol s" "parses_to (h l) u eof_fol c"
  shows "parses_to (\<lambda>p. bind_res (f p) (\<lambda>(l, p). h l p)) (w @ u) eof_fol c"
  by (rule parses_bind [of f w fol l h u eof_fol c, OF assms(1,5)]) (use assms(2-4) in auto)

lemma parses_query:
  assumes "g_query pf w q"
  shows "parses_to (parse_query pf) w eof_fol q"
  using assms
proof cases
  case (1 w1 star items w2 from_ref w3 joins w4 wh w5 group_by w6 order_by w7 limit offset)
  define u7 where "u7 = w7 @ []"
  define u6 where "u6 = w6 @ u7"
  define u5 where "u5 = w5 @ u6"
  define u4 where "u4 = w4 @ u5"
  define u3 where "u3 = w3 @ u4"
  have h7: "u7 = [] \<or> hd u7 \<in> {kw ''LIMIT''}"
    using clause_heads(4) [OF 1(9)] by (simp add: u7_def)
  have h6: "u6 = [] \<or> hd u6 \<in> {kw ''ORDER''} \<union> {kw ''LIMIT''}" (is "_ \<or> _ \<in> ?K6")
    unfolding u6_def by (rule rest_head) (use clause_heads(3) [OF 1(8)] h7 in auto)
  have h5: "u5 = [] \<or> hd u5 \<in> {kw ''GROUP''} \<union> ?K6" (is "_ \<or> _ \<in> ?K5")
    unfolding u5_def by (rule rest_head) (use clause_heads(2) [OF 1(7)] h6 in auto)
  have h4: "u4 = [] \<or> hd u4 \<in> {kw ''WHERE''} \<union> ?K5" (is "_ \<or> _ \<in> ?K4")
    unfolding u4_def by (rule rest_head) (use clause_heads(1) [OF 1(6)] h5 in auto)
  have h3: "u3 = [] \<or> hd u3 \<in> {s. join_start s} \<union> ?K4"
    unfolding u3_def by (rule rest_head) (use g_joins_head [OF 1(5)] h4 in auto)
  note follow = h3 [unfolded u3_def u4_def u5_def u6_def u7_def]
    h4 [unfolded u4_def u5_def u6_def u7_def] h5 [unfolded u5_def u6_def u7_def]
    h6 [unfolded u6_def u7_def] h7 [unfolded u7_def]
  have tab: "parses_to parse_table_ref w2 table_fol from_ref"
    by (rule tab.parses_item [OF 1(4)]) simp
  have "parses_to (parse_query pf)
    (kw ''SELECT'' # w1 @ (kw ''FROM'' # w2 @ w3 @ w4 @ w5 @ w6 @ w7 @ [])) eof_fol q"
    unfolding query_seq 1(2)
    by (rule parses_expect parses_return parses_case
        parses_bind [OF parses_columns_clause [OF 1(3)]]
        parses_bind_eof [OF tab follow(1)] parses_bind_eof [OF parses_joins [OF 1(5)] follow(2)]
        parses_bind_eof [OF parses_where [OF 1(6)] follow(3)]
        parses_bind_eof [OF parses_group [OF 1(7)] follow(4)]
        parses_bind_eof [OF parses_order [OF 1(8)] follow(5)]
        parses_bind_eof [OF parses_limit [OF 1(9)], of _ "{}"]
        | (auto; fail))+
  then show ?thesis by (simp add: 1)
qed

section \<open>The parser decides the grammar\<close>

lemma stream_view:
  assumes "stream_ok ts"
  shows "pok \<lparr>p_toks = ts, p_pos = 0\<rparr>"
    and "view \<lparr>p_toks = ts, p_pos = 0\<rparr> = map sym_of (butlast ts) @ [sym_of (last ts)]"
    and "fst (sym_of (last ts)) = TokEOF"
proof -
  have "ts \<noteq> []" using assms by (simp add: stream_ok_def)
  then have "map sym_of ts = map sym_of (butlast ts) @ [sym_of (last ts)]"
    by (metis append_butlast_last_id list.simps(8,9) map_append)
  then show "view \<lparr>p_toks = ts, p_pos = 0\<rparr> = map sym_of (butlast ts) @ [sym_of (last ts)]"
    by (simp add: view_def)
qed (use assms in \<open>auto simp: pok_def stream_ok_def sym_of_def\<close>)

lemma view_eof:
  assumes "pok p" "t_kind (cur p) = TokEOF"
  shows "view p = [sym_of (last (p_toks p))]"
proof -
  let ?ts = "p_toks p"
  from assms(1) have ne: "?ts \<noteq> []" and bl: "list_all (\<lambda>t. t_kind t \<noteq> TokEOF) (butlast ?ts)"
    and lt: "p_pos p < length ?ts" by (auto simp: pok_def stream_ok_def)
  have "p_pos p = length ?ts - 1"
  proof (rule ccontr)
    assume "p_pos p \<noteq> length ?ts - 1"
    with lt have "p_pos p < length (butlast ?ts)" by simp
    with bl have "t_kind (butlast ?ts ! p_pos p) \<noteq> TokEOF" by (simp add: list_all_length)
    with assms(2) \<open>p_pos p < length (butlast ?ts)\<close> show False by (simp add: cur_def nth_butlast)
  qed
  then have "drop (p_pos p) ?ts = [last ?ts]"
    using ne by (metis append_butlast_last_id append_eq_conv_conj length_butlast)
  then show ?thesis by (simp add: view_def)
qed

lemma parse_tokens_grammar:
  assumes "stream_ok ts"
  shows "parse_tokens pf ts = Inr q \<longleftrightarrow> g_query pf (map sym_of (butlast ts)) q"
proof
  let ?p = "\<lparr>p_toks = ts, p_pos = 0\<rparr>"
  note p = stream_view [OF assms]
  {
    assume "parse_tokens pf ts = Inr q"
    then obtain p' where q: "parse_query pf ?p = Inr (q, p')" and e: "t_kind (cur p') = TokEOF"
      by (auto simp: parse_tokens_def res_simps split: if_splits)
    from decides_sound [OF decides_query p(1) q] obtain w where
      w: "steps_to ?p w p'" "g_query pf w q" by blast
    have "view p' = [sym_of (last ts)]"
      using view_eof [OF steps_to_pok [OF w(1)] e] steps_to_toks [OF w(1)] by simp
    with w(1) p(2) have "w = map sym_of (butlast ts)" by (simp add: steps_to_def)
    with w(2) show "g_query pf (map sym_of (butlast ts)) q" by simp
  }
  {
    assume "g_query pf (map sym_of (butlast ts)) q"
    from parses_toE [OF parses_query [OF this] p(1,2)] p(3) obtain p' where
      "parse_query pf ?p = Inr (q, p')" "view p' = [sym_of (last ts)]" "pok p'" by auto
    then show "parse_tokens pf ts = Inr q"
      using p(3) kind_view [of p'] by (simp add: parse_tokens_def)
  }
qed

lemma lex_step_total: "lex_step i c cs \<noteq> Inl OutOfFuel"
proof -
  have "lex_number i s \<noteq> Inl OutOfFuel" "lex_string i s \<noteq> Inl OutOfFuel" for i s
    by (simp_all add: lex_number_def lex_string_def split: prod.splits option.splits)
  then show ?thesis by (simp add: lex_step_def Let_def res_simps)
qed

lemma lex_total: "lex src \<noteq> Inl OutOfFuel"
proof -
  have "lex_loop i s \<noteq> Inl OutOfFuel" for i s
    by (induction i s rule: lex_loop.induct) (auto simp: res_simps lex_step_total)
  then show ?thesis by (simp add: lex_def)
qed

lemma parse_grammar:
  "parse pf src = Inr q \<longleftrightarrow> (\<exists>ts. lex src = Inr ts \<and> g_query pf (map sym_of (butlast ts)) q)"
  by (auto simp: parse_def res_simps parse_tokens_grammar lex_stream_ok)

lemma parse_returns: "parse pf src \<noteq> Inl OutOfFuel"
  using lex_total decides_total [OF decides_query] stream_view(1) [OF lex_stream_ok]
  by (auto simp: parse_def parse_tokens_def res_simps)

lemma place_not_Nil [simp]: "place i ts \<noteq> []"
  by (cases ts) auto

lemma map_sym_place:
  "map sym_of (butlast (place i (map (\<lambda>s. tok (fst s) (snd s) j) w))) = w"
  by (induction w arbitrary: i) (auto simp: sym_of_def)

section \<open>Properties\<close>

text \<open>
  C5: \<open>Parse\<close> decides a grammar: a source parses to the query \<open>q\<close> exactly when it
  lexes and the symbols of its tokens, the end-of-input token left out, derive \<open>q\<close>. Since no
  production of the grammar derives anything but a single \<open>SELECT\<close>, nothing else parses. The grammar is the one the
  tool's help prints, except that \<open>*\<close> is an argument of \<open>COUNT\<close> only, not of every aggregate, and that a table's alias
  may be preceded by \<open>AS\<close>.
\<close>

theorem parse_iff_grammar:
  "parse pf src = Inr q \<longleftrightarrow> (\<exists>ts. lex src = Inr ts \<and> g_query pf (map sym_of (butlast ts)) q)"
  by (rule parse_grammar)

text \<open>Where the help's grammar says otherwise.\<close>

lemma star_argument_counts: "g_agg_arg agg [sStar] x \<longleftrightarrow> agg = ''COUNT'' \<and> x = (True, zero_column)"
  by (auto simp: g_agg_arg_word g_column_word)

lemma sum_star_rejected: "parse pf ''SELECT SUM(*) FROM t'' = Inl (AggStarNotAllowed ''SUM'')"
  by code_simp

lemma table_alias_after_as:
  "parse pf ''SELECT * FROM t AS x'' = Inr \<lparr>q_star = True, q_columns = [], q_from = \<lparr>tr_name = ''t'', tr_alias = ''x''\<rparr>,
     q_joins = [], q_where = None, q_group_by = [], q_order_by = [], q_limit = None, q_offset = None\<rparr>"
  by code_simp

text \<open>
  C29: \<open>Parse\<close> returns on every input: the fuel of the model's loops, which stands for nothing in
  the code, is never used up, so every source gives a query or one of the code's own errors.
\<close>

theorem parse_always_returns: "parse pf src \<noteq> Inl OutOfFuel"
  by (rule parse_returns)

text \<open>
  The grammar is unambiguous on the symbols a lexer produces: no word derives two queries.
\<close>

theorem grammar_unambiguous:
  assumes "list_all (\<lambda>s. token_text_ok (fst s) (snd s) \<and> fst s \<noteq> TokEOF) w"
    and "g_query pf w q" "g_query pf w q'"
  shows "q = q'"
proof -
  let ?ts = "place 0 (map (\<lambda>s. tok (fst s) (snd s) 0) w)"
  have "lex (render (map (\<lambda>s. tok (fst s) (snd s) 0) w)) = Inr ?ts"
    by (rule lex_render) (use assms(1) in \<open>simp add: list_all_iff\<close>)
  then have "stream_ok ?ts" by (rule lex_stream_ok)
  then have "parse_tokens pf ?ts = Inr x" if "g_query pf w x" for x
    using that by (simp only: parse_tokens_grammar map_sym_place)
  from this [OF assms(2)] this [OF assms(3)] show ?thesis by simp
qed

text \<open>The word of \<open>SELECT * FROM t\<close> and what it denotes.\<close>

definition star_query :: query where
  "star_query = \<lparr>q_star = True, q_columns = [], q_from = \<lparr>tr_name = ''t'', tr_alias = []\<rparr>,
     q_joins = [], q_where = None, q_group_by = [], q_order_by = [], q_limit = None,
     q_offset = None\<rparr>"

lemma star_query_derived:
  "g_query pf [kw ''SELECT'', sStar, kw ''FROM'', (TokIdent, ''t'')] star_query"
  using g_query.intros [OF g_columns_clause.intros(1) g_table_ref.intros(1) g_no_join
      g_where.intros(1) g_group.intros(1) g_order.intros(1) g_limit.intros(1), of pf "''t''"]
  by (simp add: star_query_def)

theorem grammar_unambiguous_witness:
  "(THE q. g_query (\<lambda>_. None) [kw ''SELECT'', sStar, kw ''FROM'', (TokIdent, ''t'')] q) = star_query"
proof (rule the_equality)
  fix q assume q: "g_query (\<lambda>_. None) [kw ''SELECT'', sStar, kw ''FROM'', (TokIdent, ''t'')] q"
  show "q = star_query"
    by (rule grammar_unambiguous [OF _ q star_query_derived]) code_simp
qed (rule star_query_derived)

end
