(* ===== verification/Sqlq_Printer.thy ===== *)
theory Sqlq_Printer
  imports Sqlq_Grammar
begin

text \<open>
  Well-formed queries and a printer for them.

  \<open>wf_query\<close> collects what the comments of \<open>internal/sqlq/ast.go\<close> promise of a parsed \<open>Query\<close>:
  identifiers of the restricted form, aggregates and operators from their closed sets,
  \<open>COUNT\<close> alone with a star, a \<open>LIKE\<close> pattern that is a string, a non-empty \<open>IN\<close> list, an
  offset only beside a limit, both not negative. Every parsed query is well formed.
  \<open>print_query\<close> writes a query back in the language, and parsing what it writes gives the
  query: the language expresses every well-formed query without floats (a float is a bit
  pattern whose decimal spelling the source nowhere prints).
\<close>

section \<open>Well-formed queries\<close>

definition ident_ok :: "string \<Rightarrow> bool" where
  "ident_ok s \<longleftrightarrow> valid_ident s \<and> to_upper s \<notin> set keyword_list"

definition opt_ident_ok :: "string \<Rightarrow> bool" where
  "opt_ident_ok s \<longleftrightarrow> s = [] \<or> ident_ok s"

definition column_ok :: "column \<Rightarrow> bool" where
  "column_ok c \<longleftrightarrow> opt_ident_ok (col_table c) \<and> ident_ok (col_name c)"

definition int64_range :: "int \<Rightarrow> bool" where
  "int64_range i \<longleftrightarrow> - (2 ^ 63) \<le> i \<and> i < 2 ^ 63"

definition value_ok :: "sql_value \<Rightarrow> bool" where
  "value_ok v \<longleftrightarrow> (case v_go v of
     GoString _ \<Rightarrow> v_kind v = StringVal
   | GoInt i \<Rightarrow> v_kind v = NumberVal \<and> int64_range i
   | GoFloat _ \<Rightarrow> v_kind v = NumberVal
   | GoBool _ \<Rightarrow> v_kind v = BoolVal
   | GoNil \<Rightarrow> v_kind v = NullVal)"

fun cond_ok :: "condition \<Rightarrow> bool" where
  "cond_ok (Logical _ l r) \<longleftrightarrow> cond_ok l \<and> cond_ok r"
| "cond_ok (NotC c) \<longleftrightarrow> cond_ok c"
| "cond_ok (Comparison c op v rc) \<longleftrightarrow> column_ok c \<and> op \<in> set op_list \<and>
     (case rc of None \<Rightarrow> value_ok v | Some r \<Rightarrow> v = zero_value \<and> column_ok r)"
| "cond_ok (In c vs) \<longleftrightarrow> column_ok c \<and> vs \<noteq> [] \<and> list_all value_ok vs"
| "cond_ok (Like c v) \<longleftrightarrow> column_ok c \<and> value_ok v \<and> v_kind v = StringVal"
| "cond_ok (IsNull c _) \<longleftrightarrow> column_ok c"
| "cond_ok (Between c l h) \<longleftrightarrow> column_ok c \<and> value_ok l \<and> value_ok h"

definition select_item_ok :: "select_item \<Rightarrow> bool" where
  "select_item_ok x \<longleftrightarrow> opt_ident_ok (si_alias x) \<and>
     (if si_star x then si_agg x = ''COUNT'' \<and> si_column x = zero_column
      else (si_agg x = [] \<or> si_agg x \<in> set agg_funcs) \<and> column_ok (si_column x))"

definition table_ref_ok :: "table_ref \<Rightarrow> bool" where
  "table_ref_ok r \<longleftrightarrow> ident_ok (tr_name r) \<and> opt_ident_ok (tr_alias r)"

definition join_ok :: "join \<Rightarrow> bool" where
  "join_ok j \<longleftrightarrow> table_ref_ok (j_table j) \<and> cond_ok (j_on j)"

definition limit_ok :: "int option \<Rightarrow> bool" where
  "limit_ok l \<longleftrightarrow> (case l of None \<Rightarrow> True | Some n \<Rightarrow> 0 \<le> n \<and> n < 2 ^ 63)"

definition wf_query :: "query \<Rightarrow> bool" where
  "wf_query q \<longleftrightarrow>
     (if q_star q then q_columns q = [] else q_columns q \<noteq> [] \<and> list_all select_item_ok (q_columns q))
     \<and> table_ref_ok (q_from q) \<and> list_all join_ok (q_joins q)
     \<and> (case q_where q of None \<Rightarrow> True | Some c \<Rightarrow> cond_ok c)
     \<and> list_all column_ok (q_group_by q) \<and> list_all (\<lambda>x. column_ok (o_column x)) (q_order_by q)
     \<and> limit_ok (q_limit q) \<and> limit_ok (q_offset q) \<and> (q_limit q = None \<longrightarrow> q_offset q = None)"

section \<open>Derived queries are well formed\<close>

text \<open>A word whose symbols have the shape the lexer gives them.\<close>

abbreviation word_ok :: "sym list \<Rightarrow> bool" where
  "word_ok w \<equiv> list_all (\<lambda>s. token_text_ok (fst s) (snd s)) w"

lemma g_column_wf: "g_column w c \<Longrightarrow> word_ok w \<Longrightarrow> column_ok c"
  by (auto simp: g_column_word column_ok_def opt_ident_ok_def ident_ok_def)

lemma parse_number_kind: "parse_number pf s = Inr g \<Longrightarrow>
  (\<exists>i. g = GoInt i \<and> int64_range i) \<or> (\<exists>f. g = GoFloat f)"
  by (auto simp: parse_number_def int64_range_def dest: parse_int64_range
      split: option.splits if_splits)

lemma g_value_wf: "g_value pf w v \<Longrightarrow> value_ok v"
  by (auto simp: g_value_word value_ok_def dest: parse_number_kind)

lemma g_list_wf:
  assumes "\<And>w x. G w x \<Longrightarrow> word_ok w \<Longrightarrow> P x"
  shows "g_list G w xs \<Longrightarrow> word_ok w \<Longrightarrow> xs \<noteq> [] \<and> list_all P xs"
  by (induction rule: g_list.induct) (use assms in auto)

lemma g_pred_wf: "g_pred pf w c \<Longrightarrow> word_ok w \<Longrightarrow> cond_ok c"
  by (erule g_pred.cases, hypsubst, erule g_pred_tail.cases)
    (use g_list_wf [of "g_value pf" value_ok] in
      \<open>auto dest: g_column_wf g_value_wf\<close>)

lemma g_or_wf:
  "g_or pf w c \<Longrightarrow> word_ok w \<longrightarrow> cond_ok c"
  "g_or_tail pf l w c \<Longrightarrow> word_ok w \<longrightarrow> cond_ok l \<longrightarrow> cond_ok c"
  "g_and pf w c \<Longrightarrow> word_ok w \<longrightarrow> cond_ok c"
  "g_and_tail pf l w c \<Longrightarrow> word_ok w \<longrightarrow> cond_ok l \<longrightarrow> cond_ok c"
  "g_not pf w c \<Longrightarrow> word_ok w \<longrightarrow> cond_ok c"
  "g_factor pf w c \<Longrightarrow> word_ok w \<longrightarrow> cond_ok c"
  by (induction rule: g_or_g_or_tail_g_and_g_and_tail_g_not_g_factor.inducts)
    (auto dest: g_pred_wf)

lemma g_alias_wf: "g_alias w a \<Longrightarrow> word_ok w \<Longrightarrow> opt_ident_ok a"
  by (auto simp: g_alias_word opt_ident_ok_def ident_ok_def)

lemma g_select_item_wf: "g_select_item w x \<Longrightarrow> word_ok w \<Longrightarrow> select_item_ok x"
  by (erule g_select_item.cases)
    (auto simp: select_item_ok_def g_agg_arg_word dest: g_column_wf g_alias_wf)

lemma g_order_item_wf: "g_order_item w x \<Longrightarrow> word_ok w \<Longrightarrow> column_ok (o_column x)"
  by (erule g_order_item.cases) (auto dest: g_column_wf)

lemma g_table_ref_wf: "g_table_ref w r \<Longrightarrow> word_ok w \<Longrightarrow> table_ref_ok r"
  by (auto simp: g_table_ref_word table_ref_ok_def opt_ident_ok_def ident_ok_def)

lemma g_join_wf: "g_join pf w j \<Longrightarrow> word_ok w \<Longrightarrow> join_ok j"
  by (erule g_join.cases) (auto simp: join_ok_def dest: g_table_ref_wf g_or_wf(1))

lemma g_joins_wf: "g_joins pf w js \<Longrightarrow> word_ok w \<Longrightarrow> list_all join_ok js"
  by (induction rule: g_joins.induct) (auto dest: g_join_wf)

lemma g_limit_wf: "g_limit w (l, off) \<Longrightarrow> limit_ok l \<and> limit_ok off \<and> (l = None \<longrightarrow> off = None)"
  by (auto simp: g_limit_word limit_ok_def non_neg_int_def dest: parse_int64_range)

lemma item_lists_wf:
  "g_list g_select_item w xs \<Longrightarrow> word_ok w \<Longrightarrow> xs \<noteq> [] \<and> list_all select_item_ok xs"
  "g_list g_column w cs \<Longrightarrow> word_ok w \<Longrightarrow> cs \<noteq> [] \<and> list_all column_ok cs"
  "g_list g_order_item w os \<Longrightarrow> word_ok w \<Longrightarrow> os \<noteq> [] \<and> list_all (\<lambda>x. column_ok (o_column x)) os"
  by (erule g_list_wf [rotated]; simp add: g_select_item_wf g_column_wf g_order_item_wf)+

lemma g_clauses_wf:
  "g_columns_clause w (star, items) \<Longrightarrow> word_ok w \<Longrightarrow>
     if star then items = [] else items \<noteq> [] \<and> list_all select_item_ok items"
  "g_where pf w wh \<Longrightarrow> word_ok w \<Longrightarrow> case wh of None \<Rightarrow> True | Some c \<Rightarrow> cond_ok c"
  "g_group w cs \<Longrightarrow> word_ok w \<Longrightarrow> list_all column_ok cs"
  "g_order w os \<Longrightarrow> word_ok w \<Longrightarrow> list_all (\<lambda>x. column_ok (o_column x)) os"
  by (auto simp: g_columns_clause_word g_where_word g_group_word g_order_word
      dest: item_lists_wf g_or_wf(1))

lemma g_query_wf: "g_query pf w q \<Longrightarrow> word_ok w \<Longrightarrow> wf_query q"
  by (erule g_query.cases)
    (auto simp: wf_query_def dest: g_clauses_wf g_table_ref_wf g_joins_wf g_limit_wf)

lemma stream_word_ok: "stream_ok ts \<Longrightarrow> word_ok (map sym_of (butlast ts))"
  by (auto simp: stream_ok_def list_all_iff sym_of_def dest: in_set_butlastD)

lemma parse_wf: "parse pf src = Inr q \<Longrightarrow> wf_query q"
  using g_query_wf stream_word_ok lex_stream_ok unfolding parse_grammar by blast

section \<open>Printing a query\<close>

text \<open>The decimal spelling of an integer.\<close>

fun nat_text :: "nat \<Rightarrow> string" where
  "nat_text n = (if n < 10 then [char_of (48 + n)] else nat_text (n div 10) @ [char_of (48 + n mod 10)])"

definition int_text :: "int \<Rightarrow> string" where
  "int_text i = (if i < 0 then CHR ''-'' # nat_text (nat (- i)) else nat_text (nat i))"

definition p_value :: "sql_value \<Rightarrow> sym list" where
  "p_value v = (case v_go v of
     GoString s \<Rightarrow> [(TokString, s)]
   | GoInt i \<Rightarrow> [(TokNumber, int_text i)]
   | GoBool b \<Rightarrow> [kw (if b then ''TRUE'' else ''FALSE'')]
   | _ \<Rightarrow> [kw ''NULL''])"

definition p_column :: "column \<Rightarrow> sym list" where
  "p_column c =
     (if col_table c = [] then [(TokIdent, col_name c)]
      else [(TokIdent, col_table c), sDot, (TokIdent, col_name c)])"

fun p_list :: "('a \<Rightarrow> sym list) \<Rightarrow> 'a list \<Rightarrow> sym list" where
  "p_list f [] = []"
| "p_list f (x # xs) = f x @ (if xs = [] then [] else (TokComma, '','') # p_list f xs)"

definition p_alias :: "string \<Rightarrow> sym list" where
  "p_alias a = (if a = [] then [] else [kw ''AS'', (TokIdent, a)])"

text \<open>A condition with every operand in parentheses.\<close>

fun p_cond :: "condition \<Rightarrow> sym list" where
  "p_cond (Logical op l r) =
     sLP # p_cond l @ sRP # kw (case op of OpAnd \<Rightarrow> ''AND'' | OpOr \<Rightarrow> ''OR'') # sLP # p_cond r @ [sRP]"
| "p_cond (NotC c) = kw ''NOT'' # sLP # p_cond c @ [sRP]"
| "p_cond (Comparison c op v rc) =
     p_column c @ (TokOp, op) # (case rc of None \<Rightarrow> p_value v | Some r \<Rightarrow> p_column r)"
| "p_cond (In c vs) = p_column c @ kw ''IN'' # sLP # p_list p_value vs @ [sRP]"
| "p_cond (Like c v) = p_column c @ kw ''LIKE'' # p_value v"
| "p_cond (IsNull c neg) =
     p_column c @ kw ''IS'' # (if neg then [kw ''NOT'', kw ''NULL''] else [kw ''NULL''])"
| "p_cond (Between c l h) = p_column c @ kw ''BETWEEN'' # p_value l @ kw ''AND'' # p_value h"

definition p_select_item :: "select_item \<Rightarrow> sym list" where
  "p_select_item x =
     (if si_agg x = [] then p_column (si_column x)
      else kw (si_agg x) # sLP # (if si_star x then [sStar] else p_column (si_column x)) @ [sRP])
     @ p_alias (si_alias x)"

definition p_table_ref :: "table_ref \<Rightarrow> sym list" where
  "p_table_ref r = (TokIdent, tr_name r) # p_alias (tr_alias r)"

definition p_join :: "join \<Rightarrow> sym list" where
  "p_join j =
     (case j_type j of
        InnerJoin \<Rightarrow> [kw ''INNER'', kw ''JOIN'']
      | LeftJoin \<Rightarrow> [kw ''LEFT'', kw ''JOIN'']
      | RightJoin \<Rightarrow> [kw ''RIGHT'', kw ''JOIN''])
     @ p_table_ref (j_table j) @ kw ''ON'' # p_cond (j_on j)"

definition p_order_item :: "order_item \<Rightarrow> sym list" where
  "p_order_item x = p_column (o_column x) @ (if o_desc x then [kw ''DESC''] else [])"

definition p_limit :: "int option \<Rightarrow> int option \<Rightarrow> sym list" where
  "p_limit l off =
     (case l of None \<Rightarrow> []
      | Some n \<Rightarrow> [kw ''LIMIT'', (TokNumber, int_text n)] @
          (case off of None \<Rightarrow> [] | Some m \<Rightarrow> [kw ''OFFSET'', (TokNumber, int_text m)]))"

definition p_query :: "query \<Rightarrow> sym list" where
  "p_query q =
     kw ''SELECT'' # (if q_star q then [sStar] else p_list p_select_item (q_columns q))
     @ kw ''FROM'' # p_table_ref (q_from q)
     @ concat (map p_join (q_joins q))
     @ (case q_where q of None \<Rightarrow> [] | Some c \<Rightarrow> kw ''WHERE'' # p_cond c)
     @ (if q_group_by q = [] then [] else kw ''GROUP'' # kw ''BY'' # p_list p_column (q_group_by q))
     @ (if q_order_by q = [] then [] else kw ''ORDER'' # kw ''BY'' # p_list p_order_item (q_order_by q))
     @ p_limit (q_limit q) (q_offset q)"

definition print_query :: "query \<Rightarrow> string" where
  "print_query q = render (map (\<lambda>s. tok (fst s) (snd s) 0) (p_query q))"

text \<open>The literal values of a query, and that none of them is a float.\<close>

definition query_values :: "query \<Rightarrow> sql_value list" where
  "query_values q = concat (map (\<lambda>j. cond_values (j_on j)) (q_joins q))
     @ (case q_where q of None \<Rightarrow> [] | Some c \<Rightarrow> cond_values c)"

definition no_float :: "sql_value \<Rightarrow> bool" where
  "no_float v \<longleftrightarrow> (case v_go v of GoFloat _ \<Rightarrow> False | _ \<Rightarrow> True)"

section \<open>Decimal spelling\<close>

declare nat_text.simps [simp del]

lemma digit_char:
  assumes "d < 10"
  shows "is_digit (char_of (48 + d))" "digit_val (char_of (48 + d)) = int d"
  using assms by (simp_all add: is_digit_code digit_val_def)

lemma nat_text_digits: "nat_text n \<noteq> [] \<and> list_all is_digit (nat_text n) \<and> digits_val (nat_text n) = int n"
proof (induction n rule: nat_text.induct)
  case (1 n)
  show ?case
  proof (cases "n < 10")
    case True
    then show ?thesis by (simp add: nat_text.simps [of n] digit_char digits_val_def)
  next
    case False
    have "int n = 10 * int (n div 10) + int (n mod 10)" by presburger
    with 1 False show ?thesis
      by (simp add: nat_text.simps [of n] digit_char digits_val_def)
  qed
qed

lemma int_text_number: "number_ok (int_text i)"
proof -
  note n = nat_text_digits [of "nat (- i)"] nat_text_digits [of "nat i"]
  have "mantissa_form (nat_text k)" for k
    using nat_text_digits [of k] unfolding mantissa_form_def
    by (intro exI [of _ "nat_text k"] exI [of _ "[]"]) simp
  then have "number_form (int_text i)"
    unfolding number_form_def exponent_form_def
    by (intro exI [of _ "if i < 0 then ''-'' else []"]
        exI [of _ "nat_text (if i < 0 then nat (- i) else nat i)"] exI [of _ "[]"])
      (simp add: int_text_def)
  moreover have "at (\<lambda>c. c \<noteq> CHR ''.'') (int_text i)"
    using n by (cases "nat_text (nat i)") (auto simp: int_text_def at_def is_digit_code)
  ultimately show ?thesis by (simp add: number_ok_form)
qed

lemma int_text_parse:
  assumes "int64_range i"
  shows "parse_int64 (int_text i) = Some i"
proof -
  have n: "nat_text k \<noteq> []" "list_all is_digit (nat_text k)" "digits_val (nat_text k) = int k" for k
    using nat_text_digits [of k] by auto
  have h: "hd (nat_text k) \<noteq> CHR ''+''" "hd (nat_text k) \<noteq> CHR ''-''" for k
    using n(1,2) [of k] by (cases "nat_text k"; auto simp: is_digit_def)+
  show ?thesis
    using assms n h by (auto simp: int_text_def parse_int64_def int64_range_def Let_def)
qed

lemma int_text_plain: "\<not> list_ex (\<lambda>c. c \<in> set ''.eE'') (int_text i)"
proof -
  have "list_all (\<lambda>c. c \<notin> set ''.eE'') (nat_text k)" for k
    using nat_text_digits [of k] by (auto elim!: list.pred_mono_strong simp: is_digit_def)
  then show ?thesis by (auto simp: int_text_def list_all_iff list_ex_iff)
qed

section \<open>Printed queries derive from the grammar\<close>

lemma p_value_g: "value_ok v \<Longrightarrow> no_float v \<Longrightarrow> g_value pf (p_value v) v"
  using int_text_parse int_text_plain
  by (cases v) (auto simp: p_value_def value_ok_def no_float_def g_value_word parse_number_def
      split: go_value.splits)

lemma p_column_g: "column_ok c \<Longrightarrow> g_column (p_column c) c"
  by (cases c) (auto simp: p_column_def g_column_word)

lemma p_list_g: "xs \<noteq> [] \<Longrightarrow> (\<And>x. x \<in> set xs \<Longrightarrow> G (f x) x) \<Longrightarrow> g_list G (p_list f xs) xs"
  by (induction xs) (auto intro: g_list_one g_list_more)

lemma g_factor_and: "g_factor pf w c \<Longrightarrow> g_and pf w c"
  using g_and_chain [OF g_plain_factor g_and_end, of pf w c] by simp

lemma g_and_or: "g_and pf w c \<Longrightarrow> g_or pf w c"
  using g_or_chain [OF _ g_or_end, of pf w c] by simp

lemma g_pred_or: "g_pred pf w c \<Longrightarrow> g_or pf w c"
  by (intro g_and_or g_factor_and g_predicate)

lemma p_cond_g: "cond_ok c \<Longrightarrow> list_all no_float (cond_values c) \<Longrightarrow> g_or pf (p_cond c) c"
proof (induction c)
  case (Logical op l r)
  then have l: "g_factor pf (sLP # p_cond l @ [sRP]) l" and r: "g_factor pf (sLP # p_cond r @ [sRP]) r"
    by (auto intro: g_paren)
  show ?case
  proof (cases op)
    case OpAnd
    have "g_and pf ((sLP # p_cond l @ [sRP]) @ kw ''AND'' # (sLP # p_cond r @ [sRP]) @ [])
      (Logical OpAnd l r)"
      by (rule g_and_chain [OF g_plain_factor [OF l] g_and_more [OF g_plain_factor [OF r] g_and_end]])
    then show ?thesis using g_and_or OpAnd by simp
  next
    case OpOr
    have "g_or pf ((sLP # p_cond l @ [sRP]) @ kw ''OR'' # (sLP # p_cond r @ [sRP]) @ [])
      (Logical OpOr l r)"
      by (rule g_or_chain [OF g_factor_and [OF l] g_or_more [OF g_factor_and [OF r] g_or_end]])
    then show ?thesis using OpOr by simp
  qed
next
  case (NotC c)
  then have "g_not pf (kw ''NOT'' # sLP # p_cond c @ [sRP]) (NotC c)"
    by (auto intro: g_negated g_paren)
  then show ?case using g_and_or [OF g_and_chain [OF _ g_and_end]] by fastforce
next
  case (Comparison c op v rc)
  then show ?case
    by (auto intro!: g_pred_or g_pred.intros p_column_g intro: g_cmp_column g_cmp_value p_value_g
        split: option.splits)
next
  case (In c vs)
  then have "g_list (g_value pf) (p_list p_value vs) vs"
    by (intro p_list_g) (auto simp: list_all_iff intro: p_value_g)
  with In show ?case by (auto intro!: g_pred_or g_pred.intros p_column_g g_in)
next
  case (Like c v)
  then show ?case by (auto intro!: g_pred_or g_pred.intros p_column_g g_like p_value_g)
next
  case (IsNull c neg)
  then show ?case
    by (auto intro!: g_pred_or g_pred.intros p_column_g intro: g_is_null g_is_not_null)
next
  case (Between c l h)
  then show ?case by (auto intro!: g_pred_or g_pred.intros p_column_g g_between p_value_g)
qed

lemma p_alias_g: "opt_ident_ok a \<Longrightarrow> g_alias (p_alias a) a"
  by (auto simp: p_alias_def g_alias_word)

lemma p_select_item_g:
  assumes "select_item_ok x"
  shows "g_select_item (p_select_item x) x"
proof (cases x)
  case (fields agg star c a)
  have a: "g_alias (p_alias a) a"
    using assms fields by (auto simp: select_item_ok_def intro: p_alias_g)
  show ?thesis
  proof (cases "agg = []")
    case True
    then show ?thesis
      using assms fields g_plain [OF p_column_g a]
      by (cases star) (auto simp: select_item_ok_def p_select_item_def)
  next
    case False
    then have "agg \<in> set agg_funcs" and "g_agg_arg agg (if star then [sStar] else p_column c) (star, c)"
      using assms fields
      by (auto simp: select_item_ok_def g_agg_arg_word agg_funcs_def intro: p_column_g split: if_splits)
    from g_agg [OF this a] False fields show ?thesis by (cases star) (simp_all add: p_select_item_def)
  qed
qed

lemma p_table_ref_g: "table_ref_ok r \<Longrightarrow> g_table_ref (p_table_ref r) r"
  by (cases r) (auto simp: g_table_ref_word p_table_ref_def p_alias_def)

lemma p_join_g:
  assumes "join_ok j" "list_all no_float (cond_values (j_on j))"
  shows "g_join pf (p_join j) j"
proof (cases j)
  case (fields t r c)
  have "g_join_type (case t of InnerJoin \<Rightarrow> [kw ''INNER'', kw ''JOIN'']
    | LeftJoin \<Rightarrow> [kw ''LEFT'', kw ''JOIN''] | RightJoin \<Rightarrow> [kw ''RIGHT'', kw ''JOIN'']) t"
    by (cases t) (auto simp: g_join_type_word)
  from g_join.intros [OF this p_table_ref_g p_cond_g] show ?thesis
    using assms fields by (simp add: p_join_def join_ok_def)
qed

lemma p_joins_g:
  "list_all join_ok js \<Longrightarrow> list_all no_float (concat (map (\<lambda>j. cond_values (j_on j)) js)) \<Longrightarrow>
     g_joins pf (concat (map p_join js)) js"
  by (induction js) (auto intro: g_no_join g_more_join p_join_g)

lemma p_order_item_g: "column_ok (o_column x) \<Longrightarrow> g_order_item (p_order_item x) x"
  by (cases x) (auto simp: p_order_item_def intro: g_order_item.intros p_column_g)

lemma p_limit_g:
  "limit_ok l \<Longrightarrow> limit_ok off \<Longrightarrow> l = None \<longrightarrow> off = None \<Longrightarrow> g_limit (p_limit l off) (l, off)"
  by (auto simp: p_limit_def limit_ok_def g_limit_word non_neg_int_def int_text_parse
      int64_range_def split: option.splits)

lemma p_query_g:
  assumes "wf_query q" "list_all no_float (query_values q)"
  shows "g_query pf (p_query q) q"
proof (cases q)
  case (fields star items from_ref joins wh group_by order_by limit offset)
  have cols: "g_columns_clause (if star then [sStar] else p_list p_select_item items) (star, items)"
    using assms(1) fields
    by (auto simp: wf_query_def g_columns_clause_word list_all_iff intro!: p_list_g p_select_item_g)
  have tab: "g_table_ref (p_table_ref from_ref) from_ref"
    using assms(1) fields by (auto simp: wf_query_def intro: p_table_ref_g)
  have joins: "g_joins pf (concat (map p_join joins)) joins"
    using assms fields by (intro p_joins_g) (auto simp: wf_query_def query_values_def)
  have wh: "g_where pf (case wh of None \<Rightarrow> [] | Some c \<Rightarrow> kw ''WHERE'' # p_cond c) wh"
    using assms fields
    by (auto simp: wf_query_def query_values_def g_where_word intro: p_cond_g split: option.splits)
  have grp: "g_group (if group_by = [] then [] else kw ''GROUP'' # kw ''BY'' # p_list p_column group_by)
    group_by"
    using assms(1) fields
    by (auto simp: wf_query_def g_group_word list_all_iff intro!: p_list_g p_column_g)
  have ord: "g_order (if order_by = [] then [] else kw ''ORDER'' # kw ''BY'' # p_list p_order_item order_by)
    order_by"
    using assms(1) fields
    by (auto simp: wf_query_def g_order_word list_all_iff intro!: p_list_g p_order_item_g)
  have lim: "g_limit (p_limit limit offset) (limit, offset)"
    using assms(1) fields by (intro p_limit_g) (auto simp: wf_query_def)
  from g_query.intros [OF cols tab joins wh grp ord lim] show ?thesis
    by (simp only: fields p_query_def query.select_convs)
qed

section \<open>Printed queries are lexed back\<close>

abbreviation printed_ok :: "sym list \<Rightarrow> bool" where
  "printed_ok w \<equiv> list_all (\<lambda>s. token_text_ok (fst s) (snd s) \<and> fst s \<noteq> TokEOF) w"

lemma p_basic_ok:
  "column_ok c \<Longrightarrow> printed_ok (p_column c)" "value_ok v \<Longrightarrow> no_float v \<Longrightarrow> printed_ok (p_value v)"
  "opt_ident_ok a \<Longrightarrow> printed_ok (p_alias a)" "table_ref_ok r \<Longrightarrow> printed_ok (p_table_ref r)"
  "printed_ok (p_limit l off)"
  by (auto simp: p_column_def p_value_def p_alias_def p_table_ref_def p_limit_def column_ok_def
      opt_ident_ok_def ident_ok_def table_ref_ok_def no_float_def value_ok_def int_text_number
      keyword_list_def split: go_value.splits option.splits)

lemma p_list_ok: "(\<And>x. x \<in> set xs \<Longrightarrow> printed_ok (f x)) \<Longrightarrow> printed_ok (p_list f xs)"
  by (induction xs) auto

lemma p_cond_ok: "cond_ok c \<Longrightarrow> list_all no_float (cond_values c) \<Longrightarrow> printed_ok (p_cond c)"
proof (induction c)
  case (In c vs)
  then have "printed_ok (p_list p_value vs)" by (intro p_list_ok p_basic_ok) (auto simp: list_all_iff)
  with In show ?case by (auto simp: p_basic_ok keyword_list_def)
qed (auto simp: p_basic_ok keyword_list_def split: option.splits logical_op.splits)

lemma agg_keywords: "agg \<in> set agg_funcs \<Longrightarrow> agg \<in> set keyword_list"
  by (auto simp: agg_funcs_def keyword_list_def)

lemma p_items_ok:
  "select_item_ok x \<Longrightarrow> printed_ok (p_select_item x)" "column_ok (o_column y) \<Longrightarrow> printed_ok (p_order_item y)"
  "join_ok j \<Longrightarrow> list_all no_float (cond_values (j_on j)) \<Longrightarrow> printed_ok (p_join j)"
  by (auto simp: p_select_item_def select_item_ok_def p_order_item_def p_join_def join_ok_def
      p_basic_ok p_cond_ok agg_keywords split: join_type.splits if_splits)
    (auto simp: keyword_list_def)

lemma p_query_ok:
  assumes "wf_query q" "list_all no_float (query_values q)"
  shows "printed_ok (p_query q)"
proof -
  have j: "printed_ok (p_join j)" if "j \<in> set (q_joins q)" for j
    using assms that by (intro p_items_ok) (auto simp: wf_query_def query_values_def list_all_iff)
  have i: "printed_ok (p_list p_select_item (q_columns q))"
    using assms(1)
    by (intro p_list_ok p_items_ok) (auto simp: wf_query_def list_all_iff split: if_splits)
  have c: "printed_ok (p_cond c)" if "q_where q = Some c" for c
    using assms that by (intro p_cond_ok) (auto simp: wf_query_def query_values_def)
  have g: "printed_ok (p_list p_column (q_group_by q))" "printed_ok (p_list p_order_item (q_order_by q))"
    using assms(1)
    by (intro p_list_ok p_basic_ok p_items_ok; simp add: wf_query_def list_all_iff)+
  have t: "printed_ok (p_table_ref (q_from q))"
    using assms(1) by (intro p_basic_ok) (simp add: wf_query_def)
  have "printed_ok (concat (map p_join (q_joins q)))" using j by (auto simp: list_all_iff)
  with i c g t p_basic_ok(5) show ?thesis
    by (auto simp: p_query_def keyword_list_def split: option.splits)
qed

lemma print_lex:
  assumes "wf_query q" "list_all no_float (query_values q)"
  shows "\<exists>ts. lex (print_query q) = Inr ts \<and> map sym_of (butlast ts) = p_query q"
proof -
  have "lex (print_query q) = Inr (place 0 (map (\<lambda>s. tok (fst s) (snd s) 0) (p_query q)))"
    unfolding print_query_def
    by (rule lex_render) (use p_query_ok [OF assms] in \<open>simp add: list_all_iff\<close>)
  with map_sym_place show ?thesis by blast
qed

lemma print_parse_back:
  "wf_query q \<Longrightarrow> list_all no_float (query_values q) \<Longrightarrow> parse pf (print_query q) = Inr q"
  using print_lex [of q] p_query_g [of q pf] by (auto simp: parse_grammar)

section \<open>Properties\<close>

text \<open>
  C28: Every query the parser returns is well formed: identifiers of the restricted form that
  are no keywords, aggregates and operators from the closed sets, a star only under \<open>COUNT\<close>, a
  string after \<open>LIKE\<close>, a non-empty \<open>IN\<close> list, integer literals in the range of \<open>int64\<close>, and a
  limit and an offset that are not negative, the offset only beside a limit.
\<close>

theorem parse_well_formed:
  assumes "parse pf src = Inr q"
  shows "wf_query q"
  using assms by (rule parse_wf)

theorem parse_well_formed_witness: "wf_query star_query"
  by (rule parse_well_formed [of "\<lambda>_. None" "''select * From t''"]) code_simp

text \<open>
  C18: The parser reads back what the printer writes: every well-formed query without floating
  point literals is the parse of its printed text. With the well-formedness of what the parser gives, its
  results are, such literals apart, exactly the well-formed queries.
\<close>

theorem print_parse_roundtrip:
  assumes "wf_query q" and "list_all no_float (query_values q)"
  shows "parse pf (print_query q) = Inr q"
  using assms by (rule print_parse_back)

definition sample_query :: query where
  "sample_query = star_query\<lparr>q_where := Some (NotC (Logical OpOr
     (In \<lparr>col_table = ''t'', col_name = ''a''\<rparr>
       [\<lparr>v_kind = NumberVal, v_go = GoInt (- 5)\<rparr>, \<lparr>v_kind = NullVal, v_go = GoNil\<rparr>])
     (Like \<lparr>col_table = [], col_name = ''b''\<rparr> \<lparr>v_kind = StringVal, v_go = GoString ''x''\<rparr>))),
     q_limit := Some 10\<rparr>"

theorem print_parse_roundtrip_witness:
  "parse (\<lambda>_. None) (print_query sample_query) = Inr sample_query"
  by (rule print_parse_roundtrip) code_simp+

end
