(* ===== verification/Sqlq_Translate.thy ===== *)
theory Sqlq_Translate
  imports Sqlq_Catalog Sqlq_Printer
begin

text \<open>
  From a resolved query to a prepared statement (\<open>internal/sqlq/translate.go\<close>).

  The statement is built by the third-party query builder goqu. It is a parameter: the record
  \<open>goqu\<close> has one field per function or method of it the code calls, over a type \<open>'x\<close> of
  expressions and a type \<open>'d\<close> of select datasets. An argument the code passes as a Go value, and
  goqu binds, has type \<open>go_value\<close>; a name it passes to be quoted has type \<open>string\<close>. The locale
  \<open>sql_semantics\<close> is what the code relies on when it negates a condition: the negated form of
  each builder denotes the negation, in SQL's three-valued logic, of the plain form. The
  instance \<open>recorder\<close> keeps the calls as a tree; it gives the locale a concrete meaning and
  shows which names and values reach the builder, and as what.
\<close>

record ('x, 'd, 'e) goqu =
  gq_table :: "string \<Rightarrow> 'x"
  gq_column :: "string \<Rightarrow> 'x"
  gq_col :: "'x \<Rightarrow> string \<Rightarrow> 'x"
  gq_as :: "'x \<Rightarrow> string \<Rightarrow> 'x"
  gq_star :: "'x"
  gq_count :: "'x \<Rightarrow> 'x"
  gq_sum :: "'x \<Rightarrow> 'x"
  gq_avg :: "'x \<Rightarrow> 'x"
  gq_min :: "'x \<Rightarrow> 'x"
  gq_max :: "'x \<Rightarrow> 'x"
  gq_and :: "'x \<Rightarrow> 'x \<Rightarrow> 'x"
  gq_or :: "'x \<Rightarrow> 'x \<Rightarrow> 'x"
  gq_eq :: "'x \<Rightarrow> 'x + go_value \<Rightarrow> 'x"
  gq_neq :: "'x \<Rightarrow> 'x + go_value \<Rightarrow> 'x"
  gq_lt :: "'x \<Rightarrow> 'x + go_value \<Rightarrow> 'x"
  gq_lte :: "'x \<Rightarrow> 'x + go_value \<Rightarrow> 'x"
  gq_gt :: "'x \<Rightarrow> 'x + go_value \<Rightarrow> 'x"
  gq_gte :: "'x \<Rightarrow> 'x + go_value \<Rightarrow> 'x"
  gq_in :: "'x \<Rightarrow> go_value list \<Rightarrow> 'x"
  gq_not_in :: "'x \<Rightarrow> go_value list \<Rightarrow> 'x"
  gq_like :: "'x \<Rightarrow> go_value \<Rightarrow> 'x"
  gq_not_like :: "'x \<Rightarrow> go_value \<Rightarrow> 'x"
  gq_is_null :: "'x \<Rightarrow> 'x"
  gq_is_not_null :: "'x \<Rightarrow> 'x"
  gq_between :: "'x \<Rightarrow> go_value \<times> go_value \<Rightarrow> 'x"
  gq_not_between :: "'x \<Rightarrow> go_value \<times> go_value \<Rightarrow> 'x"
  gq_desc :: "'x \<Rightarrow> 'x"
  gq_asc :: "'x \<Rightarrow> 'x"
  gq_from :: "string \<Rightarrow> 'x \<Rightarrow> 'd"
  gq_inner_join :: "'d \<Rightarrow> 'x \<Rightarrow> 'x \<Rightarrow> 'd"
  gq_left_join :: "'d \<Rightarrow> 'x \<Rightarrow> 'x \<Rightarrow> 'd"
  gq_right_join :: "'d \<Rightarrow> 'x \<Rightarrow> 'x \<Rightarrow> 'd"
  gq_select :: "'d \<Rightarrow> 'x list \<Rightarrow> 'd"
  gq_where :: "'d \<Rightarrow> 'x \<Rightarrow> 'd"
  gq_group_by :: "'d \<Rightarrow> 'x list \<Rightarrow> 'd"
  gq_order :: "'d \<Rightarrow> 'x list \<Rightarrow> 'd"
  gq_limit :: "'d \<Rightarrow> 64 word \<Rightarrow> 'd"
  gq_offset :: "'d \<Rightarrow> 64 word \<Rightarrow> 'd"
  gq_prepared :: "'d \<Rightarrow> bool \<Rightarrow> 'd"
  gq_to_sql :: "'d \<Rightarrow> 'e + string \<times> go_value list"

section \<open>Expressions\<close>

definition table_expr :: "('x, 'd, 'e) goqu \<Rightarrow> table_ref \<Rightarrow> 'x" where
  "table_expr G ref =
     (let t = gq_table G (tr_name ref)
      in if tr_alias ref \<noteq> [] then gq_as G t (tr_alias ref) else t)"

definition col_ident :: "('x, 'd, 'e) goqu \<Rightarrow> column \<Rightarrow> 'x" where
  "col_ident G c =
     (if col_table c = [] then gq_column G (col_name c)
      else gq_col G (gq_table G (col_table c)) (col_name c))"

definition agg_expr :: "('x, 'd, 'e) goqu \<Rightarrow> string \<Rightarrow> 'x \<Rightarrow> 'x" where
  "agg_expr G agg arg =
     (if agg = ''COUNT'' then gq_count G arg
      else if agg = ''SUM'' then gq_sum G arg
      else if agg = ''AVG'' then gq_avg G arg
      else if agg = ''MIN'' then gq_min G arg
      else if agg = ''MAX'' then gq_max G arg
      else gq_count G arg)"

definition select_expr :: "('x, 'd, 'e) goqu \<Rightarrow> select_item \<Rightarrow> 'x" where
  "select_expr G item =
     (let base =
        (if si_agg item \<noteq> [] then
           agg_expr G (si_agg item)
             (if si_star item then gq_star G else col_ident G (si_column item))
         else col_ident G (si_column item))
      in if si_alias item \<noteq> [] then gq_as G base (si_alias item) else base)"

definition negate_op :: "string \<Rightarrow> string" where
  "negate_op op =
     (if op = ''='' then ''!=''
      else if op = ''!='' \<or> op = ''<>'' then ''=''
      else if op = ''<'' then ''>=''
      else if op = ''<='' then ''>''
      else if op = ''>'' then ''<=''
      else if op = ''>='' then ''<''
      else op)"

definition compare_expr ::
  "('x, 'd, 'e) goqu \<Rightarrow> column \<Rightarrow> string \<Rightarrow> sql_value \<Rightarrow> column option \<Rightarrow> bool \<Rightarrow> 'x" where
  "compare_expr G c op0 v rc negate =
     (let op = (if negate then negate_op op0 else op0);
          i = col_ident G c;
          val = (case rc of Some r \<Rightarrow> Inl (col_ident G r) | None \<Rightarrow> Inr (v_go v))
      in if op = ''='' then gq_eq G i val
         else if op = ''!='' \<or> op = ''<>'' then gq_neq G i val
         else if op = ''<'' then gq_lt G i val
         else if op = ''<='' then gq_lte G i val
         else if op = ''>'' then gq_gt G i val
         else if op = ''>='' then gq_gte G i val
         else gq_eq G i val)"

definition go_values :: "sql_value list \<Rightarrow> go_value list" where
  "go_values vs = map v_go vs"

text \<open>\<open>buildCond\<close>. Its only error is for a type outside the closed interface.\<close>

fun build_cond :: "('x, 'd, 'e) goqu \<Rightarrow> condition \<Rightarrow> bool \<Rightarrow> 'x" where
  "build_cond G (Logical op l r) negate =
     (let left = build_cond G l negate; right = build_cond G r negate
      in if (op = OpAnd) \<noteq> negate then gq_and G left right else gq_or G left right)"
| "build_cond G (NotC c) negate = build_cond G c (\<not> negate)"
| "build_cond G (Comparison c op v rc) negate = compare_expr G c op v rc negate"
| "build_cond G (In c vs) negate =
     (if negate then gq_not_in G (col_ident G c) (go_values vs)
      else gq_in G (col_ident G c) (go_values vs))"
| "build_cond G (Like c v) negate =
     (if negate then gq_not_like G (col_ident G c) (v_go v)
      else gq_like G (col_ident G c) (v_go v))"
| "build_cond G (IsNull c neg) negate =
     (if neg \<noteq> negate then gq_is_not_null G (col_ident G c) else gq_is_null G (col_ident G c))"
| "build_cond G (Between c l h) negate =
     (if negate then gq_not_between G (col_ident G c) (v_go l, v_go h)
      else gq_between G (col_ident G c) (v_go l, v_go h))"

section \<open>The statement\<close>

definition join_ds :: "('x, 'd, 'e) goqu \<Rightarrow> 'd \<Rightarrow> join \<Rightarrow> 'd" where
  "join_ds G ds j =
     (let cond = build_cond G (j_on j) False; table = table_expr G (j_table j)
      in case j_type j of
           InnerJoin \<Rightarrow> gq_inner_join G ds table cond
         | LeftJoin \<Rightarrow> gq_left_join G ds table cond
         | RightJoin \<Rightarrow> gq_right_join G ds table cond)"

definition order_expr :: "('x, 'd, 'e) goqu \<Rightarrow> order_item \<Rightarrow> 'x" where
  "order_expr G item =
     (let i = col_ident G (o_column item) in if o_desc item then gq_desc G i else gq_asc G i)"

text \<open>\<open>ds.Limit(uint( *q.Limit))\<close>, then \<open>Offset\<close>: the conversion to \<open>uint\<close> wraps.\<close>

definition limit_ds :: "('x, 'd, 'e) goqu \<Rightarrow> 'd \<Rightarrow> query \<Rightarrow> 'd" where
  "limit_ds G ds q =
     (case q_limit q of
        None \<Rightarrow> ds
      | Some n \<Rightarrow>
          let ds = gq_limit G ds (word_of_int n)
          in case q_offset q of None \<Rightarrow> ds | Some m \<Rightarrow> gq_offset G ds (word_of_int m))"

text \<open>The dataset \<open>Translate\<close> builds, clause by clause.\<close>

definition build_ds :: "('x, 'd, 'e) goqu \<Rightarrow> query \<Rightarrow> engine \<Rightarrow> 'd" where
  "build_ds G q eng =
     (let ds = gq_from G (engine_dialect eng) (table_expr G (q_from q));
          ds = foldl (join_ds G) ds (q_joins q);
          ds = (if q_star q then ds else gq_select G ds (map (select_expr G) (q_columns q)));
          ds = (case q_where q of None \<Rightarrow> ds | Some c \<Rightarrow> gq_where G ds (build_cond G c False));
          ds = (if q_group_by q \<noteq> [] then gq_group_by G ds (map (col_ident G) (q_group_by q)) else ds);
          ds = (if q_order_by q \<noteq> [] then gq_order G ds (map (order_expr G) (q_order_by q)) else ds)
      in limit_ds G ds q)"

definition translate :: "('x, 'd, 'e) goqu \<Rightarrow> query \<Rightarrow> engine \<Rightarrow> 'e + string \<times> go_value list" where
  "translate G q eng = gq_to_sql G (gq_prepared G (build_ds G q eng) True)"

section \<open>The meaning of a condition\<close>

text \<open>SQL's three-valued logic; \<open>None\<close> is unknown.\<close>

fun not3 :: "bool option \<Rightarrow> bool option" where
  "not3 None = None"
| "not3 (Some b) = Some (\<not> b)"

fun and3 :: "bool option \<Rightarrow> bool option \<Rightarrow> bool option" where
  "and3 (Some False) b = Some False"
| "and3 a (Some False) = Some False"
| "and3 (Some True) b = b"
| "and3 a (Some True) = a"
| "and3 None None = None"

definition or3 :: "bool option \<Rightarrow> bool option \<Rightarrow> bool option" where
  "or3 a b = not3 (and3 (not3 a) (not3 b))"

lemma not3_not3 [simp]: "not3 (not3 a) = a"
  by (cases a) auto

text \<open>
  What the code relies on: \<open>sem\<close> gives an expression its truth value in a row.
\<close>

locale sql_semantics =
  fixes G :: "('x, 'd, 'e) goqu" and sem :: "'x \<Rightarrow> 'r \<Rightarrow> bool option"
  assumes sem_and: "sem (gq_and G x y) r = and3 (sem x r) (sem y r)"
    and sem_or: "sem (gq_or G x y) r = or3 (sem x r) (sem y r)"
    and sem_neq: "sem (gq_neq G i v) r = not3 (sem (gq_eq G i v) r)"
    and sem_gte: "sem (gq_gte G i v) r = not3 (sem (gq_lt G i v) r)"
    and sem_lte: "sem (gq_lte G i v) r = not3 (sem (gq_gt G i v) r)"
    and sem_not_in: "sem (gq_not_in G i vs) r = not3 (sem (gq_in G i vs) r)"
    and sem_not_like: "sem (gq_not_like G i w) r = not3 (sem (gq_like G i w) r)"
    and sem_is_not_null: "sem (gq_is_not_null G i) r = not3 (sem (gq_is_null G i) r)"
    and sem_not_between: "sem (gq_not_between G i b) r = not3 (sem (gq_between G i b) r)"

text \<open>
  The meaning of a condition, read off its syntax: connectives and negation are those of the
  logic, every predicate is the plain builder for it.
\<close>

fun cond_meaning :: "('x, 'd, 'e) goqu \<Rightarrow> ('x \<Rightarrow> 'r \<Rightarrow> bool option) \<Rightarrow> condition \<Rightarrow> 'r \<Rightarrow> bool option" where
  "cond_meaning G sem (Logical op l h) r =
     (case op of OpAnd \<Rightarrow> and3 (cond_meaning G sem l r) (cond_meaning G sem h r)
      | OpOr \<Rightarrow> or3 (cond_meaning G sem l r) (cond_meaning G sem h r))"
| "cond_meaning G sem (NotC c) r = not3 (cond_meaning G sem c r)"
| "cond_meaning G sem (Comparison c op v rc) r =
     (let i = col_ident G c; val = (case rc of Some d \<Rightarrow> Inl (col_ident G d) | None \<Rightarrow> Inr (v_go v))
      in if op = ''='' then sem (gq_eq G i val) r
         else if op = ''!='' \<or> op = ''<>'' then sem (gq_neq G i val) r
         else if op = ''<'' then sem (gq_lt G i val) r
         else if op = ''<='' then sem (gq_lte G i val) r
         else if op = ''>'' then sem (gq_gt G i val) r
         else sem (gq_gte G i val) r)"
| "cond_meaning G sem (In c vs) r = sem (gq_in G (col_ident G c) (map v_go vs)) r"
| "cond_meaning G sem (Like c v) r = sem (gq_like G (col_ident G c) (v_go v)) r"
| "cond_meaning G sem (IsNull c neg) r =
     (if neg then sem (gq_is_not_null G (col_ident G c)) r else sem (gq_is_null G (col_ident G c)) r)"
| "cond_meaning G sem (Between c l h) r = sem (gq_between G (col_ident G c) (v_go l, v_go h)) r"

text \<open>The comparisons of a condition use the operators of the language.\<close>

fun ops_ok :: "condition \<Rightarrow> bool" where
  "ops_ok (Logical _ l r) \<longleftrightarrow> ops_ok l \<and> ops_ok r"
| "ops_ok (NotC c) \<longleftrightarrow> ops_ok c"
| "ops_ok (Comparison _ op _ _) \<longleftrightarrow> op \<in> set op_list"
| "ops_ok _ \<longleftrightarrow> True"

lemma cond_ok_ops: "cond_ok c \<Longrightarrow> ops_ok c"
  by (induction c) auto

context sql_semantics
begin

lemma compare_meaning:
  "op \<in> set op_list \<Longrightarrow> sem (compare_expr G c op v rc neg) r =
     (if neg then not3 (cond_meaning G sem (Comparison c op v rc) r)
      else cond_meaning G sem (Comparison c op v rc) r)"
  by (cases neg) (auto simp: op_list_def compare_expr_def negate_op_def Let_def sem_neq sem_gte sem_lte)

lemma build_cond_meaning:
  "ops_ok c \<Longrightarrow> sem (build_cond G c neg) r =
     (if neg then not3 (cond_meaning G sem c r) else cond_meaning G sem c r)"
proof (induction c arbitrary: neg)
  case (Logical op l h)
  then show ?case by (cases op; cases neg) (simp_all add: Let_def sem_and sem_or or3_def)
next
  case (Comparison c op v rc)
  then have "op \<in> set op_list" by simp
  from compare_meaning [OF this] show ?case by (simp only: build_cond.simps)
qed (auto simp: go_values_def sem_not_in sem_not_like sem_is_not_null sem_not_between)

end

section \<open>The recorded statement\<close>

datatype sql_expr =
    XTable string
  | XColumn string
  | XCol sql_expr string
  | XAs sql_expr string
  | XStar
  | XAgg string sql_expr
  | XAnd sql_expr sql_expr
  | XOr sql_expr sql_expr
  | XCmp string sql_expr "sql_expr + go_value"
  | XIn bool sql_expr "go_value list"
  | XLike bool sql_expr go_value
  | XNull bool sql_expr
  | XBetween bool sql_expr "go_value \<times> go_value"
  | XOrder bool sql_expr

record select_stmt =
  ss_dialect :: string
  ss_from :: sql_expr
  ss_joins :: "(join_type \<times> sql_expr \<times> sql_expr) list"
  ss_select :: "sql_expr list"
  ss_where :: "sql_expr list"
  ss_group :: "sql_expr list"
  ss_order :: "sql_expr list"
  ss_limit :: "64 word option"
  ss_offset :: "64 word option"
  ss_prepared :: bool

text \<open>The builder that keeps its calls; \<open>gen\<close> is its final \<open>ToSQL\<close>.\<close>

definition recorder ::
  "(select_stmt \<Rightarrow> 'e + string \<times> go_value list) \<Rightarrow> (sql_expr, select_stmt, 'e) goqu" where
  "recorder gen = \<lparr>
     gq_table = XTable, gq_column = XColumn, gq_col = XCol, gq_as = XAs, gq_star = XStar,
     gq_count = XAgg ''COUNT'', gq_sum = XAgg ''SUM'', gq_avg = XAgg ''AVG'',
     gq_min = XAgg ''MIN'', gq_max = XAgg ''MAX'', gq_and = XAnd, gq_or = XOr,
     gq_eq = XCmp ''='', gq_neq = XCmp ''!='', gq_lt = XCmp ''<'', gq_lte = XCmp ''<='',
     gq_gt = XCmp ''>'', gq_gte = XCmp ''>='', gq_in = XIn False, gq_not_in = XIn True,
     gq_like = XLike False, gq_not_like = XLike True, gq_is_null = XNull False,
     gq_is_not_null = XNull True, gq_between = XBetween False, gq_not_between = XBetween True,
     gq_desc = XOrder True, gq_asc = XOrder False,
     gq_from = (\<lambda>d x. \<lparr>ss_dialect = d, ss_from = x, ss_joins = [], ss_select = [], ss_where = [],
       ss_group = [], ss_order = [], ss_limit = None, ss_offset = None, ss_prepared = False\<rparr>),
     gq_inner_join = (\<lambda>d t c. d\<lparr>ss_joins := ss_joins d @ [(InnerJoin, t, c)]\<rparr>),
     gq_left_join = (\<lambda>d t c. d\<lparr>ss_joins := ss_joins d @ [(LeftJoin, t, c)]\<rparr>),
     gq_right_join = (\<lambda>d t c. d\<lparr>ss_joins := ss_joins d @ [(RightJoin, t, c)]\<rparr>),
     gq_select = (\<lambda>d xs. d\<lparr>ss_select := xs\<rparr>), gq_where = (\<lambda>d x. d\<lparr>ss_where := ss_where d @ [x]\<rparr>),
     gq_group_by = (\<lambda>d xs. d\<lparr>ss_group := xs\<rparr>), gq_order = (\<lambda>d xs. d\<lparr>ss_order := xs\<rparr>),
     gq_limit = (\<lambda>d n. d\<lparr>ss_limit := Some n\<rparr>), gq_offset = (\<lambda>d n. d\<lparr>ss_offset := Some n\<rparr>),
     gq_prepared = (\<lambda>d b. d\<lparr>ss_prepared := b\<rparr>), gq_to_sql = gen\<rparr>"

lemma recorder_sel [simp]:
  "gq_table (recorder gen) = XTable" "gq_column (recorder gen) = XColumn"
  "gq_col (recorder gen) = XCol" "gq_as (recorder gen) = XAs" "gq_star (recorder gen) = XStar"
  "gq_count (recorder gen) = XAgg ''COUNT''" "gq_sum (recorder gen) = XAgg ''SUM''"
  "gq_avg (recorder gen) = XAgg ''AVG''" "gq_min (recorder gen) = XAgg ''MIN''"
  "gq_max (recorder gen) = XAgg ''MAX''" "gq_and (recorder gen) = XAnd" "gq_or (recorder gen) = XOr"
  "gq_eq (recorder gen) = XCmp ''=''" "gq_neq (recorder gen) = XCmp ''!=''"
  "gq_lt (recorder gen) = XCmp ''<''" "gq_lte (recorder gen) = XCmp ''<=''"
  "gq_gt (recorder gen) = XCmp ''>''" "gq_gte (recorder gen) = XCmp ''>=''"
  "gq_in (recorder gen) = XIn False" "gq_not_in (recorder gen) = XIn True"
  "gq_like (recorder gen) = XLike False" "gq_not_like (recorder gen) = XLike True"
  "gq_is_null (recorder gen) = XNull False" "gq_is_not_null (recorder gen) = XNull True"
  "gq_between (recorder gen) = XBetween False" "gq_not_between (recorder gen) = XBetween True"
  "gq_desc (recorder gen) = XOrder True" "gq_asc (recorder gen) = XOrder False"
  "gq_to_sql (recorder gen) = gen"
  by (simp_all add: recorder_def)

lemma recorder_clauses [simp]:
  "gq_from (recorder gen) dl x = \<lparr>ss_dialect = dl, ss_from = x, ss_joins = [], ss_select = [],
     ss_where = [], ss_group = [], ss_order = [], ss_limit = None, ss_offset = None,
     ss_prepared = False\<rparr>"
  "gq_inner_join (recorder gen) d t c = d\<lparr>ss_joins := ss_joins d @ [(InnerJoin, t, c)]\<rparr>"
  "gq_left_join (recorder gen) d t c = d\<lparr>ss_joins := ss_joins d @ [(LeftJoin, t, c)]\<rparr>"
  "gq_right_join (recorder gen) d t c = d\<lparr>ss_joins := ss_joins d @ [(RightJoin, t, c)]\<rparr>"
  "gq_select (recorder gen) d xs = d\<lparr>ss_select := xs\<rparr>"
  "gq_where (recorder gen) d x = d\<lparr>ss_where := ss_where d @ [x]\<rparr>"
  "gq_group_by (recorder gen) d xs = d\<lparr>ss_group := xs\<rparr>"
  "gq_order (recorder gen) d xs = d\<lparr>ss_order := xs\<rparr>"
  "gq_limit (recorder gen) d n = d\<lparr>ss_limit := Some n\<rparr>"
  "gq_offset (recorder gen) d n = d\<lparr>ss_offset := Some n\<rparr>"
  "gq_prepared (recorder gen) d b = d\<lparr>ss_prepared := b\<rparr>"
  by (simp_all add: recorder_def)

text \<open>The names an expression passes to be quoted, and the values it passes to be bound.\<close>

fun expr_names :: "sql_expr \<Rightarrow> string list" where
  "expr_names (XTable t) = [t]"
| "expr_names (XColumn c) = [c]"
| "expr_names (XCol x c) = expr_names x @ [c]"
| "expr_names (XAs x a) = expr_names x @ [a]"
| "expr_names XStar = []"
| "expr_names (XAgg _ x) = expr_names x"
| "expr_names (XAnd x y) = expr_names x @ expr_names y"
| "expr_names (XOr x y) = expr_names x @ expr_names y"
| "expr_names (XCmp _ x v) = expr_names x @ (case v of Inl y \<Rightarrow> expr_names y | Inr _ \<Rightarrow> [])"
| "expr_names (XIn _ x _) = expr_names x"
| "expr_names (XLike _ x _) = expr_names x"
| "expr_names (XNull _ x) = expr_names x"
| "expr_names (XBetween _ x _) = expr_names x"
| "expr_names (XOrder _ x) = expr_names x"

fun expr_values :: "sql_expr \<Rightarrow> go_value list" where
  "expr_values (XAs x _) = expr_values x"
| "expr_values (XAgg _ x) = expr_values x"
| "expr_values (XAnd x y) = expr_values x @ expr_values y"
| "expr_values (XOr x y) = expr_values x @ expr_values y"
| "expr_values (XCmp _ x v) = expr_values x @ (case v of Inl y \<Rightarrow> expr_values y | Inr g \<Rightarrow> [g])"
| "expr_values (XIn _ x vs) = expr_values x @ vs"
| "expr_values (XLike _ x v) = expr_values x @ [v]"
| "expr_values (XNull _ x) = expr_values x"
| "expr_values (XBetween _ x b) = expr_values x @ [fst b, snd b]"
| "expr_values (XOrder _ x) = expr_values x"
| "expr_values _ = []"

definition stmt_names :: "select_stmt \<Rightarrow> string list" where
  "stmt_names s = expr_names (ss_from s)
     @ concat (map (\<lambda>(_, t, c). expr_names t @ expr_names c) (ss_joins s))
     @ concat (map expr_names (ss_select s)) @ concat (map expr_names (ss_where s))
     @ concat (map expr_names (ss_group s)) @ concat (map expr_names (ss_order s))"

definition stmt_values :: "select_stmt \<Rightarrow> go_value list" where
  "stmt_values s = expr_values (ss_from s)
     @ concat (map (\<lambda>(_, t, c). expr_values t @ expr_values c) (ss_joins s))
     @ concat (map expr_values (ss_select s)) @ concat (map expr_values (ss_where s))
     @ concat (map expr_values (ss_group s)) @ concat (map expr_values (ss_order s))"

text \<open>The names a query mentions, in the order of its clauses.\<close>

definition col_names :: "column \<Rightarrow> string list" where
  "col_names c = (if col_table c = [] then [] else [col_table c]) @ [col_name c]"

definition ref_names :: "table_ref \<Rightarrow> string list" where
  "ref_names ref = tr_name ref # (if tr_alias ref = [] then [] else [tr_alias ref])"

definition item_names :: "select_item \<Rightarrow> string list" where
  "item_names x = (if si_star x then [] else col_names (si_column x))
     @ (if si_alias x = [] then [] else [si_alias x])"

definition query_names :: "query \<Rightarrow> string list" where
  "query_names q = ref_names (q_from q)
     @ concat (map (\<lambda>j. ref_names (j_table j) @ concat (map col_names (cond_columns (j_on j)))) (q_joins q))
     @ (if q_star q then [] else concat (map item_names (q_columns q)))
     @ concat (map col_names (where_columns (q_where q)))
     @ concat (map col_names (q_group_by q)) @ concat (map (\<lambda>x. col_names (o_column x)) (q_order_by q))"

lemma concat_Nils [simp]: "concat (map (\<lambda>x. []) xs) = []"
  by (induction xs) auto

lemma col_ident_recorded [simp]:
  "expr_names (col_ident (recorder gen) c) = col_names c"
  "expr_values (col_ident (recorder gen) c) = []"
  by (simp_all add: col_ident_def col_names_def)

lemma table_expr_recorded [simp]:
  "expr_names (table_expr (recorder gen) ref) = ref_names ref"
  "expr_values (table_expr (recorder gen) ref) = []"
  by (simp_all add: table_expr_def ref_names_def Let_def)

lemma compare_recorder:
  "\<exists>k. compare_expr (recorder gen) c op v rc neg = XCmp k (col_ident (recorder gen) c)
     (case rc of Some d \<Rightarrow> Inl (col_ident (recorder gen) d) | None \<Rightarrow> Inr (v_go v))"
proof -
  have "\<exists>k. (if o1 = ''='' then XCmp ''='' i w else if o1 = ''!='' \<or> o1 = ''<>'' then XCmp ''!='' i w
    else if o1 = ''<'' then XCmp ''<'' i w else if o1 = ''<='' then XCmp ''<='' i w
    else if o1 = ''>'' then XCmp ''>'' i w else if o1 = ''>='' then XCmp ''>='' i w
    else XCmp ''='' i w) = XCmp k i w" for o1 i w by simp
  then show ?thesis by (simp only: compare_expr_def Let_def recorder_sel)
qed

lemma compare_recorded:
  "expr_names (compare_expr (recorder gen) c op v rc neg) =
     col_names c @ (case rc of None \<Rightarrow> [] | Some d \<Rightarrow> col_names d)"
  "expr_values (compare_expr (recorder gen) c op v rc neg) =
     (case rc of None \<Rightarrow> [v_go v] | Some _ \<Rightarrow> [])"
proof -
  obtain k where "compare_expr (recorder gen) c op v rc neg = XCmp k (col_ident (recorder gen) c)
     (case rc of Some d \<Rightarrow> Inl (col_ident (recorder gen) d) | None \<Rightarrow> Inr (v_go v))"
    using compare_recorder by blast
  then show
    "expr_names (compare_expr (recorder gen) c op v rc neg) =
       col_names c @ (case rc of None \<Rightarrow> [] | Some d \<Rightarrow> col_names d)"
    "expr_values (compare_expr (recorder gen) c op v rc neg) =
       (case rc of None \<Rightarrow> [v_go v] | Some _ \<Rightarrow> [])"
    by (cases rc; simp)+
qed

lemma build_cond_recorded:
  "expr_names (build_cond (recorder gen) c neg) = concat (map col_names (cond_columns c))"
  "expr_values (build_cond (recorder gen) c neg) = map v_go (cond_values c)"
  by (induction c arbitrary: neg)
    (auto simp: Let_def compare_recorded go_values_def split: option.splits)

lemma agg_recorded [simp]:
  "expr_names (agg_expr (recorder gen) agg x) = expr_names x"
  "expr_values (agg_expr (recorder gen) agg x) = expr_values x"
  by (simp_all add: agg_expr_def)

text \<open>A star stands only under an aggregate, as the parser guarantees.\<close>

definition stars_ok :: "query \<Rightarrow> bool" where
  "stars_ok q \<longleftrightarrow> list_all (\<lambda>x. si_star x \<longrightarrow> si_agg x \<noteq> []) (q_columns q)"

lemma select_recorded:
  "(si_star x \<longrightarrow> si_agg x \<noteq> []) \<Longrightarrow> expr_names (select_expr (recorder gen) x) = item_names x"
  "expr_values (select_expr (recorder gen) x) = []"
  by (auto simp: select_expr_def item_names_def Let_def)

lemma order_recorded [simp]:
  "expr_names (order_expr (recorder gen) x) = col_names (o_column x)"
  "expr_values (order_expr (recorder gen) x) = []"
  by (simp_all add: order_expr_def Let_def)

lemma joins_recorded:
  "foldl (join_ds (recorder gen)) ds js = ds\<lparr>ss_joins := ss_joins ds @
     map (\<lambda>j. (j_type j, table_expr (recorder gen) (j_table j), build_cond (recorder gen) (j_on j) False)) js\<rparr>"
proof (induction js arbitrary: ds)
  case (Cons j js)
  have "join_ds (recorder gen) ds j = ds\<lparr>ss_joins := ss_joins ds @
    [(j_type j, table_expr (recorder gen) (j_table j), build_cond (recorder gen) (j_on j) False)]\<rparr>"
    by (cases "j_type j") (simp_all add: join_ds_def Let_def)
  with Cons show ?case by simp
qed simp

text \<open>The statement a query becomes, written out.\<close>

lemma build_ds_recorded:
  "build_ds (recorder gen) q eng = \<lparr>ss_dialect = engine_dialect eng,
     ss_from = table_expr (recorder gen) (q_from q),
     ss_joins = map (\<lambda>j. (j_type j, table_expr (recorder gen) (j_table j),
       build_cond (recorder gen) (j_on j) False)) (q_joins q),
     ss_select = (if q_star q then [] else map (select_expr (recorder gen)) (q_columns q)),
     ss_where = (case q_where q of None \<Rightarrow> [] | Some c \<Rightarrow> [build_cond (recorder gen) c False]),
     ss_group = map (col_ident (recorder gen)) (q_group_by q),
     ss_order = map (order_expr (recorder gen)) (q_order_by q),
     ss_limit = map_option word_of_int (q_limit q),
     ss_offset = (if q_limit q = None then None else map_option word_of_int (q_offset q)),
     ss_prepared = False\<rparr>"
  unfolding build_ds_def joins_recorded
  by (cases "q_where q"; cases "q_limit q"; cases "q_offset q") (simp_all add: limit_ds_def Let_def)


text \<open>The statement handed to \<open>ToSQL\<close>, its values and its names.\<close>

definition recorded_stmt ::
  "(select_stmt \<Rightarrow> 'e + string \<times> go_value list) \<Rightarrow> query \<Rightarrow> engine \<Rightarrow> select_stmt" where
  "recorded_stmt gen q eng = (build_ds (recorder gen) q eng)\<lparr>ss_prepared := True\<rparr>"

lemma translate_recorded: "translate (recorder gen) q eng = gen (recorded_stmt gen q eng)"
  by (simp add: translate_def recorded_stmt_def)

lemma recorded_values: "stmt_values (recorded_stmt gen q eng) = map v_go (query_values q)"
  by (simp add: recorded_stmt_def stmt_values_def build_ds_recorded query_values_def build_cond_recorded
      select_recorded(2) comp_def map_concat split: option.splits)

lemma recorded_names:
  assumes "stars_ok q"
  shows "stmt_names (recorded_stmt gen q eng) = query_names q"
proof -
  have cols: "map (expr_names \<circ> select_expr (recorder gen)) (q_columns q) = map item_names (q_columns q)"
    using assms select_recorded(1) by (auto simp: stars_ok_def list_all_iff)
  then show ?thesis
    by (simp add: recorded_stmt_def stmt_names_def build_ds_recorded query_names_def build_cond_recorded
        cols where_columns_def comp_def split: option.splits) (simp add: cols [unfolded comp_def])
qed

section \<open>A meaning for the recorded conditions\<close>

text \<open>
  A row gives every qualified or bare column a value. Values of one kind compare; anything
  with \<open>NULL\<close> is unknown, except that goqu turns equality with a literal \<open>NULL\<close> into \<open>IS NULL\<close>.
\<close>

type_synonym row = "string \<times> string \<Rightarrow> go_value"

fun ident_value :: "row \<Rightarrow> sql_expr \<Rightarrow> go_value" where
  "ident_value row (XColumn n) = row ([], n)"
| "ident_value row (XCol (XTable t) n) = row (t, n)"
| "ident_value row _ = GoNil"

fun less_value :: "go_value \<Rightarrow> go_value \<Rightarrow> bool option" where
  "less_value (GoInt a) (GoInt b) = Some (a < b)"
| "less_value (GoString a) (GoString b) = Some (a < b)"
| "less_value (GoBool a) (GoBool b) = Some (a < b)"
| "less_value _ _ = None"

fun equal_value :: "go_value \<Rightarrow> go_value \<Rightarrow> bool option" where
  "equal_value GoNil _ = None"
| "equal_value _ GoNil = None"
| "equal_value a b = Some (a = b)"

definition operand_value :: "row \<Rightarrow> sql_expr + go_value \<Rightarrow> go_value" where
  "operand_value row v = (case v of Inl x \<Rightarrow> ident_value row x | Inr g \<Rightarrow> g)"

fun like_match :: "string \<Rightarrow> string \<Rightarrow> bool" where
  "like_match [] s \<longleftrightarrow> s = []"
| "like_match (c # p) s \<longleftrightarrow>
     (if c = CHR ''%'' then like_match p s \<or> (case s of [] \<Rightarrow> False | _ # s' \<Rightarrow> like_match (c # p) s')
      else case s of [] \<Rightarrow> False | d # s' \<Rightarrow> (c = CHR ''_'' \<or> c = d) \<and> like_match p s')"

fun like_value :: "go_value \<Rightarrow> go_value \<Rightarrow> bool option" where
  "like_value (GoString s) (GoString p) = Some (like_match p s)"
| "like_value _ _ = None"

definition equal_literal :: "row \<Rightarrow> sql_expr \<Rightarrow> sql_expr + go_value \<Rightarrow> bool option" where
  "equal_literal row x v =
     (if v = Inr GoNil then Some (ident_value row x = GoNil)
      else equal_value (ident_value row x) (operand_value row v))"

definition tree_compare :: "string \<Rightarrow> row \<Rightarrow> sql_expr \<Rightarrow> sql_expr + go_value \<Rightarrow> bool option" where
  "tree_compare op row x v =
     (if op = ''='' then equal_literal row x v
      else if op = ''!='' then not3 (equal_literal row x v)
      else if op = ''<'' then less_value (ident_value row x) (operand_value row v)
      else if op = ''>='' then not3 (less_value (ident_value row x) (operand_value row v))
      else if op = ''>'' then less_value (operand_value row v) (ident_value row x)
      else not3 (less_value (operand_value row v) (ident_value row x)))"

abbreviation neg3 :: "bool \<Rightarrow> bool option \<Rightarrow> bool option" where
  "neg3 neg b \<equiv> (if neg then not3 b else b)"

fun tree_sem :: "sql_expr \<Rightarrow> row \<Rightarrow> bool option" where
  "tree_sem (XAnd x y) row = and3 (tree_sem x row) (tree_sem y row)"
| "tree_sem (XOr x y) row = or3 (tree_sem x row) (tree_sem y row)"
| "tree_sem (XCmp op x v) row = tree_compare op row x v"
| "tree_sem (XIn neg x vs) row =
     neg3 neg (foldr or3 (map (equal_value (ident_value row x)) vs) (Some False))"
| "tree_sem (XLike neg x v) row = neg3 neg (like_value (ident_value row x) v)"
| "tree_sem (XNull neg x) row = neg3 neg (Some (ident_value row x = GoNil))"
| "tree_sem (XBetween neg x b) row =
     neg3 neg (and3 (not3 (less_value (ident_value row x) (fst b)))
       (not3 (less_value (snd b) (ident_value row x))))"
| "tree_sem _ row = None"

interpretation tree: sql_semantics "recorder gen" tree_sem for gen
  by unfold_locales (simp_all add: tree_compare_def)

section \<open>Properties\<close>

text \<open>
  C6: Pushing negation down is correct: the expression built for a condition has, in every row,
  the meaning read off the condition's syntax, negated in three-valued logic if asked for. So
  \<open>NOT\<close> over any nesting of \<open>AND\<close>, \<open>OR\<close>, \<open>NOT\<close> and predicates selects the rows it should, also
  where values are \<open>NULL\<close>, although the builder is never given a negation of a compound.
\<close>

theorem negation_pushed_down:
  assumes "sql_semantics G sem" and "ops_ok c"
  shows "sem (build_cond G c negate) r =
    (if negate then not3 (cond_meaning G sem c r) else cond_meaning G sem c r)"
  using assms by (rule sql_semantics.build_cond_meaning)

text \<open>\<open>NOT (a < 3 OR b IS NULL)\<close>.\<close>

definition not_or_cond :: condition where
  "not_or_cond = NotC (Logical OpOr
     (Comparison \<lparr>col_table = ''t'', col_name = ''a''\<rparr> ''<'' \<lparr>v_kind = NumberVal, v_go = GoInt 3\<rparr> None)
     (IsNull \<lparr>col_table = ''t'', col_name = ''b''\<rparr> False))"

definition sample_row :: row where
  "sample_row k = (if k = (''t'', ''a'') then GoInt 5 else if k = (''t'', ''b'') then GoString ''x'' else GoNil)"

definition sample_gen :: "select_stmt \<Rightarrow> unit + string \<times> go_value list" where
  "sample_gen s = Inr (ss_dialect s, stmt_values s)"

theorem negation_pushed_down_witness:
  "tree_sem (build_cond (recorder sample_gen) not_or_cond False) sample_row = Some True"
proof -
  have "cond_meaning (recorder sample_gen) tree_sem not_or_cond sample_row = Some True"
    by (simp add: not_or_cond_def sample_row_def col_ident_def or3_def Let_def tree_compare_def
        operand_value_def)
  moreover have "ops_ok not_or_cond" by (simp add: not_or_cond_def op_list_def)
  ultimately show ?thesis
    using negation_pushed_down [OF tree.sql_semantics_axioms [of sample_gen], where c = not_or_cond
        and negate = False and r = sample_row] by simp
qed

text \<open>
  C9: What reaches the query builder: the statement handed to \<open>ToSQL\<close> is prepared and of the
  engine's dialect, the values bound in it are exactly the query's literals in their order,
  and the names quoted in it are exactly the names the query mentions in theirs. No literal is
  passed as a name and no name as a literal.
\<close>

theorem translate_binds_values:
  assumes "stars_ok q"
  shows "\<exists>stmt. translate (recorder gen) q eng = gen stmt \<and> ss_prepared stmt \<and>
    ss_dialect stmt = engine_dialect eng \<and> stmt_values stmt = map v_go (query_values q) \<and>
    stmt_names stmt = query_names q"
  using translate_recorded [of gen q eng] recorded_values [of gen q eng] recorded_names [OF assms, of gen eng]
  by (intro exI [of _ "recorded_stmt gen q eng"]) (simp add: recorded_stmt_def build_ds_recorded)

theorem translate_binds_values_witness:
  "\<exists>stmt. translate (recorder sample_gen) join_query_resolved EngineSQLite = sample_gen stmt
     \<and> stmt_names stmt = query_names join_query_resolved"
proof -
  have "stars_ok join_query_resolved" by code_simp
  from translate_binds_values [OF this, of sample_gen EngineSQLite] show ?thesis by blast
qed

text \<open>
  The clauses carry over one by one: joins in order and with their types, the limit and the
  offset with their exact values (no wrap-around in the conversion to \<open>uint\<close>), an offset only
  with a limit, and a filter, grouping or ordering exactly when the query has one.
\<close>

theorem translate_clauses:
  assumes "wf_query q"
  shows "\<exists>stmt. translate (recorder gen) q eng = gen stmt \<and>
    map fst (ss_joins stmt) = map j_type (q_joins q) \<and>
    map_option uint (ss_limit stmt) = q_limit q \<and> map_option uint (ss_offset stmt) = q_offset q \<and>
    length (ss_where stmt) = (if q_where q = None then 0 else 1) \<and>
    length (ss_group stmt) = length (q_group_by q) \<and> length (ss_order stmt) = length (q_order_by q) \<and>
    length (ss_select stmt) = length (q_columns q)"
proof -
  have w: "uint (word_of_int n :: 64 word) = n" if "0 \<le> n" "n < 2 ^ 63" for n
    using that by (simp add: uint_word_of_int take_bit_int_eq_self)
  from assms have "limit_ok (q_limit q)" "limit_ok (q_offset q)" "q_limit q = None \<longrightarrow> q_offset q = None"
    "q_star q \<longrightarrow> q_columns q = []"
    by (auto simp: wf_query_def)
  then show ?thesis
    by (intro exI [of _ "(build_ds (recorder gen) q eng)\<lparr>ss_prepared := True\<rparr>"])
      (auto simp: translate_def build_ds_recorded limit_ok_def comp_def w split: option.splits)
qed

theorem translate_clauses_witness:
  "\<exists>stmt. translate (recorder sample_gen) sample_query EnginePostgres = sample_gen stmt
     \<and> map_option uint (ss_limit stmt) = Some 10"
proof -
  have "wf_query sample_query" by code_simp
  from translate_clauses [OF this, of sample_gen EnginePostgres] obtain stmt where
    "translate (recorder sample_gen) sample_query EnginePostgres = sample_gen stmt"
    "map_option uint (ss_limit stmt) = q_limit sample_query" by blast
  then show ?thesis by (intro exI [of _ stmt]) (simp add: sample_query_def)
qed

end
