(* ===== verification/Go_Path.thy ===== *)
theory Go_Path
  imports Prelude "HOL-Library.Sublist"
begin

text \<open>
  The lexical path functions of Go's \<open>path/filepath\<close> on Unix that the file tools call:
  \<open>Clean\<close>, \<open>Join\<close>, \<open>Dir\<close>, \<open>Base\<close>, \<open>IsAbs\<close>, \<open>Abs\<close>. They are written over the components of a
  path; an absolute cleaned path is the text \<open>render_abs cs\<close> of a list of normal components,
  and the lemmas say what the functions do on such texts.
\<close>

section \<open>Components\<close>

text \<open>The parts between separators, empty ones included; never the empty list.\<close>

fun split_slash :: "string \<Rightarrow> string list" where
  "split_slash [] = [[]]"
| "split_slash (c # s) =
     (if c = CHR ''/'' then [] # split_slash s
      else case split_slash s of [] \<Rightarrow> [[c]] | p # ps \<Rightarrow> (c # p) # ps)"

definition is_abs :: "string \<Rightarrow> bool" where
  "is_abs p \<longleftrightarrow> has_prefix p ''/''"

text \<open>One component of the input against the components kept so far, last first.\<close>

definition clean_step :: "bool \<Rightarrow> string list \<Rightarrow> string \<Rightarrow> string list" where
  "clean_step rooted st c =
     (if c = [] \<or> c = ''.'' then st
      else if c = ''..'' then
        (case st of
           [] \<Rightarrow> (if rooted then [] else [''..''])
         | t # ts \<Rightarrow> (if t = ''..'' then ''..'' # st else ts))
      else c # st)"

definition clean_comps :: "string \<Rightarrow> string list" where
  "clean_comps p = rev (foldl (clean_step (is_abs p)) [] (split_slash p))"

fun join_slash :: "string list \<Rightarrow> string" where
  "join_slash [] = []"
| "join_slash [c] = c"
| "join_slash (c # cs) = c @ CHR ''/'' # join_slash cs"

definition clean_path :: "string \<Rightarrow> string" where
  "clean_path p =
     (let cs = clean_comps p
      in if is_abs p then CHR ''/'' # join_slash cs
         else if cs = [] then ''.'' else join_slash cs)"

text \<open>\<open>Join\<close> skips the leading empty elements before it joins and cleans.\<close>

definition join_path :: "string list \<Rightarrow> string" where
  "join_path es =
     (let es' = dropWhile (\<lambda>e. e = []) es
      in if es' = [] then [] else clean_path (join_slash es'))"

text \<open>\<open>Dir\<close> cleans what stands up to the last separator; \<open>Base\<close> is the last component.\<close>

definition dir_path :: "string \<Rightarrow> string" where
  "dir_path p = clean_path (rev (dropWhile (\<lambda>c. c \<noteq> CHR ''/'') (rev p)))"

definition base_path :: "string \<Rightarrow> string" where
  "base_path p =
     (if p = [] then ''.''
      else let q = rev (dropWhile (\<lambda>c. c = CHR ''/'') (rev p))
        in if q = [] then ''/'' else rev (takeWhile (\<lambda>c. c \<noteq> CHR ''/'') (rev q)))"

section \<open>Normal absolute paths\<close>

definition normal_comp :: "string \<Rightarrow> bool" where
  "normal_comp c \<longleftrightarrow> c \<noteq> [] \<and> c \<noteq> ''.'' \<and> c \<noteq> ''..'' \<and> CHR ''/'' \<notin> set c"

definition render_abs :: "string list \<Rightarrow> string" where
  "render_abs cs = CHR ''/'' # join_slash cs"

definition canonical :: "string \<Rightarrow> bool" where
  "canonical p \<longleftrightarrow> (\<exists>cs. list_all normal_comp cs \<and> p = render_abs cs)"

lemma split_slash_not_Nil [simp]: "split_slash s \<noteq> []"
  by (cases s) (auto split: list.splits)

lemma split_slash_no_sep: "CHR ''/'' \<notin> set c \<Longrightarrow> split_slash c = [c]"
  by (induction c) auto

lemma split_slash_append:
  "CHR ''/'' \<notin> set c \<Longrightarrow> split_slash (c @ CHR ''/'' # s) = c # split_slash s"
  by (induction c) auto

lemma split_join:
  "list_all (\<lambda>c. CHR ''/'' \<notin> set c) cs \<Longrightarrow> cs \<noteq> [] \<Longrightarrow> split_slash (join_slash cs) = cs"
  by (induction cs rule: join_slash.induct) (auto simp: split_slash_no_sep split_slash_append)

lemma split_slash_parts: "c \<in> set (split_slash s) \<Longrightarrow> CHR ''/'' \<notin> set c"
  by (induction s arbitrary: c) (auto split: if_splits list.splits)

lemma normal_no_sep: "list_all normal_comp cs \<Longrightarrow> list_all (\<lambda>c. CHR ''/'' \<notin> set c) cs"
  by (auto simp: list_all_iff normal_comp_def)

lemma split_render: "list_all normal_comp cs \<Longrightarrow> split_slash (render_abs cs) = [] # (if cs = [] then [[]] else cs)"
  by (simp add: render_abs_def split_join normal_no_sep)

lemma is_abs_Cons [simp]: "is_abs (CHR ''/'' # s)"
  by (simp add: is_abs_def has_prefix_def)

lemma is_abs_iff: "is_abs p \<longleftrightarrow> (\<exists>s. p = CHR ''/'' # s)"
  by (auto simp: is_abs_def has_prefix_iff)

lemma clean_step_normal: "normal_comp c \<Longrightarrow> clean_step r st c = c # st"
  by (simp add: clean_step_def normal_comp_def)

lemma foldl_clean_normal:
  "list_all normal_comp cs \<Longrightarrow> foldl (clean_step r) st cs = rev cs @ st"
  by (induction cs arbitrary: st) (auto simp: clean_step_normal)

lemma clean_render [simp]:
  assumes "list_all normal_comp cs"
  shows "clean_path (render_abs cs) = render_abs cs"
proof -
  have "is_abs (render_abs cs)" by (simp add: render_abs_def)
  moreover have "clean_comps (render_abs cs) = cs"
    using assms by (simp add: clean_comps_def split_render foldl_clean_normal clean_step_def)
  ultimately show ?thesis by (simp add: clean_path_def) (simp add: render_abs_def)
qed

lemma clean_step_abs:
  "list_all normal_comp st \<Longrightarrow> CHR ''/'' \<notin> set c \<Longrightarrow> list_all normal_comp (clean_step True st c)"
  by (auto simp: clean_step_def normal_comp_def split: list.splits)

lemma foldl_clean_abs:
  "list_all normal_comp st \<Longrightarrow> \<forall>c\<in>set cs. CHR ''/'' \<notin> set c \<Longrightarrow>
     list_all normal_comp (foldl (clean_step True) st cs)"
  by (induction cs arbitrary: st) (auto simp: clean_step_abs)

lemma clean_comps_normal: "is_abs p \<Longrightarrow> list_all normal_comp (clean_comps p)"
  using foldl_clean_abs [of "[]" "split_slash p"] split_slash_parts by (auto simp: clean_comps_def)

lemma clean_abs: "is_abs p \<Longrightarrow> clean_path p = render_abs (clean_comps p)"
  by (simp add: clean_path_def render_abs_def)

lemma clean_canonical: "is_abs p \<Longrightarrow> canonical (clean_path p)"
  unfolding canonical_def using clean_comps_normal clean_abs by blast

lemma join_slash_snoc:
  "cs \<noteq> [] \<Longrightarrow> join_slash (cs @ [c]) = join_slash cs @ CHR ''/'' # c"
  by (induction cs rule: join_slash.induct) auto

lemma render_snoc: "render_abs (cs @ [c]) = (if cs = [] then [] else render_abs cs) @ CHR ''/'' # c"
  by (auto simp: render_abs_def join_slash_snoc)

lemma foldl_clean_empty: "foldl (clean_step r) st (cs @ [[]]) = foldl (clean_step r) st cs"
  by (simp add: clean_step_def)

lemma clean_render_slash:
  assumes "list_all normal_comp cs" "cs \<noteq> []"
  shows "clean_path (render_abs cs @ ''/'') = render_abs cs"
proof -
  have "split_slash (join_slash cs @ ''/'') = cs @ [[]]"
    using normal_no_sep [OF assms(1)] assms(2)
    by (induction cs rule: join_slash.induct) (auto simp: split_slash_append)
  then have "clean_comps (render_abs cs @ ''/'') = cs"
    using assms(1) foldl_clean_empty
    by (simp add: clean_comps_def render_abs_def foldl_clean_normal clean_step_def)
  then show ?thesis by (simp add: clean_path_def) (simp add: render_abs_def)
qed

lemma dropWhile_no_sep:
  "CHR ''/'' \<notin> set c \<Longrightarrow> dropWhile (\<lambda>x. x \<noteq> CHR ''/'') (rev c @ CHR ''/'' # s) = CHR ''/'' # s"
  by (subst dropWhile_append2) auto

lemma dir_render:
  assumes "list_all normal_comp (cs @ [c])"
  shows "dir_path (render_abs (cs @ [c])) = render_abs cs"
proof -
  have c: "CHR ''/'' \<notin> set c" using assms by (simp add: normal_comp_def)
  show ?thesis
  proof (cases "cs = []")
    case True
    then have "dir_path (render_abs (cs @ [c])) = clean_path (render_abs [])"
      using dropWhile_no_sep [OF c, of "[]"] by (simp add: dir_path_def render_abs_def)
    then show ?thesis using True clean_render [of "[]"] by simp
  next
    case False
    then have "dir_path (render_abs (cs @ [c])) = clean_path (render_abs cs @ ''/'')"
      using dropWhile_no_sep [OF c, of "rev (render_abs cs)"] by (simp add: dir_path_def render_snoc)
    then show ?thesis using clean_render_slash False assms by simp
  qed
qed

lemma dir_root: "dir_path (render_abs []) = render_abs []"
  using clean_render [of "[]"] by (simp add: dir_path_def render_abs_def)

lemma base_render:
  assumes "list_all normal_comp (cs @ [c])"
  shows "base_path (render_abs (cs @ [c])) = c"
proof -
  have c: "CHR ''/'' \<notin> set c" "c \<noteq> []" using assms by (auto simp: normal_comp_def)
  let ?p = "(if cs = [] then [] else render_abs cs) @ CHR ''/'' # c"
  have "dropWhile (\<lambda>x. x = CHR ''/'') (rev ?p) = rev ?p"
    using c by (cases "rev c") auto
  moreover have "takeWhile (\<lambda>x. x \<noteq> CHR ''/'') (rev c @ CHR ''/'' # s) = rev c" for s
    using c(1) by (subst takeWhile_append2) auto
  then have "takeWhile (\<lambda>x. x \<noteq> CHR ''/'') (rev ?p) = rev c" by simp
  ultimately show ?thesis
    unfolding render_snoc by (simp add: base_path_def Let_def)
qed

lemma join_slash_append:
  "xs \<noteq> [] \<Longrightarrow> ys \<noteq> [] \<Longrightarrow> join_slash (xs @ ys) = join_slash xs @ CHR ''/'' # join_slash ys"
  by (induction xs rule: join_slash.induct) (auto simp: neq_Nil_conv)

lemma foldl_clean_filter:
  "foldl (clean_step True) st xs = foldl (clean_step True) st (filter (\<lambda>c. c \<noteq> []) xs)"
  by (induction xs arbitrary: st) (auto simp: clean_step_def)

lemma join_render:
  assumes "list_all normal_comp cs" "list_all normal_comp ms"
  shows "join_path (render_abs cs # ms) = render_abs (cs @ ms)"
proof -
  have r: "render_abs cs \<noteq> []" by (simp add: render_abs_def)
  let ?p = "join_slash (render_abs cs # ms)"
  have abs: "is_abs ?p" by (cases ms) (auto simp: render_abs_def)
  have "filter (\<lambda>c. c \<noteq> []) (split_slash ?p) = cs @ ms"
  proof -
    have "split_slash (CHR ''/'' # s @ CHR ''/'' # t) = [] # split_slash s @ split_slash t" for s t
    proof -
      have "split_slash (s @ CHR ''/'' # t) = split_slash s @ split_slash t"
        by (induction s) (auto split: list.splits)
      then show ?thesis by simp
    qed
    moreover have "?p = (if ms = [] then render_abs cs else CHR ''/'' # join_slash cs @ CHR ''/'' # join_slash ms)"
      by (cases ms) (auto simp: render_abs_def)
    moreover have "filter (\<lambda>c. c \<noteq> []) (split_slash (join_slash xs)) = xs" if "list_all normal_comp xs" for xs
      using that split_join [OF normal_no_sep [OF that]]
      by (cases "xs = []") (auto simp: filter_id_conv list_all_iff normal_comp_def)
    ultimately show ?thesis using assms by (auto simp: render_abs_def)
  qed
  then have "foldl (clean_step True) [] (split_slash ?p) = foldl (clean_step True) [] (cs @ ms)"
    using foldl_clean_filter [of "[]" "split_slash ?p"] by simp
  then have "clean_comps ?p = cs @ ms"
    using assms abs by (simp add: clean_comps_def foldl_clean_normal)
  then show ?thesis using abs r by (simp add: join_path_def clean_abs)
qed

text \<open>Two normal paths: the one is the other or an ancestor of it exactly when its components are
  a prefix, and the text tells.\<close>

lemma prefix_render:
  assumes "list_all normal_comp rs" "list_all normal_comp cs" "rs \<noteq> []"
  shows "prefix (render_abs rs @ ''/'') (render_abs cs) \<longleftrightarrow> strict_prefix rs cs"
proof
  assume "prefix (render_abs rs @ ''/'') (render_abs cs)"
  then obtain t where t: "render_abs cs = render_abs rs @ CHR ''/'' # t" by (auto simp: prefix_def)
  have "split_slash (join_slash rs @ CHR ''/'' # t) = rs @ split_slash t"
    using normal_no_sep [OF assms(1)] assms(3)
    by (induction rs rule: join_slash.induct) (auto simp: split_slash_append)
  then have "split_slash (render_abs cs) = [] # rs @ split_slash t"
    using t by (simp add: render_abs_def)
  moreover have "cs \<noteq> []" using t by (auto simp: render_abs_def)
  ultimately have "cs = rs @ split_slash t" using split_render [OF assms(2)] by simp
  then show "strict_prefix rs cs" by (auto simp: strict_prefix_def)
next
  assume "strict_prefix rs cs"
  then obtain ts where "cs = rs @ ts" "ts \<noteq> []" by (auto simp: strict_prefix_def prefix_def)
  then show "prefix (render_abs rs @ ''/'') (render_abs cs)"
    using assms(3) by (auto simp: render_abs_def join_slash_append)
qed

lemma render_inject:
  assumes "list_all normal_comp rs" "list_all normal_comp cs"
  shows "render_abs rs = render_abs cs \<longleftrightarrow> rs = cs"
proof
  assume "render_abs rs = render_abs cs"
  with split_render [OF assms(1)] split_render [OF assms(2)]
  have "(if rs = [] then [[]] else rs) = (if cs = [] then [[]] else cs)" by simp
  moreover have "rs \<noteq> [[]]" "cs \<noteq> [[]]" using assms by (auto simp: normal_comp_def)
  ultimately show "rs = cs" by (cases "rs = []"; cases "cs = []") simp_all
qed simp

end
