(* ===== verification/Jail.thy ===== *)
theory Jail
  imports Go_Path
begin

text \<open>
  The filesystem jail of the file tools (\<open>internal/tools/jail.go\<close>).

  The operating system is a parameter: the record \<open>os\<close> of the calls the code makes,
  \<open>filepath.EvalSymlinks\<close>, \<open>os.Getwd\<close> and \<open>os.Stat\<close>. What the properties rely on is the
  hypothesis \<open>os_ok\<close>: a path whose symlinks were resolved is absolute and clean if the given
  one was absolute, and the working directory is absolute. The loop of \<open>resolveExisting\<close> carries
  fuel, the length of the path it starts from; it is shown never to run out.
\<close>

datatype 'e os_error = NotExist | OsError 'e

datatype file_mode = RegularFile | Directory | OtherFile

record 'e os =
  os_eval_symlinks :: "string \<Rightarrow> 'e os_error + string"
  os_getwd :: "'e os_error + string"
  os_stat :: "string \<Rightarrow> 'e os_error + file_mode"

datatype 'e jail_error =
    NoRoots
  | RootFailed string "'e os_error"
  | RootNotDirectory string
  | NulByte
  | EmptyPath
  | OsFailed "'e os_error"
  | NotInJail
  | NoSuchFile string
  | NotRegular string
  | JailOutOfFuel

record jail_set =
  roots :: "string list"

definition lift_os :: "('e os_error \<Rightarrow> 'e jail_error) \<Rightarrow> 'e os_error + 'a \<Rightarrow> 'e jail_error + 'a" where
  "lift_os f r = (case r of Inl e \<Rightarrow> Inl (f e) | Inr x \<Rightarrow> Inr x)"

text \<open>\<open>filepath.Abs\<close>.\<close>

definition abs_path :: "'e os \<Rightarrow> string \<Rightarrow> 'e os_error + string" where
  "abs_path os p =
     (if is_abs p then Inr (clean_path p)
      else bind_res (os_getwd os) (\<lambda>cwd. Inr (join_path [cwd, p])))"

definition resolve_root :: "'e os \<Rightarrow> string \<Rightarrow> 'e jail_error + string" where
  "resolve_root os p =
     bind_res (lift_os (RootFailed p) (abs_path os p)) (\<lambda>abs.
     bind_res (lift_os (RootFailed p) (os_eval_symlinks os abs)) (\<lambda>real.
     bind_res (lift_os (RootFailed p) (os_stat os real)) (\<lambda>info.
       if info \<noteq> Directory then Inl (RootNotDirectory p) else Inr real)))"

definition new_jail_set :: "'e os \<Rightarrow> string list \<Rightarrow> 'e jail_error + jail_set" where
  "new_jail_set os paths =
     (if paths = [] then Inl NoRoots
      else bind_res (map_res (resolve_root os) paths) (\<lambda>rs. Inr \<lparr>roots = rs\<rparr>))"

definition contains :: "jail_set \<Rightarrow> string \<Rightarrow> bool" where
  "contains j real \<longleftrightarrow>
     list_ex (\<lambda>root. real = root \<or>
       has_prefix real (if \<not> has_suffix root ''/'' then root @ ''/'' else root)) (roots j)"

text \<open>
  The loop of \<open>resolveExisting\<close>: \<open>dir\<close> and the components \<open>missing\<close> cut off so far.
\<close>

fun resolve_loop ::
  "'e os \<Rightarrow> nat \<Rightarrow> string \<Rightarrow> string \<Rightarrow> string list \<Rightarrow> 'e jail_error + string \<times> bool" where
  "resolve_loop os 0 p dir missing = Inl JailOutOfFuel"
| "resolve_loop os (Suc n) p dir missing =
     (let parent = dir_path dir
      in if parent = dir then Inr (clean_path p, False)
         else
           let missing = base_path dir # missing; dir = parent
           in case os_eval_symlinks os dir of
                Inr r \<Rightarrow> Inr (join_path (r # missing), False)
              | Inl NotExist \<Rightarrow> resolve_loop os n p dir missing
              | Inl e \<Rightarrow> Inl (OsFailed e))"

definition resolve_existing :: "'e os \<Rightarrow> string \<Rightarrow> 'e jail_error + string \<times> bool" where
  "resolve_existing os p =
     (case os_eval_symlinks os p of
        Inr r \<Rightarrow> Inr (r, True)
      | Inl NotExist \<Rightarrow> resolve_loop os (length p) p p []
      | Inl e \<Rightarrow> Inl (OsFailed e))"

text \<open>The absolute, clean form of the client's path that \<open>Resolve\<close> works on.\<close>

definition client_path :: "'e os \<Rightarrow> string \<Rightarrow> 'e jail_error + string" where
  "client_path os p =
     (if is_abs p then Inr (clean_path p)
      else bind_res (lift_os OsFailed (os_getwd os)) (\<lambda>cwd. Inr (clean_path (join_path [cwd, p]))))"

definition resolve_path :: "'e os \<Rightarrow> jail_set \<Rightarrow> string \<Rightarrow> 'e jail_error + string" where
  "resolve_path os j p =
     (if CHR 0x00 \<in> set p then Inl NulByte
      else if p = [] then Inl EmptyPath
      else bind_res (client_path os p) (\<lambda>abs.
           bind_res (resolve_existing os abs) (\<lambda>(resolved, exists).
             if \<not> contains j resolved then Inl NotInJail
             else if \<not> exists then Inl (NoSuchFile p)
             else Inr resolved)))"

definition resolve_file :: "'e os \<Rightarrow> jail_set \<Rightarrow> string \<Rightarrow> 'e jail_error + string" where
  "resolve_file os j p =
     bind_res (resolve_path os j p) (\<lambda>real.
     bind_res (lift_os OsFailed (os_stat os real)) (\<lambda>info.
       if info \<noteq> RegularFile then Inl (NotRegular p) else Inr real))"

section \<open>What the operating system promises\<close>

definition os_ok :: "'e os \<Rightarrow> bool" where
  "os_ok os \<longleftrightarrow>
     (\<forall>p r. canonical p \<longrightarrow> os_eval_symlinks os p = Inr r \<longrightarrow> canonical r) \<and>
     (\<forall>cwd. os_getwd os = Inr cwd \<longrightarrow> is_abs cwd)"

text \<open>The components of a canonical path, and being at or below a root.\<close>

definition comps :: "string \<Rightarrow> string list" where
  "comps p = filter (\<lambda>c. c \<noteq> []) (split_slash p)"

definition below :: "string \<Rightarrow> string \<Rightarrow> bool" where
  "below root p \<longleftrightarrow> prefix (comps root) (comps p)"

definition jail_ok :: "jail_set \<Rightarrow> bool" where
  "jail_ok j \<longleftrightarrow> list_all canonical (roots j)"

lemma canonicalE:
  assumes "canonical p"
  obtains cs where "list_all normal_comp cs" "p = render_abs cs" "comps p = cs"
proof -
  from assms obtain cs where cs: "list_all normal_comp cs" "p = render_abs cs"
    by (auto simp: canonical_def)
  have "filter (\<lambda>c. c \<noteq> []) cs = cs" using cs(1)
    by (auto simp: filter_id_conv list_all_iff normal_comp_def)
  then have "comps p = cs" using cs by (simp add: comps_def split_render)
  with cs that show ?thesis by blast
qed

lemma canonical_abs: "canonical p \<Longrightarrow> is_abs p"
  by (auto simp: canonical_def render_abs_def)

lemma has_suffix_single: "has_suffix s [x] \<longleftrightarrow> s \<noteq> [] \<and> last s = x"
  by (cases s rule: rev_cases) (auto simp: has_suffix_iff)

lemma root_suffix:
  assumes "list_all normal_comp rs"
  shows "has_suffix (render_abs rs) ''/'' \<longleftrightarrow> rs = []"
proof (cases rs rule: rev_cases)
  case Nil
  then show ?thesis by (simp add: render_abs_def has_suffix_single)
next
  case (snoc qs c)
  then have c: "c \<noteq> []" "CHR ''/'' \<notin> set c" using assms by (auto simp: normal_comp_def)
  then have "last c \<in> set c" by simp
  with c(2) have "last c \<noteq> CHR ''/''" by metis
  then show ?thesis using snoc c(1) by (simp add: render_snoc has_suffix_single)
qed

lemma contains_below:
  assumes "jail_ok j" "canonical p"
  shows "contains j p \<longleftrightarrow> (\<exists>root\<in>set (roots j). below root p)"
proof -
  from assms(2) obtain cs where cs: "list_all normal_comp cs" "p = render_abs cs" "comps p = cs"
    by (rule canonicalE)
  have "(p = root \<or> has_prefix p (if \<not> has_suffix root ''/'' then root @ ''/'' else root)) \<longleftrightarrow> below root p"
    if root: "canonical root" for root
  proof -
    from root obtain rs where rs: "list_all normal_comp rs" "root = render_abs rs" "comps root = rs"
      by (rule canonicalE)
    show ?thesis
    proof (cases "rs = []")
      case True
      then show ?thesis
        using rs cs by (simp add: below_def root_suffix) (simp add: render_abs_def has_prefix_def)
    next
      case False
      have "has_prefix p (root @ ''/'') \<longleftrightarrow> strict_prefix rs cs"
        using prefix_render [OF rs(1) cs(1) False] rs cs by (auto simp: has_prefix_iff prefix_def)
      then show ?thesis
        using False rs cs render_inject [OF rs(1) cs(1)] by (auto simp: below_def root_suffix strict_prefix_def)
    qed
  qed
  then show ?thesis using assms(1)
    by (auto simp: contains_def jail_ok_def list_ex_iff list_all_iff)
qed

section \<open>Resolving the longest existing prefix\<close>

text \<open>
  What \<open>resolveExisting\<close> computes on components: the longest prefix that resolves, and the rest.
\<close>

fun longest_existing :: "'e os \<Rightarrow> string list \<Rightarrow> string list \<Rightarrow> 'e jail_error + string \<times> bool" where
  "longest_existing os [] missing = Inr (render_abs missing, False)"
| "longest_existing os (c # cs) missing =
     (let dir = rev cs; missing = c # missing
      in case os_eval_symlinks os (render_abs dir) of
           Inr r \<Rightarrow> Inr (join_path (r # missing), False)
         | Inl NotExist \<Rightarrow> longest_existing os cs missing
         | Inl e \<Rightarrow> Inl (OsFailed e))"

lemma resolve_loop_longest:
  "list_all normal_comp cs \<Longrightarrow> list_all normal_comp ms \<Longrightarrow> p = render_abs (rev cs @ ms) \<Longrightarrow>
     length cs < n \<Longrightarrow>
     resolve_loop os n p (render_abs (rev cs)) ms = longest_existing os cs ms"
proof (induction cs arbitrary: n ms)
  case Nil
  then obtain m where "n = Suc m" by (cases n) auto
  with Nil show ?case using dir_root by (simp add: Let_def)
next
  case (Cons c cs)
  then obtain m where n: "n = Suc m" by (cases n) auto
  have nc: "list_all normal_comp (rev cs @ [c])" using Cons.prems(1) by simp
  have d: "dir_path (render_abs (rev (c # cs))) = render_abs (rev cs)"
    using dir_render [OF nc] by simp
  have b: "base_path (render_abs (rev (c # cs))) = c" using base_render [OF nc] by simp
  have ne: "render_abs (rev cs) \<noteq> render_abs (rev (c # cs))"
    using render_inject [of "rev cs" "rev (c # cs)"] Cons.prems(1) by simp
  have "resolve_loop os m p (render_abs (rev cs)) (c # ms) = longest_existing os cs (c # ms)"
    by (rule Cons.IH) (use Cons.prems n in auto)
  with n d b ne show ?case
    by (simp add: Let_def split: sum.splits os_error.splits del: rev.simps)
qed

lemma length_render: "list_all normal_comp cs \<Longrightarrow> length cs < length (render_abs cs)"
proof -
  have "list_all normal_comp cs \<Longrightarrow> length cs \<le> length (join_slash cs)"
    by (induction cs rule: join_slash.induct) (auto simp: normal_comp_def Suc_le_eq)
  then show "list_all normal_comp cs \<Longrightarrow> ?thesis" by (simp add: render_abs_def)
qed

lemma longest_existing_canonical:
  "os_ok os \<Longrightarrow> list_all normal_comp cs \<Longrightarrow> list_all normal_comp ms \<Longrightarrow>
     longest_existing os cs ms \<noteq> Inl JailOutOfFuel \<and>
     (\<forall>r e. longest_existing os cs ms = Inr (r, e) \<longrightarrow> canonical r \<and> \<not> e)"
proof (induction cs arbitrary: ms)
  case Nil
  then show ?case by (auto simp: canonical_def)
next
  case (Cons c cs)
  show ?case
  proof (cases "os_eval_symlinks os (render_abs (rev cs))")
    case (Inl e)
    have "list_all normal_comp (c # ms)" "list_all normal_comp cs" using Cons.prems by auto
    from Cons.IH [OF Cons.prems(1) this(2,1)] Inl show ?thesis by (cases e) auto
  next
    case (Inr r)
    have "canonical (render_abs (rev cs))"
      using Cons.prems(2) unfolding canonical_def by (intro exI [of _ "rev cs"]) simp
    then have "canonical r" using Cons.prems(1) Inr unfolding os_ok_def by blast
    then obtain rs where "list_all normal_comp rs" "r = render_abs rs" by (auto simp: canonical_def)
    then have "canonical (join_path (r # c # ms))"
      using Cons.prems join_render [of rs "c # ms"] unfolding canonical_def
      by (intro exI [of _ "rs @ c # ms"]) simp
    then show ?thesis using Inr by simp
  qed
qed

lemma resolve_existing_cases:
  assumes "os_ok os" "canonical p"
  shows "resolve_existing os p \<noteq> Inl JailOutOfFuel" and
    "resolve_existing os p = Inr (r, e) \<Longrightarrow> canonical r \<and> (e \<longleftrightarrow> os_eval_symlinks os p = Inr r)"
proof -
  from assms(2) obtain cs where cs: "list_all normal_comp cs" "p = render_abs cs" by (auto simp: canonical_def)
  have l: "resolve_loop os (length p) p p [] = longest_existing os (rev cs) []"
    using resolve_loop_longest [of "rev cs" "[]" p "length p" os] cs length_render [OF cs(1)] by simp
  have le: "longest_existing os (rev cs) [] \<noteq> Inl JailOutOfFuel \<and>
    (\<forall>r e. longest_existing os (rev cs) [] = Inr (r, e) \<longrightarrow> canonical r \<and> \<not> e)"
    by (rule longest_existing_canonical [OF assms(1)]) (use cs in auto)
  show "resolve_existing os p \<noteq> Inl JailOutOfFuel"
    using le by (auto simp: resolve_existing_def l split: sum.splits os_error.splits)
  show "resolve_existing os p = Inr (r, e) \<Longrightarrow> canonical r \<and> (e \<longleftrightarrow> os_eval_symlinks os p = Inr r)"
    using le assms by (auto simp: resolve_existing_def l os_ok_def split: sum.splits os_error.splits)
qed

lemma lift_os_Inr [simp]: "lift_os f r = Inr x \<longleftrightarrow> r = Inr x"
  by (auto simp: lift_os_def split: sum.splits)

lemma canonical_join: "is_abs cwd \<Longrightarrow> canonical (join_path [cwd, p])"
proof -
  assume abs: "is_abs cwd"
  then have "cwd \<noteq> []" "is_abs (join_slash [cwd, p])" by (auto simp: is_abs_iff)
  then show ?thesis by (simp add: join_path_def clean_canonical)
qed

lemma client_path_canonical:
  assumes "os_ok os" "client_path os p = Inr ap" "p \<noteq> []"
  shows "canonical ap"
proof (cases "is_abs p")
  case True
  then show ?thesis using assms(2) clean_canonical [OF True] by (simp add: client_path_def)
next
  case False
  with assms(2) obtain cwd where cwd: "os_getwd os = Inr cwd" "ap = clean_path (join_path [cwd, p])"
    by (auto simp: client_path_def res_simps)
  have "canonical (join_path [cwd, p])"
    using assms(1) cwd(1) by (intro canonical_join) (auto simp: os_ok_def)
  then show ?thesis using cwd(2) by (simp add: clean_canonical canonical_abs)
qed

lemma resolve_path_pieces:
  assumes "os_ok os" "resolve_path os j p = Inr r"
  shows "\<exists>ap. client_path os p = Inr ap \<and> canonical ap \<and> os_eval_symlinks os ap = Inr r
    \<and> canonical r \<and> contains j r"
proof -
  from assms(2) obtain ap where "p \<noteq> []" and a: "client_path os p = Inr ap"
    and r: "resolve_existing os ap = Inr (r, True)" and c: "contains j r"
    by (auto simp: resolve_path_def res_simps split: if_splits prod.splits)
  have "canonical ap" using client_path_canonical [OF assms(1) a \<open>p \<noteq> []\<close>] .
  with resolve_existing_cases(2) [OF assms(1) this r] a c show ?thesis by blast
qed

lemma new_jail_ok:
  assumes "os_ok os" "new_jail_set os paths = Inr j"
  shows "jail_ok j"
proof -
  have "canonical r" if "resolve_root os p = Inr r" for p r
  proof -
    from that obtain ap where a: "abs_path os p = Inr ap" "os_eval_symlinks os ap = Inr r"
      by (auto simp: resolve_root_def res_simps split: if_splits)
    have "canonical ap"
    proof (cases "is_abs p")
      case True
      then show ?thesis using a(1) clean_canonical [OF True] by (simp add: abs_path_def)
    next
      case False
      then obtain cwd where "os_getwd os = Inr cwd" "ap = join_path [cwd, p]"
        using a(1) by (auto simp: abs_path_def res_simps)
      then show ?thesis using assms(1) canonical_join by (auto simp: os_ok_def)
    qed
    then show ?thesis using a(2) assms(1) by (auto simp: os_ok_def)
  qed
  moreover from assms(2) have "map_res (resolve_root os) paths = Inr (roots j)"
    by (auto simp: new_jail_set_def res_simps split: if_splits)
  ultimately show ?thesis using map_res_set by (fastforce simp: jail_ok_def list_all_iff)
qed

section \<open>Properties\<close>

text \<open>
  C16: A path the jail resolves lies, with its symlinks followed, at or below one of the roots:
  it is what the operating system resolves the client's absolute path to, its components
  extend those of a root, and every root is itself a resolved path of the configuration.
\<close>

theorem resolve_stays_in_jail:
  assumes "os_ok os" "new_jail_set os paths = Inr j" "resolve_path os j p = Inr r"
  shows "\<exists>ap. client_path os p = Inr ap \<and> os_eval_symlinks os ap = Inr r \<and> canonical r \<and>
    (\<exists>root\<in>set (roots j). below root r)"
  using resolve_path_pieces [OF assms(1,3)] contains_below [OF new_jail_ok [OF assms(1,2)]] by blast

text \<open>
  A path whose symlinks lead outside every root is rejected as such, whatever it is called.
\<close>

theorem resolve_rejects_escape:
  assumes "os_ok os" "jail_ok j" "p \<noteq> []" "CHR 0x00 \<notin> set p"
    and "client_path os p = Inr ap" "os_eval_symlinks os ap = Inr r"
    and "\<forall>root\<in>set (roots j). \<not> below root r"
  shows "resolve_path os j p = Inl NotInJail"
proof -
  have "canonical ap" using client_path_canonical assms by blast
  then have "canonical r" using assms(1,6) by (auto simp: os_ok_def)
  then have "\<not> contains j r" using contains_below [OF assms(2)] assms(7) by blast
  then show ?thesis using assms(3-6) by (simp add: resolve_path_def resolve_existing_def)
qed

text \<open>
  The error for a missing path tells nothing about what lies outside: it is given only when
  the place the path would have, the longest existing prefix resolved and the rest put back,
  is itself at or below a root.
\<close>

theorem missing_reported_inside_only:
  assumes "os_ok os" "jail_ok j" "resolve_path os j p = Inl (NoSuchFile p)"
  shows "\<exists>ap r. client_path os p = Inr ap \<and> resolve_existing os ap = Inr (r, False) \<and>
    (\<exists>root\<in>set (roots j). below root r)"
proof -
  have cp: "client_path os p \<noteq> Inl (NoSuchFile p)"
    by (auto simp: client_path_def res_simps lift_os_def split: sum.splits)
  have rl: "resolve_loop os n q d m \<noteq> Inl (NoSuchFile p)" for n q d m
    by (induction n arbitrary: d m) (auto simp: Let_def split: sum.splits os_error.splits)
  then have re: "resolve_existing os q \<noteq> Inl (NoSuchFile p)" for q
    by (auto simp: resolve_existing_def split: sum.splits os_error.splits)
  from assms(3) cp re obtain ap r where a: "p \<noteq> []" "client_path os p = Inr ap"
    "resolve_existing os ap = Inr (r, False)" "contains j r"
    by (auto simp: resolve_path_def res_simps split: if_splits prod.splits)
  have "canonical ap" using client_path_canonical [OF assms(1) a(2,1)] .
  then have "canonical r" using resolve_existing_cases(2) [OF assms(1) _ a(3)] by blast
  then show ?thesis using a contains_below [OF assms(2)] by blast
qed

text \<open>
  Every other error about a path reaches the client before the jail is looked at, wherever the path
  is: that a file outside every root is no directory, or cannot be searched, is told.
\<close>

lemma outside_error_shown:
  assumes "canonical p" "CHR 0x00 \<notin> set p" "os_eval_symlinks os p = Inl (OsError e)"
  shows "resolve_path os j p = Inl (OsFailed (OsError e))"
proof -
  have "is_abs p" "p \<noteq> []" using canonical_abs [OF assms(1)] by (auto simp: is_abs_iff)
  then show ?thesis
    using assms by (auto simp: resolve_path_def client_path_def resolve_existing_def canonical_def)
qed

text \<open>
  Two systems that differ outside a jail only in ways that do not show: relative paths start in the
  same directory, every path resolves alike or outside the jail on both, and what is in
  the jail has the same mode. A link in the jail whose target is missing on one of them is not covered,
  nor is an error as above on one of them: both show.
\<close>

definition resolves_outside :: "jail_set \<Rightarrow> 'e os \<Rightarrow> string \<Rightarrow> bool" where
  "resolves_outside j os p \<longleftrightarrow> (\<exists>r e. resolve_existing os p = Inr (r, e) \<and> \<not> contains j r)"

definition same_paths :: "jail_set \<Rightarrow> 'e os \<Rightarrow> 'e os \<Rightarrow> bool" where
  "same_paths j os os' \<longleftrightarrow>
     os_getwd os = os_getwd os' \<and>
     (\<forall>p. canonical p \<longrightarrow> resolve_existing os p = resolve_existing os' p \<or>
        resolves_outside j os p \<and> resolves_outside j os' p) \<and>
     (\<forall>r. contains j r \<longrightarrow> os_stat os r = os_stat os' r)"

lemma same_paths_resolve:
  assumes "os_ok os" "same_paths j os os'"
  shows "resolve_path os j p = resolve_path os' j p"
proof (cases "CHR 0x00 \<in> set p \<or> p = []")
  case False
  have cp: "client_path os p = client_path os' p"
    using assms(2) by (simp add: client_path_def same_paths_def)
  show ?thesis
  proof (cases "client_path os p")
    case (Inr ap)
    then have "canonical ap" using client_path_canonical [OF assms(1)] False by blast
    then have "resolve_existing os ap = resolve_existing os' ap \<or>
        resolves_outside j os ap \<and> resolves_outside j os' ap"
      using assms(2) by (simp add: same_paths_def)
    then show ?thesis
      using False Inr cp [symmetric] by (auto simp: resolve_path_def resolves_outside_def split: prod.split)
  qed (use False cp in \<open>simp add: resolve_path_def\<close>)
qed (auto simp: resolve_path_def)

lemma same_paths_file:
  assumes "os_ok os" "same_paths j os os'"
  shows "resolve_file os j p = resolve_file os' j p"
proof (cases "resolve_path os j p")
  case (Inr r)
  then have "contains j r" by (auto simp: resolve_path_def res_simps split: if_splits prod.splits)
  then show ?thesis
    using assms(2) Inr same_paths_resolve [OF assms, of p] by (simp add: resolve_file_def same_paths_def)
qed (use same_paths_resolve [OF assms, of p] in \<open>simp add: resolve_file_def\<close>)

text \<open>
  When this holds: a directory outside the jail, to which and in which no symlinks lead, may exist on one system
  and not on the other, and hold anything.
\<close>

definition unlinked :: "'e os \<Rightarrow> string \<Rightarrow> bool" where
  "unlinked os p \<longleftrightarrow> os_eval_symlinks os p = Inr p \<or> os_eval_symlinks os p = Inl NotExist"

lemma comps_render: "list_all normal_comp cs \<Longrightarrow> comps (render_abs cs) = cs"
  by (rule canonicalE [of "render_abs cs"]) (auto simp: canonical_def dest: render_inject)

lemma longest_existing_unlinked:
  "list_all normal_comp cs \<Longrightarrow> list_all normal_comp ms \<Longrightarrow> \<forall>as. prefix as (rev cs) \<longrightarrow> unlinked os (render_abs as) \<Longrightarrow>
     longest_existing os cs ms = Inr (render_abs (rev cs @ ms), False)"
proof (induction cs arbitrary: ms)
  case (Cons c cs)
  have "list_all normal_comp (rev cs)" "list_all normal_comp (c # ms)" "list_all normal_comp cs"
    using Cons.prems(1,2) by auto
  moreover have "unlinked os (render_abs (rev cs))" "\<forall>as. prefix as (rev cs) \<longrightarrow> unlinked os (render_abs as)"
    using Cons.prems(3) by (auto simp: prefix_snoc)
  ultimately show ?case
    using Cons.IH [of "c # ms"] join_render [of "rev cs" "c # ms"] by (auto simp: unlinked_def Let_def)
qed simp

lemma longest_existing_cong:
  "\<forall>as. prefix as (rev cs) \<longrightarrow> os_eval_symlinks os (render_abs as) = os_eval_symlinks os' (render_abs as) \<Longrightarrow>
     longest_existing os cs ms = longest_existing os' cs ms"
  by (induction cs arbitrary: ms) (auto simp: Let_def prefix_snoc split: sum.split os_error.split)

lemma resolve_existing_longest:
  assumes "list_all normal_comp cs"
  shows "resolve_existing os (render_abs cs) =
    (case os_eval_symlinks os (render_abs cs) of
       Inr r \<Rightarrow> Inr (r, True)
     | Inl NotExist \<Rightarrow> longest_existing os (rev cs) []
     | Inl e \<Rightarrow> Inl (OsFailed e))"
  using resolve_loop_longest [of "rev cs" "[]" "render_abs cs" "length (render_abs cs)" os] assms
    length_render [OF assms] by (simp add: resolve_existing_def split: sum.split os_error.split)

lemma hidden_directory_same_paths:
  assumes "list_all normal_comp ds" "\<And>q. canonical q \<Longrightarrow> below (render_abs ds) q \<Longrightarrow> \<not> contains j q"
    and "\<And>q. canonical q \<Longrightarrow> \<not> below (render_abs ds) q \<Longrightarrow> os_eval_symlinks os q = os_eval_symlinks os' q"
    and "\<And>q. canonical q \<Longrightarrow> below q (render_abs ds) \<or> below (render_abs ds) q \<Longrightarrow> unlinked os q \<and> unlinked os' q"
    and "os_getwd os = os_getwd os'" "\<And>r. contains j r \<Longrightarrow> os_stat os r = os_stat os' r"
  shows "same_paths j os os'"
proof -
  have "resolve_existing os p = resolve_existing os' p \<or> resolves_outside j os p \<and> resolves_outside j os' p"
    if p: "canonical p" for p
  proof -
    from p obtain cs where cs: "list_all normal_comp cs" "p = render_abs cs" by (auto simp: canonical_def)
    have sub: "list_all normal_comp as" "canonical (render_abs as)" if "prefix as cs" for as
      using that cs(1) by (auto simp: prefix_def canonical_def)
    show ?thesis
    proof (cases "prefix ds cs")
      case True
      have "below (render_abs as) (render_abs ds) \<or> below (render_abs ds) (render_abs as)" if "prefix as cs" for as
        using prefix_same_cases [OF that True] sub(1) [OF that] assms(1) by (simp add: below_def comps_render)
      then have u: "unlinked os (render_abs as) \<and> unlinked os' (render_abs as)" if "prefix as cs" for as
        using assms(4) sub(2) that by blast
      have "\<exists>e. resolve_existing o' p = Inr (p, e)" if "\<And>as. prefix as cs \<Longrightarrow> unlinked o' (render_abs as)" for o' :: "'a os"
      proof -
        have "longest_existing o' (rev cs) [] = Inr (render_abs cs, False)"
          using longest_existing_unlinked [of "rev cs" "[]" o'] cs(1) that by simp
        then show ?thesis using that [of cs] cs by (auto simp: resolve_existing_longest unlinked_def)
      qed
      moreover have "\<not> contains j p"
        using assms(1,2) p True cs by (simp add: below_def comps_render)
      ultimately show ?thesis using u by (auto simp: resolves_outside_def) (metis u)+
    next
      case False
      have "os_eval_symlinks os (render_abs as) = os_eval_symlinks os' (render_abs as)" if "prefix as cs" for as
      proof -
        have "\<not> prefix ds as" using False that prefix_order.trans by blast
        then show ?thesis using assms(1,3) sub [OF that] by (simp add: below_def comps_render)
      qed
      then show ?thesis
        using cs longest_existing_cong [of "rev cs" os os' "[]"]
        by (simp add: resolve_existing_longest split: sum.split os_error.split)
    qed
  qed
  then show ?thesis using assms(5,6) by (simp add: same_paths_def)
qed

text \<open>
  Resolution returns: walking up from any path the client can name reaches a directory that
  resolves, or the filesystem root, within as many steps as the path has bytes.
\<close>

theorem jail_resolution_returns:
  assumes "os_ok os"
  shows "resolve_path os j p \<noteq> Inl JailOutOfFuel"
proof -
  have cp: "client_path os p \<noteq> Inl JailOutOfFuel"
    by (auto simp: client_path_def res_simps lift_os_def split: sum.splits)
  show ?thesis
    using cp client_path_canonical [OF assms] resolve_existing_cases(1) [OF assms]
    by (auto simp: resolve_path_def res_simps split: prod.splits)
qed

section \<open>A sample filesystem\<close>

text \<open>The directory \<open>/srv/data\<close> holds the file \<open>f\<close> and the symlink \<open>out\<close> to \<open>/etc/passwd\<close>.\<close>

definition sample_os :: "unit os" where
  "sample_os =
     \<lparr>os_eval_symlinks = (\<lambda>p. if p = ''/srv/data/out'' then Inr ''/etc/passwd''
        else if p \<in> set [''/'', ''/srv'', ''/srv/data'', ''/srv/data/f'', ''/etc/passwd''] then Inr p
        else Inl NotExist),
      os_getwd = Inr ''/srv'',
      os_stat = (\<lambda>p. if p = ''/srv/data/f'' \<or> p = ''/etc/passwd'' then Inr RegularFile else Inr Directory)\<rparr>"

lemma sample_os_ok: "os_ok sample_os"
proof -
  have c: "canonical (render_abs cs)" if "list_all normal_comp cs" for cs
    using that by (auto simp: canonical_def)
  have "canonical ''/''" "canonical ''/srv''" "canonical ''/srv/data''" "canonical ''/srv/data/f''"
    "canonical ''/etc/passwd''"
    using c [of "[]"] c [of "[''srv'']"] c [of "[''srv'', ''data'']"]
      c [of "[''srv'', ''data'', ''f'']"] c [of "[''etc'', ''passwd'']"]
    by (simp_all add: render_abs_def normal_comp_def)
  then show ?thesis by (auto simp: os_ok_def sample_os_def split: if_splits)
qed

definition sample_jail :: jail_set where
  "sample_jail = \<lparr>roots = [''/srv/data'']\<rparr>"

lemma sample_jail_new: "new_jail_set sample_os [''data''] = Inr sample_jail"
  by code_simp

lemma sample_jail_ok: "jail_ok sample_jail"
  by (rule new_jail_ok [OF sample_os_ok sample_jail_new])

theorem resolve_stays_in_jail_witness: "\<exists>root\<in>set (roots sample_jail). below root ''/srv/data/f''"
proof -
  have "resolve_path sample_os sample_jail ''data/./x/../f'' = Inr ''/srv/data/f''" by code_simp
  from resolve_stays_in_jail [OF sample_os_ok sample_jail_new this] show ?thesis by blast
qed

theorem resolve_rejects_escape_witness: "resolve_path sample_os sample_jail ''data/out'' = Inl NotInJail"
  by (rule resolve_rejects_escape [OF sample_os_ok sample_jail_ok, of _ "''/srv/data/out''" "''/etc/passwd''"])
    code_simp+

theorem missing_reported_inside_only_witness:
  "\<exists>ap r. client_path sample_os ''data/g/h'' = Inr ap \<and> resolve_existing sample_os ap = Inr (r, False) \<and>
    (\<exists>root\<in>set (roots sample_jail). below root r)"
  by (rule missing_reported_inside_only [OF sample_os_ok sample_jail_ok]) code_simp

theorem jail_resolution_returns_witness: "resolve_path sample_os sample_jail ''/a/b/c'' \<noteq> Inl JailOutOfFuel"
  by (rule jail_resolution_returns [OF sample_os_ok])

end
