(* ===== verification/Tool_Util.thy ===== *)
theory Tool_Util
  imports Prelude
begin

text \<open>
  The helpers the tools share (\<open>internal/tools/util.go\<close>): the writer that keeps a bounded prefix
  of a stream, truncation on a rune boundary, the clamping of a requested count, and the
  checks on positional arguments. Go's \<open>int\<close> values here are lengths and counts; they are
  \<open>int\<close>, as none of the operations on them can leave the range of a 64-bit integer.
\<close>

section \<open>The capped writer\<close>

record cap_writer =
  cw_buf :: string
  cw_cap :: int
  cw_dropped :: bool

definition new_cap_writer :: "int \<Rightarrow> cap_writer" where
  "new_cap_writer cap = \<lparr>cw_buf = [], cw_cap = cap, cw_dropped = False\<rparr>"

text \<open>\<open>Write\<close>: the number of bytes it reports, and the writer after it.\<close>

definition cap_write :: "cap_writer \<Rightarrow> string \<Rightarrow> int \<times> cap_writer" where
  "cap_write w p =
     (let room = cw_cap w - int (length (cw_buf w))
      in if 0 \<le> cw_cap w \<and> room < int (length p) then
           (int (length p),
            (if room > 0 then w\<lparr>cw_buf := cw_buf w @ take (nat room) p\<rparr> else w)\<lparr>cw_dropped := True\<rparr>)
         else (int (length p), w\<lparr>cw_buf := cw_buf w @ p\<rparr>))"

fun cap_writes :: "cap_writer \<Rightarrow> string list \<Rightarrow> cap_writer" where
  "cap_writes w [] = w"
| "cap_writes w (p # ps) = cap_writes (snd (cap_write w p)) ps"

section \<open>Truncation\<close>

text \<open>\<open>utf8.RuneStart\<close>: the byte is no continuation byte.\<close>

definition rune_start :: "char \<Rightarrow> bool" where
  "rune_start c \<longleftrightarrow> (of_char c :: nat) div 64 \<noteq> 2"

text \<open>The loop that moves the cut back to the start of a rune.\<close>

fun back_up :: "string \<Rightarrow> nat \<Rightarrow> nat" where
  "back_up s 0 = 0"
| "back_up s (Suc n) = (if rune_start (s ! Suc n) then Suc n else back_up s n)"

definition cap_output :: "string \<Rightarrow> int \<Rightarrow> string \<times> bool" where
  "cap_output s mx =
     (if mx < 0 \<or> int (length s) \<le> mx then (s, False)
      else (take (back_up s (nat mx)) s, True))"

section \<open>Counts and arguments\<close>

definition clamp_limit :: "int \<Rightarrow> int \<Rightarrow> int \<Rightarrow> int" where
  "clamp_limit requested def mx =
     (let requested = (if requested \<le> 0 then def else requested)
      in if requested > mx then mx else requested)"

datatype arg_error =
    MissingArg string string
  | TooManyArgs string string nat
  | NoPositionals string

definition one_arg :: "string \<Rightarrow> string \<Rightarrow> string list \<Rightarrow> arg_error + string" where
  "one_arg tool what pos =
     (case pos of [] \<Rightarrow> Inl (MissingArg tool what)
      | [a] \<Rightarrow> Inr a
      | _ \<Rightarrow> Inl (TooManyArgs tool what (length pos)))"

definition single_path :: "string \<Rightarrow> string list \<Rightarrow> arg_error + string" where
  "single_path tool pos = one_arg tool ''path'' pos"

definition no_positionals :: "string \<Rightarrow> string list \<Rightarrow> arg_error + unit" where
  "no_positionals tool pos = (if pos \<noteq> [] then Inl (NoPositionals tool) else Inr ())"

section \<open>What the writer keeps\<close>

text \<open>The writer after the bytes \<open>s\<close> have gone into it.\<close>

definition holds :: "int \<Rightarrow> string \<Rightarrow> cap_writer \<Rightarrow> bool" where
  "holds cap s w \<longleftrightarrow> cw_cap w = cap \<and>
     cw_buf w = (if cap < 0 then s else take (nat cap) s) \<and>
     (cw_dropped w \<longleftrightarrow> 0 \<le> cap \<and> cap < int (length s))"

lemma cap_write_holds:
  assumes "holds cap s w"
  shows "holds cap (s @ p) (snd (cap_write w p)) \<and> fst (cap_write w p) = int (length p)"
proof (cases "cap < 0")
  case True
  then show ?thesis using assms by (simp add: holds_def cap_write_def Let_def)
next
  case False
  define c where "c = nat cap"
  have c: "cap = int c" using False by (simp add: c_def)
  have len: "length (cw_buf w) = min c (length s)" using assms c by (simp add: holds_def)
  show ?thesis
  proof (cases "c \<le> length s")
    case True
    then show ?thesis using assms c len
      by (auto simp: holds_def cap_write_def Let_def)
  next
    case False
    then have "cw_buf w = s" using assms c by (simp add: holds_def)
    with False show ?thesis using assms c
      by (auto simp: holds_def cap_write_def Let_def nat_diff_distrib' split: if_splits)
  qed
qed

lemma cap_writes_holds: "holds cap s w \<Longrightarrow> holds cap (s @ concat ps) (cap_writes w ps)"
proof (induction ps arbitrary: s w)
  case (Cons p ps)
  from Cons.IH [of "s @ p"] cap_write_holds [OF Cons.prems] show ?case by simp
qed simp

section \<open>Where a truncation falls\<close>

lemma back_up_le: "back_up s n \<le> n"
  by (induction n) auto

lemma back_up_append:
  assumes "r \<noteq> []" "rune_start (t ! 0)"
  shows "back_up (r @ t) (length r + m) = length r + back_up t m"
proof (induction m)
  case 0
  from assms show ?case by (cases "length r") (auto simp: nth_append)
next
  case (Suc m)
  have "(r @ t) ! Suc (length r + m) = t ! Suc m" by (simp add: nth_append)
  with Suc show ?case by simp
qed

lemma back_up_zero: "\<forall>i. 0 < i \<longrightarrow> i \<le> n \<longrightarrow> \<not> rune_start (s ! i) \<Longrightarrow> back_up s n = 0"
  by (induction n) auto

text \<open>An encoded rune: a start byte and at most three continuation bytes.\<close>

definition is_rune :: "string \<Rightarrow> bool" where
  "is_rune r \<longleftrightarrow> r \<noteq> [] \<and> length r \<le> 4 \<and> rune_start (hd r) \<and> list_all (\<lambda>c. \<not> rune_start c) (tl r)"

lemma rune_continuation:
  "is_rune r \<Longrightarrow> 0 < i \<Longrightarrow> i < length r \<Longrightarrow> \<not> rune_start (r ! i)"
  by (cases r; cases i) (auto simp: is_rune_def list_all_length)

lemma back_up_runes:
  "list_all is_rune rs \<Longrightarrow> n < length (concat rs) \<Longrightarrow>
     \<exists>k. back_up (concat rs) n = length (concat (take k rs)) \<and> k < length rs \<and>
       n < length (concat (take (Suc k) rs))"
proof (induction rs arbitrary: n)
  case (Cons r rs)
  then have r: "is_rune r" by simp
  show ?case
  proof (cases "n < length r")
    case True
    have "back_up (r @ concat rs) n = 0"
      by (rule back_up_zero) (use True rune_continuation [OF r] in \<open>auto simp: nth_append\<close>)
    then show ?thesis using True by (intro exI [of _ 0]) simp
  next
    case False
    then obtain m where n: "n = length r + m" by (metis le_add_diff_inverse not_less)
    then have m: "m < length (concat rs)" using Cons.prems(2) by simp
    from Cons.IH [OF _ m] Cons.prems(1) obtain k where k: "back_up (concat rs) m = length (concat (take k rs))"
      "k < length rs" "m < length (concat (take (Suc k) rs))" by auto
    obtain r' rs' where rs: "rs = r' # rs'" using m by (cases rs) auto
    then have "is_rune r'" using Cons.prems(1) by simp
    then have "rune_start (concat rs ! 0)" using rs by (cases r') (auto simp: is_rune_def)
    moreover have "r \<noteq> []" using r by (simp add: is_rune_def)
    ultimately have "back_up (r @ concat rs) n = length r + back_up (concat rs) m"
      using n back_up_append by blast
    then show ?thesis using k n by (intro exI [of _ "Suc k"]) simp
  qed
qed simp

lemma take_concat: "take (length (concat (take k rs))) (concat rs) = concat (take k rs)"
  by (metis append_eq_conv_conj append_take_drop_id concat_append)

text \<open>
  A clamped count is positive and at most the maximum, and is the request itself whenever
  that lies between one and the maximum; a request that is not positive selects the default.
\<close>

lemma clamp_limit_bounds:
  assumes "0 < def" "def \<le> mx"
  shows "0 < clamp_limit n def mx \<and> clamp_limit n def mx \<le> mx \<and>
    (0 < n \<and> n \<le> mx \<longrightarrow> clamp_limit n def mx = n) \<and> (n \<le> 0 \<longrightarrow> clamp_limit n def mx = def)"
  using assms by (auto simp: clamp_limit_def Let_def)

section \<open>Properties\<close>

text \<open>
  However a stream is cut into writes, the capped writer holds exactly its first \<open>cap\<close> bytes,
  everything if the cap is negative, and knows whether a byte was dropped; and each single
  write reports all of its input as written, so the writing process is never blocked.
\<close>

theorem cap_writer_keeps_prefix:
  "let w = cap_writes (new_cap_writer cap) ps; s = concat ps
   in cw_buf w = (if cap < 0 then s else take (nat cap) s) \<and>
      cw_dropped w = (0 \<le> cap \<and> cap < int (length s)) \<and>
      fst (cap_write w p) = int (length p)"
proof -
  have "holds cap [] (new_cap_writer cap)" by (simp add: holds_def new_cap_writer_def)
  from cap_writes_holds [OF this, of ps] show ?thesis
    by (auto simp: holds_def Let_def cap_write_def)
qed

text \<open>
  Truncated output never splits a rune and wastes nothing: of a text that is a sequence of
  encoded runes, it keeps a prefix of whole runes of at most \<open>mx\<close> bytes, and one more rune would
  not have fit.
\<close>

theorem cap_output_whole_runes:
  assumes "list_all is_rune rs" "0 \<le> mx"
  shows "\<exists>k. fst (cap_output (concat rs) mx) = concat (take k rs) \<and>
    int (length (concat (take k rs))) \<le> mx \<and>
    (snd (cap_output (concat rs) mx) \<longleftrightarrow> k < length rs) \<and>
    (k < length rs \<longrightarrow> mx < int (length (concat (take (Suc k) rs))))"
proof (cases "int (length (concat rs)) \<le> mx")
  case True
  then show ?thesis using assms(2) by (intro exI [of _ "length rs"]) (simp add: cap_output_def)
next
  case False
  then have "nat mx < length (concat rs)" using assms(2) by linarith
  from back_up_runes [OF assms(1) this] obtain k where
    k: "back_up (concat rs) (nat mx) = length (concat (take k rs))" "k < length rs"
    "nat mx < length (concat (take (Suc k) rs))" by blast
  have "length (concat (take k rs)) \<le> nat mx" using k(1) back_up_le by metis
  then show ?thesis
    using False assms(2) k by (intro exI [of _ k]) (auto simp: cap_output_def take_concat)
qed

theorem cap_output_whole_runes_witness:
  "\<exists>k. fst (cap_output (concat [''a'', [CHR 0xC3, CHR 0xA9], ''b'']) 2) = concat (take k [''a'', [CHR 0xC3, CHR 0xA9], ''b''])"
proof -
  have "list_all is_rune [''a'', [CHR 0xC3, CHR 0xA9], ''b'']" by code_simp
  from cap_output_whole_runes [OF this, of 2] show ?thesis by auto
qed

end
