(* ===== verification/Tool_Env.thy ===== *)
theory Tool_Env
  imports Jail Tool_Util
begin

text \<open>
  What every tool gets and gives (\<open>internal/tools/tool.go\<close>): the environment, the limits, the
  result, the decoding of the wire arguments, and the errors of the tools as values. The JSON
  decoder and the context are parameters: \<open>unmarshal\<close>, and a function from the number of checks
  made so far to the error the next one sees. Decimal formatting (\<open>strconv.Itoa\<close>, the verbs
  \<open>%d\<close> and \<open>%10d\<close>) is written out.
\<close>

record limits =
  max_output :: int
  timeout :: int

record env =
  env_jail :: jail_set
  env_limits :: limits
  env_journalctl :: string

record tool_result =
  out_text :: string
  truncated :: bool

datatype 'e tool_error =
    BadArguments 'e
  | JailFailed "'e jail_error"
  | OsCallFailed "'e os_error"
  | ContextDone 'e
  | ReadFailed 'e
  | NotDirectory string
  | NotRegularFile string
  | NegativeOffset
  | TooLongLine
  | EmptyPattern
  | BadPattern 'e
  | NoJournalctl
  | BadUnitName
  | ChildFailed string
  | ChildError 'e
  | BadUsage arg_error
  | UnknownTool string
  | NoServerSide string

definition lift_err :: "('e \<Rightarrow> 'f) \<Rightarrow> 'e + 'a \<Rightarrow> 'f + 'a" where
  "lift_err f r = (case r of Inl e \<Rightarrow> Inl (f e) | Inr x \<Rightarrow> Inr x)"

lemma lift_err_simps [simp]: "lift_err f (Inl e) = Inl (f e)" "lift_err f (Inr x) = Inr x"
  by (simp_all add: lift_err_def)

lemma lift_err_eq_Inr [res_simps]: "lift_err f r = Inr x \<longleftrightarrow> r = Inr x"
  by (cases r) auto

definition decode_args :: "(string \<Rightarrow> 'e + 'a) \<Rightarrow> 'a \<Rightarrow> string \<Rightarrow> 'e tool_error + 'a" where
  "decode_args unmarshal zero raw =
     (if raw = [] then Inr zero else lift_err BadArguments (unmarshal raw))"

section \<open>Decimal output\<close>

definition digit_char :: "nat \<Rightarrow> char" where
  "digit_char d = char_of (48 + d)"

fun digits :: "nat \<Rightarrow> string" where
  "digits n = (if n < 10 then [digit_char n] else digits (n div 10) @ [digit_char (n mod 10)])"

declare digits.simps [simp del]

definition itoa :: "int \<Rightarrow> string" where
  "itoa i = (if i < 0 then CHR ''-'' # digits (nat (- i)) else digits (nat i))"

definition pad_left :: "nat \<Rightarrow> string \<Rightarrow> string" where
  "pad_left n s = replicate (n - length s) CHR '' '' @ s"

lemma digit_char_is_digit: "d < 10 \<Longrightarrow> is_digit (digit_char d)"
  by (simp add: is_digit_code digit_char_def)

lemma digits_are_digits: "list_all is_digit (digits n)"
  by (induction n rule: digits.induct) (subst digits.simps, auto simp: digit_char_is_digit)

lemma digits_val_digits: "digits_val (digits n) = int n"
proof (induction n rule: digits.induct)
  case (1 n)
  show ?case
  proof (cases "n < 10")
    case True
    then show ?thesis
      by (subst digits.simps) (simp add: digits_val_def digit_val_def digit_char_def)
  next
    case False
    have "digits_val (digits (n div 10) @ [digit_char (n mod 10)]) =
        10 * digits_val (digits (n div 10)) + digit_val (digit_char (n mod 10))"
      by (simp add: digits_val_def)
    also have "\<dots> = 10 * int (n div 10) + int (n mod 10)"
      using "1.IH" False by (simp add: digit_val_def digit_char_def)
    also have "\<dots> = int (10 * (n div 10) + n mod 10)"
      by (simp only: of_nat_add of_nat_mult of_nat_numeral)
    also have "\<dots> = int n" by (simp only: mult_div_mod_eq)
    finally show ?thesis using False by (subst digits.simps) simp
  qed
qed

lemma digits_not_Nil [simp]: "digits n \<noteq> []"
  by (subst digits.simps) simp

lemma digits_no_char: "\<not> is_digit c \<Longrightarrow> c \<notin> set (digits n)"
  using digits_are_digits [of n] by (auto simp: list_all_iff)

end
