(* ===== verification/Go_Heap.thy ===== *)
theory Go_Heap
  imports Prelude "HOL-Library.Multiset"
begin

text \<open>
  Go's \<open>container/heap\<close> over a slice ordered so that the largest element is at the root, as
  \<open>nameHeap\<close> of \<open>internal/tools/tool_list.go\<close> uses it: \<open>up\<close>, \<open>down\<close>, \<open>Push\<close> and \<open>Fix\<close>, the
  lemmas that they keep the heap order and the elements, and the interface a bounded
  selection needs of a queue, with the selection proved once against that interface.
\<close>

section \<open>The operations\<close>

definition less_at :: "'a::linorder list \<Rightarrow> nat \<Rightarrow> nat \<Rightarrow> bool" where
  "less_at h i k \<longleftrightarrow> h ! i > h ! k"

definition swap_at :: "'a list \<Rightarrow> nat \<Rightarrow> nat \<Rightarrow> 'a list" where
  "swap_at h i k = h[i := h ! k, k := h ! i]"

function up :: "'a::linorder list \<Rightarrow> nat \<Rightarrow> 'a list" where
  "up h j =
     (let i = (j - 1) div 2
      in if i = j \<or> \<not> less_at h j i then h else up (swap_at h i j) i)"
  by pat_completeness auto
termination by (relation "measure snd") auto

function down :: "'a::linorder list \<Rightarrow> nat \<Rightarrow> nat \<Rightarrow> 'a list \<times> nat" where
  "down h i n =
     (let j1 = 2 * i + 1
      in if n \<le> j1 then (h, i)
         else let j = (if j1 + 1 < n \<and> less_at h (j1 + 1) j1 then j1 + 1 else j1)
              in if \<not> less_at h j i then (h, i) else down (swap_at h i j) j n)"
  by pat_completeness auto
termination by (relation "measure (\<lambda>(h, i, n). n - i)") (auto simp: Let_def)

declare up.simps [simp del] down.simps [simp del]

definition heap_push :: "'a::linorder list \<Rightarrow> 'a \<Rightarrow> 'a list" where
  "heap_push h x = up (h @ [x]) (length (h @ [x]) - 1)"

definition heap_fix :: "'a::linorder list \<Rightarrow> nat \<Rightarrow> 'a list" where
  "heap_fix h i = (let (h', i') = down h i (length h) in if i < i' then h' else up h' i)"

section \<open>Elements\<close>

lemma length_swap_at [simp]: "length (swap_at h i k) = length h"
  by (simp add: swap_at_def)

lemma mset_swap_at: "i < length h \<Longrightarrow> k < length h \<Longrightarrow> mset (swap_at h i k) = mset h"
  by (simp add: swap_at_def mset_swap)

lemma nth_swap_at:
  "i < length h \<Longrightarrow> k < length h \<Longrightarrow>
     swap_at h i k ! l = (if l = k then h ! i else if l = i then h ! k else h ! l)"
  by (auto simp: swap_at_def nth_list_update)

lemma up_mset: "j < length h \<Longrightarrow> mset (up h j) = mset h"
proof (induction h j rule: up.induct)
  case (1 h j)
  show ?case
  proof (cases "(j - 1) div 2 = j \<or> \<not> less_at h j ((j - 1) div 2)")
    case True
    then show ?thesis by (subst up.simps) (simp add: Let_def)
  next
    case False
    then show ?thesis
      using "1.IH" [OF refl] "1.prems" by (subst up.simps) (auto simp: Let_def mset_swap_at)
  qed
qed

lemma down_mset: "i < length h \<Longrightarrow> n = length h \<Longrightarrow> mset (fst (down h i n)) = mset h"
proof (induction h i n rule: down.induct)
  case (1 h i n)
  show ?case
    using "1.IH" [OF refl _ refl] "1.prems" by (subst down.simps) (auto simp: Let_def mset_swap_at)
qed

section \<open>Heap order\<close>

definition parent :: "nat \<Rightarrow> nat" where
  "parent k = (k - 1) div 2"

definition is_heap :: "'a::linorder list \<Rightarrow> bool" where
  "is_heap h \<longleftrightarrow> (\<forall>k. 0 < k \<longrightarrow> k < length h \<longrightarrow> h ! k \<le> h ! parent k)"

text \<open>The order holds except between \<open>j\<close> and its parent.\<close>

definition heap_but_up :: "'a::linorder list \<Rightarrow> nat \<Rightarrow> bool" where
  "heap_but_up h j \<longleftrightarrow>
     (\<forall>k. 0 < k \<longrightarrow> k < length h \<longrightarrow> k \<noteq> j \<longrightarrow> h ! k \<le> h ! parent k) \<and>
     (\<forall>k. 0 < k \<longrightarrow> k < length h \<longrightarrow> 0 < j \<longrightarrow> parent k = j \<longrightarrow> h ! k \<le> h ! parent j)"

text \<open>The order holds except between \<open>i\<close> and its children.\<close>

definition heap_but_down :: "'a::linorder list \<Rightarrow> nat \<Rightarrow> bool" where
  "heap_but_down h i \<longleftrightarrow>
     (\<forall>k. 0 < k \<longrightarrow> k < length h \<longrightarrow> parent k \<noteq> i \<longrightarrow> h ! k \<le> h ! parent k) \<and>
     (\<forall>k. 0 < k \<longrightarrow> k < length h \<longrightarrow> 0 < i \<longrightarrow> parent k = i \<longrightarrow> h ! k \<le> h ! parent i)"

lemma parent_less: "0 < k \<Longrightarrow> parent k < k"
  by (simp add: parent_def)

lemma parent_children: "0 < k \<Longrightarrow> parent k = i \<Longrightarrow> k = 2 * i + 1 \<or> k = 2 * i + 2"
  by (simp add: parent_def) presburger

lemma parent_child [simp]: "parent (2 * i + 1) = i" "parent (2 * i + 2) = i" "parent (Suc (2 * i)) = i"
  "parent (Suc (Suc (2 * i))) = i"
  by (simp_all add: parent_def)

lemma up_step:
  assumes "heap_but_up h j" "j < length h" "0 < j" "h ! parent j < h ! j"
  shows "heap_but_up (swap_at h (parent j) j) (parent j)"
proof -
  let ?i = "parent j" and ?h = "swap_at h (parent j) j"
  have i: "?i < j" "?i < length h" using assms(2,3) parent_less by (auto intro: less_trans)
  note nth = nth_swap_at [OF i(2) assms(2)]
  have A: "k \<noteq> j \<Longrightarrow> 0 < k \<Longrightarrow> k < length h \<Longrightarrow> h ! k \<le> h ! parent k" for k
    using assms(1) by (simp add: heap_but_up_def)
  have B: "parent k = j \<Longrightarrow> 0 < k \<Longrightarrow> k < length h \<Longrightarrow> h ! k \<le> h ! ?i" for k
    using assms(1,3) by (simp add: heap_but_up_def)
  have "?h ! k \<le> ?h ! parent k" if "0 < k" "k < length h" "k \<noteq> ?i" for k
    using A [of k] B [of k] that assms(4) i parent_less [of k] by (auto simp: nth)
  moreover have "?h ! k \<le> ?h ! parent ?i" if k: "0 < k" "k < length h" "0 < ?i" "parent k = ?i" for k
    using A [of k] A [of ?i] k i parent_less [of ?i] parent_less [of k] by (auto simp: nth)
  ultimately show ?thesis by (simp add: heap_but_up_def)
qed

lemma up_heap: "heap_but_up h j \<Longrightarrow> j < length h \<Longrightarrow> is_heap (up h j)"
proof (induction h j rule: up.induct)
  case (1 h j)
  show ?case
  proof (cases "j = 0")
    case True
    then show ?thesis using "1.prems" by (subst up.simps) (simp add: is_heap_def heap_but_up_def)
  next
    case False
    then have j: "0 < j" "(j - 1) div 2 = parent j" "parent j \<noteq> j"
      using parent_less [of j] by (simp_all add: parent_def)
    show ?thesis
    proof (cases "less_at h j (parent j)")
      case True
      then have "heap_but_up (swap_at h (parent j) j) (parent j)"
        using up_step "1.prems" j by (simp add: less_at_def)
      then have "is_heap (up (swap_at h (parent j) j) (parent j))"
        using "1.IH" [OF refl] True j "1.prems" parent_less [of j] by simp
      then show ?thesis using True j by (subst up.simps) (simp add: Let_def)
    next
      case False
      then have "is_heap h" using "1.prems"
        by (auto simp: is_heap_def heap_but_up_def less_at_def not_less)
      then show ?thesis using False j by (subst up.simps) (simp add: Let_def)
    qed
  qed
qed

lemma down_step:
  assumes "heap_but_down h i" "j < length h" "0 < j" "parent j = i" "h ! i < h ! j"
    "\<And>k. 0 < k \<Longrightarrow> k < length h \<Longrightarrow> parent k = i \<Longrightarrow> h ! k \<le> h ! j"
  shows "heap_but_down (swap_at h i j) j"
proof -
  let ?h = "swap_at h i j"
  have i: "i < j" "i < length h" using assms(2-4) parent_less [of j] by auto
  note nth = nth_swap_at [OF i(2) assms(2)]
  have A: "parent k \<noteq> i \<Longrightarrow> 0 < k \<Longrightarrow> k < length h \<Longrightarrow> h ! k \<le> h ! parent k" for k
    using assms(1) by (simp add: heap_but_down_def)
  have B: "0 < i \<Longrightarrow> h ! j \<le> h ! parent i"
    using assms(1,2,3,4) by (simp add: heap_but_down_def)
  have "?h ! k \<le> ?h ! parent k" if k: "0 < k" "k < length h" "parent k \<noteq> j" for k
  proof (cases "k = i")
    case True
    then show ?thesis using B k i parent_less [of i] by (auto simp: nth)
  next
    case False
    then show ?thesis using A [of k] assms(5) assms(6) [of k] k i assms(4) by (auto simp: nth)
  qed
  moreover have "?h ! k \<le> ?h ! parent j" if k: "0 < k" "k < length h" "parent k = j" for k
    using A [of k] k i parent_less [of k] assms(4) by (auto simp: nth)
  ultimately show ?thesis by (simp add: heap_but_down_def)
qed

lemma down_heap:
  "heap_but_down h i \<Longrightarrow> i < length h \<Longrightarrow> n = length h \<Longrightarrow> is_heap (fst (down h i n))"
proof (induction h i n rule: down.induct)
  case (1 h i n)
  define j where "j = (if 2 * i + 1 + 1 < n \<and> less_at h (2 * i + 1 + 1) (2 * i + 1) then 2 * i + 1 + 1 else 2 * i + 1)"
  have kids: "0 < k \<Longrightarrow> parent k = i \<Longrightarrow> k = 2 * i + 1 \<or> k = 2 * i + 1 + 1" for k
    using parent_children [of k i] by simp
  show ?case
  proof (cases "n \<le> 2 * i + 1")
    case True
    have "h ! k \<le> h ! parent k" if "0 < k" "k < length h" for k
      using kids [OF that(1)] "1.prems" that True by (cases "parent k = i") (auto simp: heap_but_down_def)
    then show ?thesis using True by (subst down.simps) (simp add: is_heap_def)
  next
    case False
    then have unfold: "down h i n = (if \<not> less_at h j i then (h, i) else down (swap_at h i j) j n)"
      by (subst down.simps) (simp only: j_def Let_def if_False)
    have j: "j < length h" "0 < j" "parent j = i" using False "1.prems" by (auto simp: j_def)
    have top: "h ! k \<le> h ! j" if "0 < k" "k < length h" "parent k = i" for k
      using kids [OF that(1,3)] that(2) "1.prems"(3) by (auto simp: j_def less_at_def)
    show ?thesis
    proof (cases "less_at h j i")
      case True
      then have "h ! i < h ! j" by (simp add: less_at_def)
      from down_step [OF "1.prems"(1) j this top] have "heap_but_down (swap_at h i j) j"
        by blast
      moreover have "\<not> \<not> less_at h j i" "j < length (swap_at h i j)" "n = length (swap_at h i j)"
        using True j "1.prems"(3) by auto
      ultimately have "is_heap (fst (down (swap_at h i j) j n))"
        using "1.IH" [OF refl False j_def] by blast
      then show ?thesis using True by (simp add: unfold)
    next
      case nl: False
      have "h ! k \<le> h ! parent k" if "0 < k" "k < length h" for k
        using top [OF that] nl that "1.prems"(1)
        by (cases "parent k = i") (auto simp: heap_but_down_def less_at_def)
      then have "is_heap h" by (simp add: is_heap_def)
      then show ?thesis using nl by (simp add: unfold)
    qed
  qed
qed

lemma down_index: "i \<le> snd (down h i n) \<and> (snd (down h i n) = i \<longrightarrow> fst (down h i n) = h)"
proof (induction h i n rule: down.induct)
  case (1 h i n)
  show ?case
    using "1.IH" [OF refl _ refl] by (subst (1 2 3) down.simps) (force simp: Let_def)
qed

text \<open>The root is the largest element.\<close>

lemma is_heap_top: "is_heap h \<Longrightarrow> k < length h \<Longrightarrow> h ! k \<le> h ! 0"
proof (induction k rule: less_induct)
  case (less k)
  show ?case
  proof (cases "k = 0")
    case False
    then have "h ! k \<le> h ! parent k" "h ! parent k \<le> h ! 0"
      using less parent_less [of k] by (auto simp: is_heap_def)
    then show ?thesis by (rule order_trans)
  qed simp
qed

lemma is_heap_Nil: "is_heap []"
  by (simp add: is_heap_def)

lemma heap_push_ok: "is_heap h \<Longrightarrow> is_heap (heap_push h x) \<and> mset (heap_push h x) = add_mset x (mset h)"
proof -
  assume h: "is_heap h"
  have "heap_but_up (h @ [x]) (length h)"
    unfolding heap_but_up_def
  proof (intro conjI allI impI)
    fix k assume k: "0 < k" "k < length (h @ [x])"
    from parent_less [OF k(1)] have p: "parent k < k" .
    show "(h @ [x]) ! k \<le> (h @ [x]) ! parent k" if "k \<noteq> length h"
      using h k p that by (simp add: is_heap_def nth_append)
    show "(h @ [x]) ! k \<le> (h @ [x]) ! parent (length h)" if "parent k = length h"
      using k p that by simp
  qed
  then show ?thesis using up_heap [of "h @ [x]" "length h"] up_mset [of "length h" "h @ [x]"]
    by (simp add: heap_push_def)
qed

lemma heap_replace_ok:
  assumes "is_heap h" "h \<noteq> []"
  shows "is_heap (heap_fix (h[0 := x]) 0) \<and> mset (heap_fix (h[0 := x]) 0) = add_mset x (mset h - {#h ! 0#})"
proof -
  let ?h = "h[0 := x]"
  have "heap_but_down ?h 0"
    using assms by (auto simp: heap_but_down_def is_heap_def nth_list_update)
  then have d: "is_heap (fst (down ?h 0 (length h)))" "mset (fst (down ?h 0 (length h))) = mset ?h"
    using down_heap [of ?h 0] down_mset [of 0 ?h] assms(2) by auto
  have "heap_fix ?h 0 = fst (down ?h 0 (length h))"
    by (simp add: heap_fix_def split_beta Let_def) (subst up.simps, simp)
  with d assms(2) show ?thesis by (simp add: mset_update)
qed

section \<open>Selecting the smallest elements through a queue\<close>

text \<open>
  What a bounded selection calls: adding an element, and replacing the largest one, of a
  nonempty queue, by another. The queue is a list whose first element is its largest.
\<close>

locale max_queue =
  fixes ok :: "'a::linorder list \<Rightarrow> bool"
    and push :: "'a list \<Rightarrow> 'a \<Rightarrow> 'a list"
    and replace_top :: "'a list \<Rightarrow> 'a \<Rightarrow> 'a list"
  assumes ok_Nil: "ok []"
    and ok_push: "ok q \<Longrightarrow> ok (push q x) \<and> mset (push q x) = add_mset x (mset q)"
    and ok_replace: "ok q \<Longrightarrow> q \<noteq> [] \<Longrightarrow>
      ok (replace_top q x) \<and> mset (replace_top q x) = add_mset x (mset q - {#q ! 0#})"
    and top_largest: "ok q \<Longrightarrow> y \<in> set q \<Longrightarrow> y \<le> q ! 0"
begin

definition keep :: "nat \<Rightarrow> 'a \<Rightarrow> 'a list \<times> bool \<Rightarrow> 'a list \<times> bool" where
  "keep m x = (\<lambda>(q, t).
     if length q < m then (push q x, t)
     else if x < q ! 0 then (replace_top q x, True)
     else (q, True))"

text \<open>The queue holds the \<open>m\<close> smallest of the elements \<open>M\<close> seen, \<open>rest\<close> being the others.\<close>

definition selects :: "nat \<Rightarrow> 'a multiset \<Rightarrow> 'a list \<times> bool \<Rightarrow> bool" where
  "selects m M = (\<lambda>(q, t). ok q \<and> length q \<le> m \<and>
     (\<exists>rest. M = mset q + rest \<and> (rest \<noteq> {#} \<longrightarrow> length q = m) \<and>
        (\<forall>y\<in>set q. \<forall>z\<in>#rest. y \<le> z) \<and> (t \<longleftrightarrow> rest \<noteq> {#})))"

lemma selects_Nil: "selects m {#} ([], False)"
  by (simp add: selects_def ok_Nil)

lemma keep_selects:
  assumes "selects m M s" "0 < m"
  shows "selects m (add_mset x M) (keep m x s)"
proof -
  obtain q t where s: "s = (q, t)" by force
  from assms(1) obtain rest where q: "ok q" "length q \<le> m" and M: "M = mset q + rest"
    and full: "rest \<noteq> {#} \<longrightarrow> length q = m" and le: "\<forall>y\<in>set q. \<forall>z\<in>#rest. y \<le> z" and t: "t \<longleftrightarrow> rest \<noteq> {#}"
    by (auto simp: s selects_def)
  consider "length q < m" | "length q = m" "x < q ! 0" | "length q = m" "\<not> x < q ! 0"
    using q(2) by linarith
  then show ?thesis
  proof cases
    case 1
    then have "rest = {#}" using full by auto
    moreover have "length (push q x) = Suc (length q)"
      using ok_push [OF q(1), of x] by (metis size_add_mset size_mset)
    ultimately show ?thesis using 1 ok_push [OF q(1)] M t by (simp add: s selects_def keep_def)
  next
    case 2
    then have ne: "q \<noteq> []" and top: "q ! 0 \<in># mset q" using assms(2) by auto
    note r = ok_replace [OF q(1) ne, of x]
    have len: "length (replace_top q x) = m"
      using r 2(1) ne top by (metis size_add_mset size_mset insert_DiffM)
    have keep: "keep m x s = (replace_top q x, True)" using 2 by (simp add: s keep_def)
    have "add_mset x M = mset (replace_top q x) + add_mset (q ! 0) rest"
      using r top M by simp
    moreover have "y \<le> z" if "y \<in> set (replace_top q x)" "z \<in># add_mset (q ! 0) rest" for y z
    proof -
      have "y \<in># add_mset x (mset q - {#q ! 0#})" using that(1) r by (metis set_mset_mset)
      then have "y = x \<or> y \<in> set q" by (auto dest: in_diffD)
      then show ?thesis using that(2) le top top_largest [OF q(1)] 2(2)
        by (auto intro: less_imp_le dest: order_trans [OF less_imp_le])
    qed
    ultimately show ?thesis using keep r len
      by (auto simp: selects_def intro!: exI [of _ "add_mset (q ! 0) rest"])
  next
    case 3
    then have "keep m x s = (q, True)" by (simp add: s keep_def)
    moreover have "y \<le> x" if "y \<in> set q" for y
      using top_largest [OF q(1) that] 3(2) by auto
    ultimately show ?thesis using q M 3 le
      by (auto simp: selects_def intro!: exI [of _ "add_mset x rest"])
  qed
qed

lemma selects_take:
  assumes "selects m (mset xs) (q, t)"
  shows "sort q = take m (sort xs) \<and> (t \<longleftrightarrow> m < length xs)"
proof -
  from assms obtain rest where M: "mset xs = mset q + rest" and m: "length q \<le> m"
    and full: "rest \<noteq> {#} \<longrightarrow> length q = m" and le: "\<forall>y\<in>set q. \<forall>z\<in>#rest. y \<le> z" and t: "t \<longleftrightarrow> rest \<noteq> {#}"
    by (auto simp: selects_def)
  have "sort xs = sort q @ sorted_list_of_multiset rest"
    by (rule properties_for_sort) (use M le in \<open>auto simp: sorted_append\<close>)
  moreover have "length xs = length q + size rest"
    using arg_cong [OF M, of size] by simp
  ultimately show ?thesis using m full t by (cases "rest = {#}") (simp_all add: nonempty_has_size)
qed

end

interpretation names: max_queue is_heap heap_push "\<lambda>h x. heap_fix (h[0 := x]) 0"
proof unfold_locales
  fix q :: "'a list" and x y :: 'a
  show "is_heap ([] :: 'a list)" by (rule is_heap_Nil)
  show "is_heap q \<Longrightarrow> is_heap (heap_push q x) \<and> mset (heap_push q x) = add_mset x (mset q)"
    by (rule heap_push_ok)
  show "is_heap q \<Longrightarrow> q \<noteq> [] \<Longrightarrow> is_heap (heap_fix (q[0 := x]) 0) \<and>
      mset (heap_fix (q[0 := x]) 0) = add_mset x (mset q - {#q ! 0#})"
    by (rule heap_replace_ok)
  show "is_heap q \<Longrightarrow> y \<in> set q \<Longrightarrow> y \<le> q ! 0"
    by (auto simp: in_set_conv_nth intro: is_heap_top)
qed

end
