(* ===== verification/Tool_List.thy ===== *)
theory Tool_List
  imports Tool_Env Go_Heap
begin

text \<open>
  The directory listing (\<open>internal/tools/tool_list.go\<close>). A directory is read in batches; only
  the \<open>maxListEntries\<close> smallest visible names are kept, in a max-heap, and listed in order.

  The directory itself is a parameter: whether it opens, the batches \<open>ReadDir\<close> returns with a
  nil error and the last batch with \<open>io.EOF\<close> (\<open>None\<close>) or a real error, and the \<open>Lstat\<close> of each
  entry, with the mode and the time as the strings the code prints.
\<close>

record list_args =
  la_path :: string
  la_all :: bool

record file_info =
  fi_mode :: string
  fi_size :: int
  fi_time :: string

record 'e dir_os =
  open_dir :: "string \<Rightarrow> 'e os_error option"
  full_batches :: "string \<Rightarrow> string list list"
  last_batch :: "string \<Rightarrow> string list \<times> 'e option"
  lstat_info :: "string \<Rightarrow> file_info option"

definition max_list_entries :: nat where
  "max_list_entries = 10000"

section \<open>The scan\<close>

definition visible :: "bool \<Rightarrow> string \<Rightarrow> bool" where
  "visible show_all name \<longleftrightarrow> show_all \<or> \<not> has_prefix name ''.''"

definition keep_name :: "bool \<Rightarrow> string list \<times> bool \<Rightarrow> string \<Rightarrow> string list \<times> bool" where
  "keep_name show_all = (\<lambda>(kept, trunc) name.
     if \<not> visible show_all name then (kept, trunc)
     else if length kept < max_list_entries then (heap_push kept name, trunc)
     else if name < kept ! 0 then (heap_fix (kept[0 := name]) 0, True)
     else (kept, True))"

text \<open>The loop over the batches; \<open>k\<close> counts the checks of the context.\<close>

fun scan_dir ::
  "(nat \<Rightarrow> 'e option) \<Rightarrow> bool \<Rightarrow> nat \<Rightarrow> string list \<times> bool \<Rightarrow> string list list \<Rightarrow>
   string list \<times> 'e option \<Rightarrow> 'e tool_error + nat \<times> string list \<times> bool" where
  "scan_dir ctx show_all k s [] (batch, read_err) =
     (case ctx k of
        Some e \<Rightarrow> Inl (ContextDone e)
      | None \<Rightarrow>
          let s = foldl (keep_name show_all) s batch
          in case read_err of None \<Rightarrow> Inr (Suc k, s) | Some e \<Rightarrow> Inl (ReadFailed e))"
| "scan_dir ctx show_all k s (batch # batches) final =
     (case ctx k of
        Some e \<Rightarrow> Inl (ContextDone e)
      | None \<Rightarrow> scan_dir ctx show_all (Suc k) (foldl (keep_name show_all) s batch) batches final)"

definition list_line :: "string \<Rightarrow> file_info \<Rightarrow> string" where
  "list_line name fi =
     fi_mode fi @ '' '' @ pad_left 10 (itoa (fi_size fi)) @ '' '' @ fi_time fi @ '' '' @ name @ ''\<newline>''"

text \<open>The loop over the sorted names; a name that cannot be statted is left out.\<close>

fun list_lines ::
  "(nat \<Rightarrow> 'e option) \<Rightarrow> (string \<Rightarrow> file_info option) \<Rightarrow> string \<Rightarrow> nat \<Rightarrow> string \<Rightarrow> string list \<Rightarrow>
   'e tool_error + string" where
  "list_lines ctx lstat dir k b [] = Inr b"
| "list_lines ctx lstat dir k b (name # names) =
     (case ctx k of
        Some e \<Rightarrow> Inl (ContextDone e)
      | None \<Rightarrow>
          (case lstat (join_path [dir, name]) of
             None \<Rightarrow> list_lines ctx lstat dir (Suc k) b names
           | Some fi \<Rightarrow> list_lines ctx lstat dir (Suc k) (b @ list_line name fi) names))"

definition list_remote ::
  "(string \<Rightarrow> 'e + list_args) \<Rightarrow> 'e os \<Rightarrow> 'e dir_os \<Rightarrow> (nat \<Rightarrow> 'e option) \<Rightarrow> env \<Rightarrow> string \<Rightarrow>
   'e tool_error + tool_result" where
  "list_remote unmarshal os dos ctx env raw =
     bind_res (decode_args unmarshal \<lparr>la_path = [], la_all = False\<rparr> raw) (\<lambda>args.
     bind_res (lift_err JailFailed (resolve_path os (env_jail env) (la_path args))) (\<lambda>dir.
     bind_res (lift_err OsCallFailed (os_stat os dir)) (\<lambda>info.
       if info \<noteq> Directory then Inl (NotDirectory (la_path args))
       else case open_dir dos dir of
         Some e \<Rightarrow> Inl (OsCallFailed e)
       | None \<Rightarrow>
           bind_res (scan_dir ctx (la_all args) 0 ([], False) (full_batches dos dir) (last_batch dos dir))
             (\<lambda>(k, kept, trunc).
           bind_res (list_lines ctx (lstat_info dos) dir k [] (sort kept)) (\<lambda>text.
             let (out, cap_trunc) = cap_output text (max_output (env_limits env))
             in Inr \<lparr>out_text = out, truncated = trunc \<or> cap_trunc\<rparr>)))))"

section \<open>What the scan keeps\<close>

lemma keep_name_hidden: "\<not> visible a name \<Longrightarrow> keep_name a s name = s"
  by (cases s) (simp add: keep_name_def)

lemma keep_name_visible: "visible a name \<Longrightarrow> keep_name a s name = names.keep max_list_entries name s"
  by (cases s) (simp add: keep_name_def names.keep_def)

lemma keep_names_selects:
  "names.selects max_list_entries M s \<Longrightarrow>
     names.selects max_list_entries (M + mset (filter (visible a) batch)) (foldl (keep_name a) s batch)"
proof (induction batch arbitrary: M s)
  case (Cons name batch)
  show ?case
  proof (cases "visible a name")
    case True
    have "names.selects max_list_entries (add_mset name M) (keep_name a s name)"
      unfolding keep_name_visible [OF True]
      by (rule names.keep_selects) (use Cons.prems in \<open>simp_all add: max_list_entries_def\<close>)
    from Cons.IH [OF this] True show ?thesis by simp
  qed (use Cons in \<open>simp add: keep_name_hidden\<close>)
qed simp

lemma scan_dir_selects:
  assumes "\<forall>i. ctx i = None" "names.selects max_list_entries M s"
  shows "\<exists>s'. scan_dir ctx a k s bs (b, None) = Inr (Suc (k + length bs), s') \<and>
    names.selects max_list_entries (M + mset (filter (visible a) (concat bs @ b))) s'"
  using assms(2)
proof (induction bs arbitrary: k s M)
  case Nil
  then show ?case using assms(1) keep_names_selects by simp
next
  case (Cons b' bs)
  from Cons.IH [OF keep_names_selects [OF Cons.prems, where a = a and batch = b'], of "Suc k"]
  show ?case using assms(1) by (simp add: add.assoc)
qed

definition listing :: "(string \<Rightarrow> file_info option) \<Rightarrow> string \<Rightarrow> string list \<Rightarrow> string" where
  "listing lstat dir names = concat (map (\<lambda>name.
     case lstat (join_path [dir, name]) of None \<Rightarrow> [] | Some fi \<Rightarrow> list_line name fi) names)"

lemma list_lines_listing:
  "\<forall>i. ctx i = None \<Longrightarrow> list_lines ctx lstat dir k b names = Inr (b @ listing lstat dir names)"
  by (induction names arbitrary: k b) (auto simp: listing_def split: option.splits)

text \<open>An error of the jail or the context is relayed, and nothing is listed.\<close>

lemma list_jail_error:
  "unmarshal raw = Inr args \<Longrightarrow> raw \<noteq> [] \<Longrightarrow> resolve_path os (env_jail env) (la_path args) = Inl e \<Longrightarrow>
     list_remote unmarshal os dos ctx env raw = Inl (JailFailed e)"
  by (simp add: list_remote_def decode_args_def)

section \<open>Properties\<close>

text \<open>
  C19: A listing is the true alphabetical prefix: whatever order and batches the directory is read
  in, the lines are those of the 10000 smallest visible names, sorted, less the entries that
  vanished, and the truncation flag is set exactly when a name was left out or the text was cut.
\<close>

theorem list_alphabetical_prefix:
  assumes "decode_args unmarshal \<lparr>la_path = [], la_all = False\<rparr> raw = Inr args"
    and "resolve_path os (env_jail env) (la_path args) = Inr dir"
    and "os_stat os dir = Inr Directory" "open_dir dos dir = None"
    and "last_batch dos dir = (final, None)" "\<forall>i. ctx i = None"
  shows "let found = filter (visible (la_all args)) (concat (full_batches dos dir) @ final);
      text = listing (lstat_info dos) dir (take 10000 (sort found))
    in list_remote unmarshal os dos ctx env raw = Inr
      \<lparr>out_text = fst (cap_output text (max_output (env_limits env))),
       truncated = (10000 < length found \<or> snd (cap_output text (max_output (env_limits env))))\<rparr>"
proof -
  let ?found = "filter (visible (la_all args)) (concat (full_batches dos dir) @ final)"
  obtain q t where scan: "scan_dir ctx (la_all args) 0 ([], False) (full_batches dos dir) (final, None) =
      Inr (Suc (length (full_batches dos dir)), q, t)"
    and sel: "names.selects max_list_entries (mset ?found) (q, t)"
    using scan_dir_selects [OF assms(6) names.selects_Nil,
      where a = "la_all args" and k = 0 and bs = "full_batches dos dir" and b = final]
    by auto
  from names.selects_take [OF sel] have "sort q = take 10000 (sort ?found) \<and> (t \<longleftrightarrow> 10000 < length ?found)"
    by (simp add: max_list_entries_def)
  then show ?thesis
    using assms scan by (simp add: list_remote_def list_lines_listing split_beta Let_def)
qed

definition sample_dir :: "unit dir_os" where
  "sample_dir = \<lparr>open_dir = (\<lambda>_. None), full_batches = (\<lambda>_. [[''b'', ''.h'']]), last_batch = (\<lambda>_. ([''a''], None)),
     lstat_info = (\<lambda>p. if p = ''/srv/a'' then Some \<lparr>fi_mode = ''-rw'', fi_size = 5, fi_time = ''T''\<rparr> else None)\<rparr>"

definition sample_env :: env where
  "sample_env = \<lparr>env_jail = \<lparr>roots = [''/srv'']\<rparr>, env_limits = \<lparr>max_output = 100, timeout = 0\<rparr>, env_journalctl = []\<rparr>"

definition flat_os :: "unit os" where
  "flat_os = \<lparr>os_eval_symlinks = Inr, os_getwd = Inr ''/'', os_stat = (\<lambda>_. Inr Directory)\<rparr>"

theorem list_alphabetical_prefix_witness:
  "list_remote (\<lambda>_. Inr \<lparr>la_path = ''/srv'', la_all = False\<rparr>) flat_os sample_dir (\<lambda>_. None) sample_env ''x'' =
     Inr \<lparr>out_text = ''-rw          5 T a\<newline>'', truncated = False\<rparr>"
proof -
  have r: "resolve_path flat_os (env_jail sample_env) (la_path \<lparr>la_path = ''/srv'', la_all = False\<rparr>) = Inr ''/srv''"
    by code_simp
  have srt: "sort (filter (visible False) ([''b'', ''.h''] @ [''a''])) = [''a'', ''b'']" by code_simp
  have l: "listing (lstat_info sample_dir) ''/srv'' [''a'', ''b''] = ''-rw          5 T a\<newline>''" by code_simp
  have "cap_output ''-rw          5 T a\<newline>'' 100 = (''-rw          5 T a\<newline>'', False)" by code_simp
  with list_alphabetical_prefix [OF _ r, where raw = "''x''" and dos = sample_dir and final = "[''a'']" and ctx = "\<lambda>_. None"]
    srt l show ?thesis
    by (simp add: decode_args_def sample_dir_def flat_os_def sample_env_def Let_def)
qed

end
