(* ===== verification/Go_Bufio.thy ===== *)
theory Go_Bufio
  imports Prelude "HOL-Library.Sublist"
begin

text \<open>
  Go's \<open>bufio.Scanner\<close> splitting into lines with a bounded buffer, and \<open>io.LimitReader\<close>, as the
  tools use them. What a reader yields is a pair: its bytes, and the error after them, \<open>None\<close> for
  \<open>io.EOF\<close>. The scanner's buffer grows to \<open>cap\<close> bytes; a line that fills it before its newline is
  seen ends the scan with an error, the lines before it having been delivered.
\<close>

abbreviation newline :: char where
  "newline \<equiv> CHR 0x0A"

definition drop_cr :: "string \<Rightarrow> string" where
  "drop_cr l = (if l \<noteq> [] \<and> last l = CHR 0x0D then butlast l else l)"

function scan_lines :: "nat \<Rightarrow> string \<Rightarrow> string list \<times> bool" where
  "scan_lines cap s =
     (if s = [] then ([], False)
      else let l = takeWhile (\<lambda>c. c \<noteq> newline) s
           in if cap \<le> length l then ([], True)
              else let (ls, too_long) = scan_lines cap (drop (Suc (length l)) s)
                   in (drop_cr l # ls, too_long))"
  by pat_completeness auto
termination by (relation "measure (length \<circ> snd)") auto

declare scan_lines.simps [simp del]

definition limit_reader :: "nat \<Rightarrow> string \<times> 'e option \<Rightarrow> string \<times> 'e option" where
  "limit_reader n = (\<lambda>(s, e). if n \<le> length s then (take n s, None) else (s, e))"

section \<open>The lines of a text\<close>

text \<open>The lines without their newlines, in full; the scanner delivers them less a carriage
  return at the end.\<close>

function raw_lines :: "string \<Rightarrow> string list" where
  "raw_lines s =
     (if s = [] then []
      else let l = takeWhile (\<lambda>c. c \<noteq> newline) s in l # raw_lines (drop (Suc (length l)) s))"
  by pat_completeness auto
termination by (relation "measure length") auto

declare raw_lines.simps [simp del]

definition lines_of :: "string \<Rightarrow> string list" where
  "lines_of s = map drop_cr (raw_lines s)"

lemma take_line: "newline \<notin> set l \<Longrightarrow> takeWhile (\<lambda>c. c \<noteq> newline) (l @ newline # r) = l"
  by (induction l) auto

lemma take_last_line: "newline \<notin> set l \<Longrightarrow> takeWhile (\<lambda>c. c \<noteq> newline) l = l"
  by (induction l) auto

lemma raw_lines_Nil [simp]: "raw_lines [] = []"
  by (subst raw_lines.simps) simp

lemma raw_lines_line:
  "newline \<notin> set l \<Longrightarrow> raw_lines (l @ newline # r) = l # raw_lines r"
  by (subst raw_lines.simps) (simp add: Let_def take_line)

lemma raw_lines_last:
  "newline \<notin> set l \<Longrightarrow> raw_lines l = (if l = [] then [] else [l])"
  by (subst raw_lines.simps) (simp add: Let_def take_last_line)

lemma scan_lines_short:
  "list_all (\<lambda>l. length l < cap) (raw_lines s) \<Longrightarrow> scan_lines cap s = (lines_of s, False)"
proof (induction cap s rule: scan_lines.induct)
  case (1 cap s)
  show ?case
  proof (cases "s = []")
    case False
    let ?l = "takeWhile (\<lambda>c. c \<noteq> newline) s"
    have r: "raw_lines s = ?l # raw_lines (drop (Suc (length ?l)) s)"
      using False by (subst raw_lines.simps) (simp add: Let_def)
    with "1.prems" have "length ?l < cap" by simp
    with "1.IH" [OF False refl] "1.prems" r False show ?thesis
      by (subst scan_lines.simps) (simp add: Let_def lines_of_def)
  qed (subst scan_lines.simps, simp add: lines_of_def)
qed

lemma scan_lines_long:
  "newline \<notin> set l \<Longrightarrow> cap \<le> length l \<Longrightarrow> l \<noteq> [] \<Longrightarrow> scan_lines cap (l @ newline # r) = ([], True)"
  by (subst scan_lines.simps) (simp add: Let_def take_line)

text \<open>A line that fills the buffer ends the scan as if the text ended before it.\<close>

lemma scan_lines_step:
  "newline \<notin> set u \<Longrightarrow> fst (scan_lines cap (u @ newline # v)) =
     (if cap \<le> length u then [] else drop_cr u # fst (scan_lines cap v))"
  by (subst scan_lines.simps) (simp add: Let_def take_line split_beta)

lemma scan_lines_cut:
  assumes "cap \<le> length (takeWhile (\<lambda>c. c \<noteq> newline) t)" "t \<noteq> []"
  shows "pre = [] \<or> last pre = newline \<Longrightarrow> fst (scan_lines cap (pre @ t)) = fst (scan_lines cap pre)"
proof (induction pre rule: length_induct)
  case (1 pre)
  show ?case
  proof (cases "pre = []")
    case True
    then show ?thesis using assms by (simp add: scan_lines.simps [of cap t] scan_lines.simps [of cap "[]"])
  next
    case False
    then have "newline \<in> set pre" using "1.prems" by (metis last_in_set)
    then obtain u v where uv: "pre = u @ newline # v" "newline \<notin> set u" by (metis split_list_first)
    have "v = [] \<or> last v = newline" using "1.prems" uv(1) by (cases "v = []") auto
    moreover have "length v < length pre" using uv(1) by simp
    ultimately have "fst (scan_lines cap (v @ t)) = fst (scan_lines cap v)" using "1.IH" by blast
    then show ?thesis using uv scan_lines_step [OF uv(2), of cap "v @ t"] scan_lines_step [OF uv(2), of cap v] by simp
  qed
qed

lemma scan_lines_prefix: "prefix (fst (scan_lines cap s)) (lines_of s)"
proof (induction cap s rule: scan_lines.induct)
  case (1 cap s)
  show ?case
  proof (cases "s = []")
    case False
    let ?l = "takeWhile (\<lambda>c. c \<noteq> newline) s"
    have "raw_lines s = ?l # raw_lines (drop (Suc (length ?l)) s)"
      using False by (subst raw_lines.simps) (simp add: Let_def)
    then show ?thesis using "1.IH" [OF False refl] False
      by (subst scan_lines.simps) (simp add: Let_def lines_of_def split_beta)
  qed (subst scan_lines.simps, simp)
qed

lemma raw_lines_split: "raw_lines (s @ newline # r) = raw_lines (s @ [newline]) @ raw_lines r"
proof (induction s rule: raw_lines.induct)
  case (1 s)
  show ?case
  proof (cases "newline \<in> set s")
    case True
    then obtain u v where s: "s = u @ newline # v" "newline \<notin> set u"
      by (metis split_list_first)
    then have "takeWhile (\<lambda>c. c \<noteq> newline) s = u" by (simp add: take_line)
    then have "raw_lines (v @ newline # r) = raw_lines (v @ [newline]) @ raw_lines r"
      using "1.IH" [OF _ refl] s by auto
    then show ?thesis using s by (simp add: raw_lines_line)
  next
    case False
    then show ?thesis using raw_lines_line [of s r] raw_lines_line [of s "[]"] by simp
  qed
qed

text \<open>Reading from the middle: the lines after the first, possibly partial one are the last lines.\<close>

lemma lines_of_window: "suffix (tl (lines_of w)) (lines_of (p @ w))"
proof (cases "newline \<in> set w")
  case True
  then obtain u v where w: "w = u @ newline # v" "newline \<notin> set u"
    by (metis split_list_first)
  then have "tl (lines_of w) = lines_of v" by (simp add: lines_of_def raw_lines_line)
  moreover have "lines_of (p @ w) = lines_of ((p @ u) @ [newline]) @ lines_of v"
    using raw_lines_split [of "p @ u" v] w by (simp add: lines_of_def)
  ultimately show ?thesis by (simp add: suffix_def)
next
  case False
  then show ?thesis by (auto simp: lines_of_def raw_lines_last)
qed

end
