(* ===== verification/Tool_Files.thy ===== *)
theory Tool_Files
  imports Tool_Env Go_Bufio
begin

text \<open>
  The tools that read one file: \<open>internal/tools/tool_tail.go\<close> and \<open>internal/tools/tool_read.go\<close>.
  An open file is a parameter: the size \<open>Stat\<close> reports (\<open>None\<close> if it fails), whether \<open>Seek\<close>
  works, the bytes reads yield from its start, and the error after them. Reading after a seek
  yields the bytes from that offset on.
\<close>

record 'e go_file =
  f_size :: "nat option"
  f_seek :: "nat \<Rightarrow> 'e option"
  f_data :: string
  f_end :: "'e option"

type_synonym 'e opener = "string \<Rightarrow> 'e os_error + 'e go_file"

definition read_from :: "'e go_file \<Rightarrow> nat \<Rightarrow> string \<times> 'e option" where
  "read_from f off = (drop off (f_data f), f_end f)"

definition scan_line_cap :: nat where
  "scan_line_cap = 2 ^ 20"

section \<open>tail\<close>

record tail_args =
  ta_path :: string
  ta_lines :: int

definition tail_default_lines :: int where "tail_default_lines = 100"
definition tail_max_lines :: int where "tail_max_lines = 10000"
definition tail_max_scan :: nat where "tail_max_scan = 8 * 2 ^ 20"

definition tail_start :: "'e go_file \<Rightarrow> nat" where
  "tail_start f =
     (case f_size f of None \<Rightarrow> 0
      | Some n \<Rightarrow> if n > tail_max_scan then n - tail_max_scan else 0)"

text \<open>The loop over the scanned lines: the ring buffer and the count of lines put in it.\<close>

fun tail_loop ::
  "(nat \<Rightarrow> 'e option) \<Rightarrow> nat \<Rightarrow> nat \<Rightarrow> bool \<Rightarrow> string list \<Rightarrow> nat \<Rightarrow> string list \<Rightarrow>
   'e tool_error + string list \<times> nat" where
  "tail_loop ctx lines k drop_first ring count [] = Inr (ring, count)"
| "tail_loop ctx lines k drop_first ring count (t # ts) =
     (case ctx k of
        Some e \<Rightarrow> Inl (ContextDone e)
      | None \<Rightarrow>
          if drop_first then tail_loop ctx lines (Suc k) False ring count ts
          else tail_loop ctx lines (Suc k) False (ring[count mod lines := t]) (Suc count) ts)"

definition ring_text :: "string list \<Rightarrow> nat \<Rightarrow> nat \<Rightarrow> string" where
  "ring_text ring lines count =
     (let n = (if count < lines then count else lines); first = count - n
      in concat (map (\<lambda>i. ring ! ((first + i) mod lines) @ [newline]) [0..<n]))"

definition tail_file ::
  "(nat \<Rightarrow> 'e option) \<Rightarrow> nat \<Rightarrow> 'e go_file \<Rightarrow> 'e tool_error + string" where
  "tail_file ctx lines f =
     (let start = tail_start f
      in case (if start > 0 then f_seek f start else None) of
           Some e \<Rightarrow> Inl (ReadFailed e)
         | None \<Rightarrow>
             (let (data, read_err) = limit_reader tail_max_scan (read_from f start);
                  (ls, too_long) = scan_lines scan_line_cap data
              in bind_res (tail_loop ctx lines 0 (start > 0) (replicate lines []) 0 ls) (\<lambda>(ring, count).
                   if too_long then Inl TooLongLine
                   else case read_err of
                     Some e \<Rightarrow> Inl (ReadFailed e)
                   | None \<Rightarrow> Inr (ring_text ring lines count))))"

definition tail_remote ::
  "(string \<Rightarrow> 'e + tail_args) \<Rightarrow> 'e os \<Rightarrow> 'e opener \<Rightarrow> (nat \<Rightarrow> 'e option) \<Rightarrow> env \<Rightarrow> string \<Rightarrow>
   'e tool_error + tool_result" where
  "tail_remote unmarshal os opn ctx env raw =
     bind_res (decode_args unmarshal \<lparr>ta_path = [], ta_lines = 0\<rparr> raw) (\<lambda>args.
     bind_res (lift_err JailFailed (resolve_file os (env_jail env) (ta_path args))) (\<lambda>path.
       let lines = clamp_limit (ta_lines args) tail_default_lines tail_max_lines
       in bind_res (lift_err OsCallFailed (opn path)) (\<lambda>f.
          bind_res (tail_file ctx (nat lines) f) (\<lambda>text.
            let (out, cap_trunc) = cap_output text (max_output (env_limits env))
            in Inr \<lparr>out_text = out, truncated = cap_trunc\<rparr>))))"

section \<open>read\<close>

record read_args =
  ra_path :: string
  ra_max_bytes :: int
  ra_offset :: int

definition read_default_bytes :: int where "read_default_bytes = 65536"
definition read_hard_bytes :: int where "read_hard_bytes = 2 ^ 20"

definition read_limit :: "env \<Rightarrow> int \<Rightarrow> int" where
  "read_limit env requested =
     (let m = clamp_limit requested read_default_bytes read_hard_bytes
      in if 0 \<le> max_output (env_limits env) \<and> m > max_output (env_limits env)
         then max_output (env_limits env) else m)"

definition read_remote ::
  "(string \<Rightarrow> 'e + read_args) \<Rightarrow> 'e os \<Rightarrow> 'e opener \<Rightarrow> env \<Rightarrow> string \<Rightarrow> 'e tool_error + tool_result" where
  "read_remote unmarshal os opn env raw =
     bind_res (decode_args unmarshal \<lparr>ra_path = [], ra_max_bytes = 0, ra_offset = 0\<rparr> raw) (\<lambda>args.
     bind_res (lift_err JailFailed (resolve_file os (env_jail env) (ra_path args))) (\<lambda>path.
       if ra_offset args < 0 then Inl NegativeOffset
       else let max_bytes = nat (read_limit env (ra_max_bytes args)); off = nat (ra_offset args)
       in bind_res (lift_err OsCallFailed (opn path)) (\<lambda>f.
          case (if off > 0 then f_seek f off else None) of
            Some e \<Rightarrow> Inl (ReadFailed e)
          | None \<Rightarrow>
              (case limit_reader max_bytes (read_from f off) of
                 (data, Some e) \<Rightarrow> Inl (ReadFailed e)
               | (data, None) \<Rightarrow>
                   Inr \<lparr>out_text = data, truncated = length data < length (fst (read_from f off))\<rparr>))))"

section \<open>The ring buffer\<close>

text \<open>The ring after the lines \<open>seen\<close> have gone into it.\<close>

definition ring_ok :: "nat \<Rightarrow> string list \<Rightarrow> string list \<Rightarrow> bool" where
  "ring_ok n seen ring \<longleftrightarrow> length ring = n \<and>
     (\<forall>i < length seen. length seen - n \<le> i \<longrightarrow> ring ! (i mod n) = seen ! i)"

lemma mod_close: "i < (c::nat) \<Longrightarrow> c - i < n \<Longrightarrow> i mod n \<noteq> c mod n"
proof
  assume a: "i < c" "c - i < n" "i mod n = c mod n"
  then have "n dvd c - i" by (metis mod_eq_dvd_iff_nat less_imp_le)
  with a show False by (simp add: nat_dvd_not_less)
qed

lemma ring_ok_push:
  assumes "ring_ok n seen ring" "0 < n"
  shows "ring_ok n (seen @ [t]) (ring[length seen mod n := t])"
  unfolding ring_ok_def
proof (intro conjI allI impI)
  show "length (ring[length seen mod n := t]) = n" using assms(1) by (simp add: ring_ok_def)
  fix i assume i: "i < length (seen @ [t])" "length (seen @ [t]) - n \<le> i"
  show "ring[length seen mod n := t] ! (i mod n) = (seen @ [t]) ! i"
  proof (cases "i = length seen")
    case True
    then show ?thesis using assms by (simp add: ring_ok_def)
  next
    case False
    then have "i < length seen" "length seen - i < n" using i by auto
    with mod_close have "i mod n \<noteq> length seen mod n" by blast
    with i False assms(1) show ?thesis by (auto simp: ring_ok_def nth_append)
  qed
qed

lemma tail_loop_ok:
  "\<forall>i. ctx i = None \<Longrightarrow> ring_ok n seen ring \<Longrightarrow> 0 < n \<Longrightarrow>
     \<exists>ring'. tail_loop ctx n k d ring (length seen) ts =
         Inr (ring', length (seen @ (if d then tl ts else ts))) \<and>
       ring_ok n (seen @ (if d then tl ts else ts)) ring'"
proof (induction ts arbitrary: k d seen ring)
  case (Cons t ts)
  show ?case
  proof (cases d)
    case True
    with Cons.IH [OF Cons.prems, of "Suc k" False] Cons.prems(1) show ?thesis by simp
  next
    case False
    with Cons.IH [OF Cons.prems(1) ring_ok_push [OF Cons.prems(2,3)] Cons.prems(3), of "Suc k" False t]
      Cons.prems(1) show ?thesis by simp
  qed
qed auto

text \<open>The last \<open>n\<close> elements.\<close>

definition last_n :: "nat \<Rightarrow> 'a list \<Rightarrow> 'a list" where
  "last_n n xs = drop (length xs - n) xs"

definition unlines :: "string list \<Rightarrow> string" where
  "unlines ls = concat (map (\<lambda>l. l @ [newline]) ls)"

lemma ring_text_last:
  assumes "ring_ok n seen ring" "0 < n"
  shows "ring_text ring n (length seen) = unlines (last_n n seen)"
proof -
  let ?c = "length seen" let ?m = "if ?c < n then ?c else n"
  have eq: "ring ! ((?c - ?m + i) mod n) = last_n n seen ! i" if "i < ?m" for i
    using assms that by (auto simp: ring_ok_def last_n_def split: if_splits)
  have "last_n n seen = map (\<lambda>i. ring ! ((?c - ?m + i) mod n)) [0..<?m]"
  proof (rule nth_equalityI)
    show len: "length (last_n n seen) = length (map (\<lambda>i. ring ! ((?c - ?m + i) mod n)) [0..<?m])"
      by (simp add: last_n_def)
    show "last_n n seen ! i = map (\<lambda>i. ring ! ((?c - ?m + i) mod n)) [0..<?m] ! i"
      if "i < length (last_n n seen)" for i
      using eq [of i] that len by simp
  qed
  then show ?thesis by (simp add: ring_text_def unlines_def Let_def comp_def)
qed

lemma nat_clamp_pos: "0 < d \<Longrightarrow> d \<le> m \<Longrightarrow> 0 < nat (clamp_limit r d m)"
  using clamp_limit_bounds [of d m r] by simp

text \<open>What \<open>tail\<close> scans: the last \<open>tailMaxScan\<close> bytes of the file, or all of a smaller one.\<close>

definition tail_window :: "string \<Rightarrow> string" where
  "tail_window data = drop (length data - tail_max_scan) data"

definition tail_lines :: "string \<Rightarrow> string list" where
  "tail_lines data =
     (if length data \<le> tail_max_scan then lines_of data else tl (lines_of (tail_window data)))"

lemma tail_lines_suffix: "suffix (tail_lines data) (lines_of data)"
proof (cases "length data \<le> tail_max_scan")
  case False
  have "data = take (length data - tail_max_scan) data @ tail_window data"
    by (simp add: tail_window_def)
  with lines_of_window [of "tail_window data" "take (length data - tail_max_scan) data"] False
  show ?thesis by (simp add: tail_lines_def)
qed (simp add: tail_lines_def)

text \<open>A file that does not change while it is read: \<open>Stat\<close> reports the length of its data.\<close>

definition steady :: "'e go_file \<Rightarrow> bool" where
  "steady f \<longleftrightarrow> f_size f = Some (length (f_data f)) \<and> f_end f = None \<and> (\<forall>n. f_seek f n = None)"

lemma tail_file_ok:
  assumes "steady f" "\<forall>i. ctx i = None" "0 < n"
    "list_all (\<lambda>l. length l < scan_line_cap) (raw_lines (tail_window (f_data f)))"
  shows "tail_file ctx n f = Inr (unlines (last_n n (tail_lines (f_data f))))"
proof -
  let ?d = "f_data f"
  have start: "tail_start f = length ?d - tail_max_scan"
    using assms(1) by (simp add: tail_start_def steady_def)
  have lim: "limit_reader tail_max_scan (read_from f (tail_start f)) = (tail_window ?d, None)"
    using assms(1) by (auto simp: limit_reader_def read_from_def start tail_window_def steady_def)
  have scan: "scan_lines scan_line_cap (tail_window ?d) = (lines_of (tail_window ?d), False)"
    using scan_lines_short [OF assms(4)] .
  have w: "(if 0 < tail_start f then tl (lines_of (tail_window ?d)) else lines_of (tail_window ?d)) = tail_lines ?d"
    by (auto simp: tail_lines_def start tail_window_def)
  have "ring_ok n [] (replicate n [])" by (simp add: ring_ok_def)
  from tail_loop_ok [OF assms(2) this assms(3), of 0 "0 < tail_start f" "lines_of (tail_window ?d)"]
  obtain ring where "tail_loop ctx n 0 (0 < tail_start f) (replicate n []) 0 (lines_of (tail_window ?d)) =
      Inr (ring, length (tail_lines ?d))" "ring_ok n (tail_lines ?d) ring"
    unfolding append_Nil w by auto
  moreover from ring_text_last [OF this(2) assms(3)]
  have "ring_text ring n (length (tail_lines ?d)) = unlines (last_n n (tail_lines ?d))" .
  moreover have "(if 0 < tail_start f then f_seek f (tail_start f) else None) = None"
    using assms(1) by (simp add: steady_def)
  ultimately show ?thesis
    by (simp only: tail_file_def Let_def lim scan option.case prod.case bind_res_Inr if_False)
qed

section \<open>Properties\<close>

text \<open>
  C22: The tail of a file is its last lines: for a file that stays as it is and has no line of a
  mebibyte or more in the last eight, the output is the last \<open>n\<close> of the lines in that window,
  which are the last lines of the whole file, whole, in order, and \<open>n\<close> is the request clamped.
\<close>

theorem tail_shows_last_lines:
  assumes "decode_args unmarshal \<lparr>ta_path = [], ta_lines = 0\<rparr> raw = Inr args"
    and "resolve_file os (env_jail env) (ta_path args) = Inr path"
    and "opn path = Inr f" "steady f" "\<forall>i. ctx i = None"
    and "list_all (\<lambda>l. length l < scan_line_cap) (raw_lines (tail_window (f_data f)))"
  shows "let n = nat (clamp_limit (ta_lines args) 100 10000);
      text = unlines (last_n n (tail_lines (f_data f)));
      cut = cap_output text (max_output (env_limits env))
    in tail_remote unmarshal os opn ctx env raw = Inr \<lparr>out_text = fst cut, truncated = snd cut\<rparr> \<and>
       suffix (last_n n (tail_lines (f_data f))) (lines_of (f_data f)) \<and> 0 < n \<and> n \<le> 10000"
proof -
  define n where "n = nat (clamp_limit (ta_lines args) 100 10000)"
  have n: "0 < n" "n \<le> 10000"
    using clamp_limit_bounds [of 100 10000 "ta_lines args"] by (simp_all add: n_def nat_le_iff)
  have "suffix (last_n n (tail_lines (f_data f))) (tail_lines (f_data f))"
    by (simp add: last_n_def suffix_drop)
  then have "suffix (last_n n (tail_lines (f_data f))) (lines_of (f_data f))"
    using tail_lines_suffix suffix_order.trans by blast
  with n tail_file_ok [OF assms(4,5) n(1) assms(6)] assms(1-3) show ?thesis
    by (simp add: tail_remote_def tail_default_lines_def tail_max_lines_def Let_def split_beta n_def)
qed

text \<open>
  C23: Paging through a file with \<open>read\<close> gives the file: successive reads of \<open>m\<close> bytes at the offsets
  \<open>0\<close>, \<open>m\<close>, \<open>2m\<close>, and so on concatenate to its first bytes without gap or overlap, and a read says it is
  truncated exactly when bytes follow it.
\<close>

theorem read_pages_cover:
  assumes "resolve_file os (env_jail env) path = Inr real" "opn real = Inr f" "steady f"
    and "m = nat (read_limit env mb)"
  shows "\<exists>page. (\<forall>i. read_remote (\<lambda>_. Inr \<lparr>ra_path = path, ra_max_bytes = mb, ra_offset = int (i * m)\<rparr>)
        os opn env ''x'' = Inr (page i)) \<and>
      (\<forall>i. truncated (page i) \<longleftrightarrow> (i + 1) * m < length (f_data f)) \<and>
      (\<forall>k. concat (map (\<lambda>i. out_text (page i)) [0..<k]) = take (k * m) (f_data f))"
proof -
  define page where "page i = \<lparr>out_text = take m (drop (i * m) (f_data f)),
     truncated = (i + 1) * m < length (f_data f)\<rparr>" for i
  have "read_remote (\<lambda>_. Inr \<lparr>ra_path = path, ra_max_bytes = mb, ra_offset = int (i * m)\<rparr>)
        os opn env ''x'' = Inr (page i)" for i
    using assms(1-3) less_diff_conv [of m "length (f_data f)" "i * m"]
    by (simp add: read_remote_def decode_args_def assms(4) [symmetric] limit_reader_def read_from_def
        steady_def page_def Let_def add.commute del: of_nat_mult) linarith
  moreover have "concat (map (\<lambda>i. out_text (page i)) [0..<k]) = take (k * m) (f_data f)" for k
    by (induction k) (simp_all add: page_def take_add [symmetric] add.commute)
  moreover have "truncated (page i) \<longleftrightarrow> (i + 1) * m < length (f_data f)" for i by (simp add: page_def)
  ultimately show ?thesis by blast
qed

definition file_os :: "unit os" where
  "file_os = \<lparr>os_eval_symlinks = Inr, os_getwd = Inr ''/'', os_stat = (\<lambda>_. Inr RegularFile)\<rparr>"

definition file_env :: env where
  "file_env = \<lparr>env_jail = \<lparr>roots = [''/srv'']\<rparr>, env_limits = \<lparr>max_output = 100, timeout = 0\<rparr>, env_journalctl = []\<rparr>"

definition sample_file :: "unit go_file" where
  "sample_file = (let d = ''ab'' @ [newline] @ ''c'' @ [newline] @ ''d'' in
     \<lparr>f_size = Some (length d), f_seek = (\<lambda>_. None), f_data = d, f_end = None\<rparr>)"

lemma file_resolves: "resolve_file file_os (env_jail file_env) ''/srv/f'' = Inr ''/srv/f''"
  by code_simp

lemma sample_steady: "steady sample_file"
  by (simp add: steady_def sample_file_def Let_def)

theorem tail_shows_last_lines_witness:
  "tail_remote (\<lambda>_. Inr \<lparr>ta_path = ''/srv/f'', ta_lines = 2\<rparr>) file_os (\<lambda>_. Inr sample_file) (\<lambda>_. None) file_env ''x'' =
     Inr \<lparr>out_text = ''c'' @ [newline] @ ''d'' @ [newline], truncated = False\<rparr>"
proof -
  have w: "tail_window (f_data sample_file) = f_data sample_file"
    by (simp add: tail_window_def tail_max_scan_def sample_file_def Let_def)
  have r: "raw_lines (f_data sample_file) = [''ab'', ''c'', ''d'']" by code_simp
  then have l: "tail_lines (f_data sample_file) = [''ab'', ''c'', ''d'']"
    by (simp add: tail_lines_def lines_of_def drop_cr_def tail_max_scan_def sample_file_def Let_def)
  have sc: "list_all (\<lambda>l. length l < scan_line_cap) (raw_lines (tail_window (f_data sample_file)))"
    by (simp add: w r scan_line_cap_def)
  have c: "nat (clamp_limit 2 100 10000) = 2" by (simp add: clamp_limit_def)
  have t: "unlines (last_n 2 [''ab'', ''c'', ''d'']) = ''c'' @ [newline] @ ''d'' @ [newline]" by code_simp
  have o: "cap_output (''c'' @ [newline] @ ''d'' @ [newline]) 100 = (''c'' @ [newline] @ ''d'' @ [newline], False)"
    by code_simp
  from tail_shows_last_lines [where raw = "''x''" and args = "\<lparr>ta_path = ''/srv/f'', ta_lines = 2\<rparr>"
      and unmarshal = "\<lambda>_. Inr \<lparr>ta_path = ''/srv/f'', ta_lines = 2\<rparr>" and opn = "\<lambda>_. Inr sample_file"
      and ctx = "\<lambda>_. None" and os = file_os and env = file_env, OF _ _ _ sample_steady _ sc] file_resolves
  show ?thesis by (simp only: l c t o decode_args_def Let_def lift_err_simps fst_conv snd_conv)
      (simp add: l c t o decode_args_def file_env_def cap_output_def)
qed

theorem read_pages_cover_witness:
  "\<exists>r0 r1. read_remote (\<lambda>_. Inr \<lparr>ra_path = ''/srv/f'', ra_max_bytes = 4, ra_offset = int (0 * 4)\<rparr>)
      file_os (\<lambda>_. Inr sample_file) file_env ''x'' = Inr r0 \<and>
    read_remote (\<lambda>_. Inr \<lparr>ra_path = ''/srv/f'', ra_max_bytes = 4, ra_offset = int (1 * 4)\<rparr>)
      file_os (\<lambda>_. Inr sample_file) file_env ''x'' = Inr r1 \<and>
    truncated r0 \<and> \<not> truncated r1 \<and> out_text r0 @ out_text r1 = f_data sample_file"
proof -
  have m: "4 = nat (read_limit file_env 4)"
    by (simp add: read_limit_def clamp_limit_def read_default_bytes_def read_hard_bytes_def file_env_def)
  have len: "length (f_data sample_file) = 6" by (simp add: sample_file_def Let_def)
  from read_pages_cover [OF file_resolves _ sample_steady m, of "\<lambda>_. Inr sample_file"]
  obtain page where page: "\<And>i. read_remote (\<lambda>_. Inr \<lparr>ra_path = ''/srv/f'', ra_max_bytes = 4, ra_offset = int (i * 4)\<rparr>)
        file_os (\<lambda>_. Inr sample_file) file_env ''x'' = Inr (page i)"
      "\<And>i. truncated (page i) \<longleftrightarrow> (i + 1) * 4 < length (f_data sample_file)"
      "\<And>k. concat (map (\<lambda>i. out_text (page i)) [0..<k]) = take (k * 4) (f_data sample_file)"
    by blast
  from page(3) [of 2] len have "out_text (page 0) @ out_text (page 1) = f_data sample_file"
    by (simp add: numeral_2_eq_2)
  then show ?thesis using page(1) [of 0] page(1) [of 1] page(2) [of 0] page(2) [of 1] len by auto
qed

end
