(* ===== verification/Tool_Grep.thy ===== *)
theory Tool_Grep
  imports Tool_Files
begin

text \<open>
  The search (\<open>internal/tools/tool_grep.go\<close>). The regular expression engine is a parameter:
  \<open>compile\<close> gives an error or the match function of a pattern. So are the entries
  \<open>filepath.WalkDir\<close> visits, in its order, and the files. The search carries the text written,
  the number of matches, the truncation flag and the number of checks of the context so far.
\<close>

record grep_args =
  ga_path :: string
  ga_pattern :: string
  ga_ignore_case :: bool
  ga_max_matches :: int

definition grep_default_matches :: int where "grep_default_matches = 1000"
definition grep_max_matches :: int where "grep_max_matches = 100000"

record grep_state =
  g_text :: string
  g_matches :: nat
  g_truncated :: bool
  g_checks :: nat

text \<open>How a part of the search ends: go on, the sentinel \<open>errStopScan\<close>, or an error.\<close>

datatype 'e scan_end = Continue | StopScan | ScanFailed "'e tool_error"

record 'e grep_cfg =
  gc_ctx :: "nat \<Rightarrow> 'e option"
  gc_re :: "string \<Rightarrow> bool"
  gc_max :: nat
  gc_out :: int
  gc_open :: "'e opener"

definition match_line :: "string \<Rightarrow> nat \<Rightarrow> string \<Rightarrow> string" where
  "match_line path n text = path @ '':'' @ digits n @ '': '' @ text @ [newline]"

text \<open>The loop over the lines of one file; \<open>n\<close> is the number of the line before.\<close>

fun grep_lines ::
  "'e grep_cfg \<Rightarrow> string \<Rightarrow> nat \<Rightarrow> grep_state \<Rightarrow> string list \<Rightarrow> grep_state \<times> 'e scan_end" where
  "grep_lines c path n s [] = (s, Continue)"
| "grep_lines c path n s (text # rest) =
     (case gc_ctx c (g_checks s) of
        Some e \<Rightarrow> (s, ScanFailed (ContextDone e))
      | None \<Rightarrow>
          let s = s\<lparr>g_checks := Suc (g_checks s)\<rparr>; n = Suc n
          in if gc_re c text then
               if gc_max c \<le> g_matches s then (s\<lparr>g_truncated := True\<rparr>, StopScan)
               else if 0 \<le> gc_out c \<and> gc_out c \<le> int (length (g_text s)) then
                 (s\<lparr>g_truncated := True\<rparr>, StopScan)
               else grep_lines c path n
                      (s\<lparr>g_text := g_text s @ match_line path n text, g_matches := Suc (g_matches s)\<rparr>) rest
             else grep_lines c path n s rest)"

text \<open>\<open>scanFile\<close>: an unreadable file is skipped, and an error of the scanner is not looked at.\<close>

definition scan_file :: "'e grep_cfg \<Rightarrow> grep_state \<Rightarrow> string \<Rightarrow> grep_state \<times> 'e scan_end" where
  "scan_file c s path =
     (case gc_open c path of
        Inl e \<Rightarrow> (s, Continue)
      | Inr f \<Rightarrow> grep_lines c path 0 s (fst (scan_lines scan_line_cap (f_data f))))"

record walk_entry =
  w_path :: string
  w_err :: bool
  w_dir :: bool
  w_regular :: bool

fun grep_walk :: "'e grep_cfg \<Rightarrow> grep_state \<Rightarrow> walk_entry list \<Rightarrow> grep_state \<times> 'e scan_end" where
  "grep_walk c s [] = (s, Continue)"
| "grep_walk c s (w # ws) =
     (if w_err w then grep_walk c s ws
      else case gc_ctx c (g_checks s) of
        Some e \<Rightarrow> (s, ScanFailed (ContextDone e))
      | None \<Rightarrow>
          let s = s\<lparr>g_checks := Suc (g_checks s)\<rparr>
          in if w_dir w \<or> \<not> w_regular w then grep_walk c s ws
             else case scan_file c s (w_path w) of
               (s, Continue) \<Rightarrow> grep_walk c s ws
             | r \<Rightarrow> r)"

definition grep_remote ::
  "(string \<Rightarrow> 'e + grep_args) \<Rightarrow> (string \<Rightarrow> 'e + (string \<Rightarrow> bool)) \<Rightarrow> 'e os \<Rightarrow> (string \<Rightarrow> walk_entry list) \<Rightarrow>
   'e opener \<Rightarrow> (nat \<Rightarrow> 'e option) \<Rightarrow> env \<Rightarrow> string \<Rightarrow> 'e tool_error + tool_result" where
  "grep_remote unmarshal compile os walk opn ctx env raw =
     bind_res (decode_args unmarshal \<lparr>ga_path = [], ga_pattern = [], ga_ignore_case = False, ga_max_matches = 0\<rparr> raw)
       (\<lambda>args.
     if ga_pattern args = [] then Inl EmptyPattern
     else
       let pattern = (if ga_ignore_case args then ''(?i)'' @ ga_pattern args else ga_pattern args)
       in bind_res (lift_err BadPattern (compile pattern)) (\<lambda>re.
       let max_matches = clamp_limit (ga_max_matches args) grep_default_matches grep_max_matches
       in bind_res (lift_err JailFailed (resolve_path os (env_jail env) (ga_path args))) (\<lambda>target.
       bind_res (lift_err OsCallFailed (os_stat os target)) (\<lambda>info.
         let c = \<lparr>gc_ctx = ctx, gc_re = re, gc_max = nat max_matches,
                   gc_out = max_output (env_limits env), gc_open = opn\<rparr>;
             s = \<lparr>g_text = [], g_matches = 0, g_truncated = False, g_checks = 0\<rparr>
         in if info \<noteq> Directory \<and> info \<noteq> RegularFile then Inl (NotRegularFile (ga_path args))
            else case (if info = Directory then grep_walk c s (walk target) else scan_file c s target) of
              (s, ScanFailed e) \<Rightarrow> Inl e
            | (s, _) \<Rightarrow>
                (let (out, cap_trunc) = cap_output (g_text s) (max_output (env_limits env))
                 in Inr \<lparr>out_text = out, truncated = g_truncated s \<or> cap_trunc\<rparr>)))))"

text \<open>The lines are searched without the file system.\<close>

lemma grep_lines_opener: "grep_lines (c\<lparr>gc_open := opn\<rparr>) path n s ls = grep_lines c path n s ls"
  by (induction c path n s ls rule: grep_lines.induct) (simp_all add: Let_def split: option.split)

section \<open>What the search finds\<close>

text \<open>
  All matching lines of a file, of the files visited, in order, as they are printed; \<open>lines\<close> says which lines of
  a file's bytes count: all of them, or those the scanner delivers before a line that fills its buffer.
\<close>

definition scanned_lines :: "string \<Rightarrow> string list" where
  "scanned_lines s = fst (scan_lines scan_line_cap s)"

definition file_matches :: "(string \<Rightarrow> bool) \<Rightarrow> string \<Rightarrow> nat \<Rightarrow> string list \<Rightarrow> string list" where
  "file_matches re path n ls =
     map (\<lambda>(i, l). match_line path (Suc (n + i)) l) (filter (\<lambda>(i, l). re l) (enumerate 0 ls))"

fun walk_matches ::
  "(string \<Rightarrow> string list) \<Rightarrow> (string \<Rightarrow> bool) \<Rightarrow> 'e opener \<Rightarrow> walk_entry list \<Rightarrow> string list" where
  "walk_matches lines re opn [] = []"
| "walk_matches lines re opn (w # ws) =
     (if w_err w \<or> w_dir w \<or> \<not> w_regular w then []
      else case opn (w_path w) of
        Inl e \<Rightarrow> []
      | Inr f \<Rightarrow> file_matches re (w_path w) 0 (lines (f_data f))) @
     walk_matches lines re opn ws"

text \<open>No line of the files the walk reads fills the scanner's buffer.\<close>

definition short_lines :: "'e opener \<Rightarrow> walk_entry list \<Rightarrow> bool" where
  "short_lines opn ws \<longleftrightarrow>
     (\<forall>w\<in>set ws. \<forall>f. \<not> w_err w \<longrightarrow> \<not> w_dir w \<longrightarrow> w_regular w \<longrightarrow> opn (w_path w) = Inr f \<longrightarrow>
        list_all (\<lambda>l. length l < scan_line_cap) (raw_lines (f_data f)))"

text \<open>One of the two limits is reached, so the next match is not printed.\<close>

definition full :: "'e grep_cfg \<Rightarrow> grep_state \<Rightarrow> bool" where
  "full c s \<longleftrightarrow> gc_max c \<le> g_matches s \<or> (0 \<le> gc_out c \<and> gc_out c \<le> int (length (g_text s)))"

text \<open>What happens to the state, given the matches to come.\<close>

fun emit :: "'e grep_cfg \<Rightarrow> grep_state \<Rightarrow> string list \<Rightarrow> grep_state \<times> 'e scan_end" where
  "emit c s [] = (s, Continue)"
| "emit c s (m # ms) =
     (if full c s then (s\<lparr>g_truncated := True\<rparr>, StopScan)
      else emit c (s\<lparr>g_text := g_text s @ m, g_matches := Suc (g_matches s)\<rparr>) ms)"

text \<open>The state but for the number of checks.\<close>

definition uncounted :: "grep_state \<times> 'e scan_end \<Rightarrow> grep_state \<times> 'e scan_end" where
  "uncounted r = ((fst r)\<lparr>g_checks := 0\<rparr>, snd r)"

lemma checks_last [simp]:
  "s\<lparr>g_checks := k, g_text := t, g_matches := n\<rparr> = s\<lparr>g_text := t, g_matches := n, g_checks := k\<rparr>"
  "s\<lparr>g_checks := k, g_truncated := b\<rparr> = s\<lparr>g_truncated := b, g_checks := k\<rparr>"
  by (cases s; simp)+

lemma emit_append:
  "emit c s (a @ b) = (case emit c s a of (s, Continue) \<Rightarrow> emit c s b | r \<Rightarrow> r)"
  by (induction c s a rule: emit.induct) auto

lemma emit_checks: "emit c (s\<lparr>g_checks := k\<rparr>) ms = ((fst (emit c s ms))\<lparr>g_checks := k\<rparr>, snd (emit c s ms))"
  by (induction c s ms rule: emit.induct) (simp_all add: full_def)

lemma uncounted_emit: "uncounted (emit c (s\<lparr>g_checks := k\<rparr>) ms) = emit c (s\<lparr>g_checks := 0\<rparr>) ms"
  by (simp only: emit_checks uncounted_def) simp

lemma file_matches_simps [simp]:
  "file_matches re path n [] = []"
  "file_matches re path n (l # ls) =
     (if re l then match_line path (Suc n) l # file_matches re path (Suc n) ls
      else file_matches re path (Suc n) ls)"
proof -
  have "filter (\<lambda>(i, l). re l) (enumerate (Suc 0) ls) =
      map (\<lambda>(i, l). (Suc i, l)) (filter (\<lambda>(i, l). re l) (enumerate 0 ls))"
  proof -
    have "enumerate (Suc 0) ls = map (\<lambda>(i, l). (Suc i, l)) (enumerate 0 ls)"
      by (rule nth_equalityI) (simp_all add: nth_enumerate_eq)
    then show ?thesis by (simp add: filter_map comp_def case_prod_unfold)
  qed
  then show "file_matches re path n (l # ls) =
     (if re l then match_line path (Suc n) l # file_matches re path (Suc n) ls
      else file_matches re path (Suc n) ls)"
    by (simp add: file_matches_def comp_def case_prod_unfold)
qed (simp add: file_matches_def)

lemma grep_lines_emit:
  "\<forall>i. gc_ctx c i = None \<Longrightarrow>
     uncounted (grep_lines c path n s ls) =
       emit c (s\<lparr>g_checks := 0\<rparr>) (file_matches (gc_re c) path n ls)"
proof (induction ls arbitrary: n s)
  case Nil
  then show ?case by (simp add: uncounted_def)
next
  case (Cons l ls)
  then show ?case by (simp add: Let_def full_def) (simp add: uncounted_def)
qed

lemma scan_file_emit:
  "\<forall>i. gc_ctx c i = None \<Longrightarrow>
     uncounted (scan_file c s path) =
       emit c (s\<lparr>g_checks := 0\<rparr>)
         (case gc_open c path of Inl e \<Rightarrow> []
          | Inr f \<Rightarrow> file_matches (gc_re c) path 0 (fst (scan_lines scan_line_cap (f_data f))))"
  by (cases "gc_open c path") (simp_all add: scan_file_def grep_lines_emit, simp add: uncounted_def)

lemma grep_walk_emit:
  "\<forall>i. gc_ctx c i = None \<Longrightarrow>
     uncounted (grep_walk c s ws) = emit c (s\<lparr>g_checks := 0\<rparr>) (walk_matches scanned_lines (gc_re c) (gc_open c) ws)"
proof (induction ws arbitrary: s)
  case Nil
  then show ?case by (simp add: uncounted_def)
next
  case (Cons w ws)
  show ?case
  proof (cases "w_err w \<or> w_dir w \<or> \<not> w_regular w")
    case True
    then show ?thesis using Cons by auto
  next
    case False
    let ?s = "s\<lparr>g_checks := Suc (g_checks s)\<rparr>"
    obtain s' e where r: "scan_file c ?s (w_path w) = (s', e)" by force
    have "uncounted (s', e) = emit c (s\<lparr>g_checks := 0\<rparr>)
        (case gc_open c (w_path w) of Inl e \<Rightarrow> []
         | Inr f \<Rightarrow> file_matches (gc_re c) (w_path w) 0 (fst (scan_lines scan_line_cap (f_data f))))"
      using scan_file_emit [OF Cons.prems, of ?s "w_path w"] r by simp
    then show ?thesis using False r Cons
      by (cases e) (auto simp: emit_append uncounted_def scanned_lines_def dest: sym split: sum.splits)
  qed
qed

text \<open>What is written is a prefix of the matches, cut only by a limit.\<close>

lemma emit_prefix:
  "emit c s ms = (s', e) \<Longrightarrow>
     \<exists>k \<le> length ms. g_text s' = g_text s @ concat (take k ms) \<and> g_matches s' = g_matches s + k \<and>
       (k < length ms \<longrightarrow> full c s' \<and> g_truncated s' \<and> e = StopScan) \<and>
       (k = length ms \<longrightarrow> g_truncated s' = g_truncated s \<and> e = Continue)"
proof (induction c s ms rule: emit.induct)
  case (2 c s m ms)
  show ?case
  proof (cases "full c s")
    case True
    then show ?thesis using "2.prems" by (intro exI [of _ 0]) (auto simp: full_def)
  next
    case False
    with "2" obtain k where "k \<le> length ms" "g_text s' = g_text s @ m @ concat (take k ms)"
      "g_matches s' = Suc (g_matches s) + k"
      "k < length ms \<longrightarrow> full c s' \<and> g_truncated s' \<and> e = StopScan"
      "k = length ms \<longrightarrow> g_truncated s' = g_truncated s \<and> e = Continue" by auto
    then show ?thesis by (intro exI [of _ "Suc k"]) auto
  qed
qed simp

text \<open>What the scanner delivers are the first lines of a file, so what is found is part of all there is to find.\<close>

lemma file_matches_prefix: "prefix ls ls' \<Longrightarrow> prefix (file_matches re path n ls) (file_matches re path n ls')"
proof (induction ls arbitrary: ls' n)
  case (Cons l ls)
  then obtain r where "ls' = l # r" "prefix ls r" by (cases ls') auto
  then show ?case using Cons.IH by simp
qed simp

lemma walk_matches_scanned:
  "subseq (walk_matches scanned_lines re opn ws) (walk_matches lines_of re opn ws)"
proof (induction ws)
  case (Cons w ws)
  have "subseq (file_matches re (w_path w) 0 (scanned_lines (f_data f))) (file_matches re (w_path w) 0 (lines_of (f_data f)))"
    for f :: "'a go_file"
    unfolding scanned_lines_def by (rule prefix_imp_subseq [OF file_matches_prefix [OF scan_lines_prefix]])
  then show ?case using Cons by (auto simp: list_emb_append_mono split: sum.split)
qed simp

lemma walk_matches_short:
  "short_lines opn ws \<Longrightarrow> walk_matches scanned_lines re opn ws = walk_matches lines_of re opn ws"
proof (induction ws)
  case (Cons w ws)
  then have "short_lines opn ws" by (simp add: short_lines_def)
  then show ?case
    using Cons by (auto simp: short_lines_def scanned_lines_def scan_lines_short split: sum.split)
qed simp

section \<open>Properties\<close>

text \<open>
  C20: What a search prints is a prefix, cut between lines, of the matching lines the scanner delivers from the
  regular files it visits, in the order of the walk and of the lines, each with its path and line number; it is
  all of those unless the number of matches or the size limit was reached, and then it is marked truncated. If no
  line of these files is a mebibyte or longer, they are all the matching lines there are; else they are
  some of them, in order, and nothing marks it.
\<close>

theorem grep_prints_prefix_of_matches:
  assumes "decode_args unmarshal \<lparr>ga_path = [], ga_pattern = [], ga_ignore_case = False, ga_max_matches = 0\<rparr> raw = Inr args"
    and "ga_pattern args \<noteq> []"
    and "compile (if ga_ignore_case args then ''(?i)'' @ ga_pattern args else ga_pattern args) = Inr re"
    and "resolve_path os (env_jail env) (ga_path args) = Inr target" "os_stat os target = Inr Directory"
    and "\<forall>i. ctx i = None"
  shows "\<exists>k. let found = walk_matches scanned_lines re opn (walk target); text = concat (take k found);
        all_matches = walk_matches lines_of re opn (walk target);
        limit = max_output (env_limits env); most = nat (clamp_limit (ga_max_matches args) 1000 100000)
      in subseq found all_matches \<and> (short_lines opn (walk target) \<longrightarrow> found = all_matches) \<and>
         k \<le> length found \<and> k \<le> most \<and>
         (k < length found \<longrightarrow> k = most \<or> (0 \<le> limit \<and> limit \<le> int (length text))) \<and>
         grep_remote unmarshal compile os walk opn ctx env raw =
           Inr \<lparr>out_text = fst (cap_output text limit), truncated = (k < length found \<or> snd (cap_output text limit))\<rparr>"
proof -
  define c where "c = \<lparr>gc_ctx = ctx, gc_re = re, gc_max = nat (clamp_limit (ga_max_matches args) 1000 100000),
      gc_out = max_output (env_limits env), gc_open = opn\<rparr>"
  define s where "s = \<lparr>g_text = [], g_matches = 0, g_truncated = False, g_checks = 0\<rparr>"
  obtain s' e where r: "grep_walk c s (walk target) = (s', e)" by force
  have "uncounted (s', e) = emit c s (walk_matches scanned_lines re opn (walk target))"
    using grep_walk_emit [of c s "walk target"] assms(6) r by (simp add: c_def s_def)
  then have em: "emit c s (walk_matches scanned_lines re opn (walk target)) = (s'\<lparr>g_checks := 0\<rparr>, e)"
    by (simp add: uncounted_def)
  from emit_prefix [OF em] obtain k where k: "k \<le> length (walk_matches scanned_lines re opn (walk target))"
    "g_text s' = concat (take k (walk_matches scanned_lines re opn (walk target)))" "g_matches s' = k"
    "k < length (walk_matches scanned_lines re opn (walk target)) \<longrightarrow> full c (s'\<lparr>g_checks := 0\<rparr>) \<and> g_truncated s' \<and> e = StopScan"
    "k = length (walk_matches scanned_lines re opn (walk target)) \<longrightarrow> \<not> g_truncated s' \<and> e = Continue"
    by (auto simp: s_def)
  have "g_matches (fst (emit c s ms)) \<le> max (g_matches s) (gc_max c)" for ms
    by (induction c s ms rule: emit.induct) (auto simp: full_def)
  from this [of "walk_matches scanned_lines re opn (walk target)"] have "k \<le> gc_max c" using em k(3) by (simp add: s_def)
  moreover have "g_truncated s' \<longleftrightarrow> k < length (walk_matches scanned_lines re opn (walk target))"
    using k(1,4,5) by auto
  moreover have "e = Continue \<or> e = StopScan" using k(1,4,5) by fastforce
  ultimately show ?thesis using k assms r
      walk_matches_scanned [of re opn "walk target"] walk_matches_short [of opn "walk target" re]
    by (intro exI [of _ k])
      (auto simp: grep_remote_def grep_default_matches_def grep_max_matches_def Let_def split_beta
        c_def s_def full_def)
qed

text \<open>
  C31: A file with a line of a mebibyte or more is not searched from that line on, wherever the line is: the
  result is that of the file cut off before it, with no error and no sign of truncation, although the scanner
  stopped with an error.
\<close>

theorem grep_long_line_hides_rest:
  assumes "length l \<ge> scan_line_cap" "newline \<notin> set l" "gc_open c path = Inr f"
    and "f_data f = before @ l @ after" "before = [] \<or> last before = newline" "after = [] \<or> hd after = newline"
  shows "scan_file c s path = scan_file (c\<lparr>gc_open := (gc_open c)(path := Inr (f\<lparr>f_data := before\<rparr>))\<rparr>) s path"
proof -
  have "takeWhile (\<lambda>c. c \<noteq> newline) (l @ after) = l"
    using assms(2,6) take_line [OF assms(2), of "tl after"] take_last_line [OF assms(2)] by (cases after) auto
  moreover have "l \<noteq> []" using assms(1) by (auto simp: scan_line_cap_def)
  ultimately have "fst (scan_lines scan_line_cap (f_data f)) = fst (scan_lines scan_line_cap before)"
    using scan_lines_cut [of scan_line_cap "l @ after" before] assms(1,4,5) by simp
  then show ?thesis using assms(3) by (simp add: scan_file_def grep_lines_opener)
qed

definition walk_sample :: "walk_entry list" where
  "walk_sample =
     [\<lparr>w_path = ''/srv'', w_err = False, w_dir = True, w_regular = False\<rparr>,
      \<lparr>w_path = ''/srv/f'', w_err = False, w_dir = False, w_regular = True\<rparr>]"

definition one_char :: "string \<Rightarrow> bool" where
  "one_char l \<longleftrightarrow> length l = 1"

theorem grep_prints_prefix_of_matches_witness:
  "grep_remote (\<lambda>_. Inr \<lparr>ga_path = ''/srv'', ga_pattern = ''.'', ga_ignore_case = False, ga_max_matches = 1\<rparr>)
     (\<lambda>_. Inr one_char) (file_os\<lparr>os_stat := (\<lambda>_. Inr Directory)\<rparr>) (\<lambda>_. walk_sample)
     (\<lambda>_. Inr sample_file) (\<lambda>_. None) file_env ''x'' =
   Inr \<lparr>out_text = ''/srv/f:2: c'' @ [newline], truncated = True\<rparr>" (is "?r = _")
proof -
  have sc: "scan_lines scan_line_cap (f_data sample_file) = ([''ab'', ''c'', ''d''], False)"
  proof -
    have "raw_lines (f_data sample_file) = [''ab'', ''c'', ''d'']" by code_simp
    with scan_lines_short [of scan_line_cap "f_data sample_file"] show ?thesis
      by (simp add: lines_of_def drop_cr_def scan_line_cap_def)
  qed
  have "file_matches one_char ''/srv/f'' 0 [''ab'', ''c'', ''d''] =
      [''/srv/f:2: c'' @ [newline], ''/srv/f:3: d'' @ [newline]]" by code_simp
  then have found: "walk_matches scanned_lines one_char (\<lambda>_. Inr sample_file) walk_sample =
      [''/srv/f:2: c'' @ [newline], ''/srv/f:3: d'' @ [newline]]"
    by (simp add: walk_sample_def scanned_lines_def sc)
  have r: "resolve_path (file_os\<lparr>os_stat := (\<lambda>_. Inr Directory)\<rparr>) (env_jail file_env) ''/srv'' = Inr ''/srv''"
    by code_simp
  have lim: "max_output (env_limits file_env) = 100" by (simp add: file_env_def)
  have most: "nat (clamp_limit 1 1000 100000) = 1" by (simp add: clamp_limit_def)
  from grep_prints_prefix_of_matches [where raw = "''x''" and ctx = "\<lambda>_. None" and env = file_env
      and unmarshal = "\<lambda>_. Inr \<lparr>ga_path = ''/srv'', ga_pattern = ''.'', ga_ignore_case = False, ga_max_matches = 1\<rparr>"
      and compile = "\<lambda>_. Inr one_char" and os = "file_os\<lparr>os_stat := (\<lambda>_. Inr Directory)\<rparr>"
      and opn = "\<lambda>_. Inr sample_file" and walk = "\<lambda>_. walk_sample" and target = "''/srv''"
      and args = "\<lparr>ga_path = ''/srv'', ga_pattern = ''.'', ga_ignore_case = False, ga_max_matches = 1\<rparr>"
      and re = one_char] r
  have "\<exists>k. k \<le> 2 \<and> k \<le> 1 \<and>
     (k < 2 \<longrightarrow> k = 1 \<or> ((0::int) \<le> 100 \<and> 100 \<le> int (length (concat (take k [''/srv/f:2: c'' @ [newline], ''/srv/f:3: d'' @ [newline]]))))) \<and>
     ?r = Inr \<lparr>out_text = fst (cap_output (concat (take k [''/srv/f:2: c'' @ [newline], ''/srv/f:3: d'' @ [newline]])) 100),
       truncated = (k < 2 \<or> snd (cap_output (concat (take k [''/srv/f:2: c'' @ [newline], ''/srv/f:3: d'' @ [newline]])) 100))\<rparr>"
    by (simp add: found lim most Let_def decode_args_def numeral_2_eq_2)
  then obtain k where k: "k \<le> 1" "k < 2 \<longrightarrow> k = 1 \<or> (0::int) \<le> 100 \<and> 100 \<le> int (length (concat (take k [''/srv/f:2: c'' @ [newline], ''/srv/f:3: d'' @ [newline]])))"
    "?r = Inr \<lparr>out_text = fst (cap_output (concat (take k [''/srv/f:2: c'' @ [newline], ''/srv/f:3: d'' @ [newline]])) 100),
       truncated = (k < 2 \<or> snd (cap_output (concat (take k [''/srv/f:2: c'' @ [newline], ''/srv/f:3: d'' @ [newline]])) 100))\<rparr>"
    by blast
  from k(1,2) have "k = 1" by (cases "k = 0") auto
  with k(3) show ?thesis by (simp add: cap_output_def)
qed

definition long_file :: "unit go_file" where
  "long_file = \<lparr>f_size = None, f_seek = (\<lambda>_. None),
     f_data = ''ab'' @ [newline] @ replicate scan_line_cap CHR ''x'' @ [newline] @ ''needle'', f_end = None\<rparr>"

theorem grep_long_line_hides_rest_witness:
  "let c = \<lparr>gc_ctx = (\<lambda>_. None), gc_re = (\<lambda>l. True), gc_max = 10, gc_out = -1, gc_open = (\<lambda>_. Inr long_file)\<rparr>;
       s = \<lparr>g_text = [], g_matches = 0, g_truncated = False, g_checks = 0\<rparr>
   in scan_file c s ''f'' = (s\<lparr>g_text := ''f:1: ab'' @ [newline], g_matches := 1, g_checks := 1\<rparr>, Continue)"
proof -
  let ?c = "\<lparr>gc_ctx = (\<lambda>_. None), gc_re = (\<lambda>l. True), gc_max = 10, gc_out = -1, gc_open = (\<lambda>_. Inr long_file)\<rparr>"
  have short: "scan_lines scan_line_cap (''ab'' @ [newline]) = ([''ab''], False)"
  proof -
    have "raw_lines (''ab'' @ [newline]) = [''ab'']" by code_simp
    with scan_lines_short [of scan_line_cap "''ab'' @ [newline]"] show ?thesis
      by (simp add: lines_of_def drop_cr_def scan_line_cap_def)
  qed
  have d: "digits (Suc 0) = ''1''" by code_simp
  show ?thesis
    unfolding Let_def
    by (subst grep_long_line_hides_rest [of "replicate scan_line_cap CHR ''x''" _ _ long_file "''ab'' @ [newline]"
          "[newline] @ ''needle''"])
      (simp_all add: scan_file_def short [simplified] match_line_def itoa_def d, simp_all add: long_file_def)
qed

end
