(* ===== verification/Go_Strings.thy ===== *)
theory Go_Strings
  imports Prelude "HOL-Library.Sublist"
begin

text \<open>
  Functions of Go's \<open>strings\<close> package over byte strings that several components call:
  \<open>TrimSpace\<close>, \<open>Cut\<close>, \<open>IndexByte\<close>, \<open>LastIndexByte\<close>, \<open>ReplaceAll\<close> of one byte by another,
  \<open>Join\<close>, \<open>Fields\<close>. White space is what \<open>unicode.IsSpace\<close> accepts, in its UTF-8 encoding.
\<close>

section \<open>Trimming\<close>

definition space_runes :: "string list" where
  "space_runes =
     map (\<lambda>c. [c]) [CHR '' '', CHR 0x09, CHR 0x0A, CHR 0x0B, CHR 0x0C, CHR 0x0D] @
     [[CHR 0xC2, CHR 0x85], [CHR 0xC2, CHR 0xA0], [CHR 0xE1, CHR 0x9A, CHR 0x80],
      [CHR 0xE2, CHR 0x80, CHR 0x80], [CHR 0xE2, CHR 0x80, CHR 0x81], [CHR 0xE2, CHR 0x80, CHR 0x82],
      [CHR 0xE2, CHR 0x80, CHR 0x83], [CHR 0xE2, CHR 0x80, CHR 0x84], [CHR 0xE2, CHR 0x80, CHR 0x85],
      [CHR 0xE2, CHR 0x80, CHR 0x86], [CHR 0xE2, CHR 0x80, CHR 0x87], [CHR 0xE2, CHR 0x80, CHR 0x88],
      [CHR 0xE2, CHR 0x80, CHR 0x89], [CHR 0xE2, CHR 0x80, CHR 0x8A], [CHR 0xE2, CHR 0x80, CHR 0xA8],
      [CHR 0xE2, CHR 0x80, CHR 0xA9], [CHR 0xE2, CHR 0x80, CHR 0xAF], [CHR 0xE2, CHR 0x81, CHR 0x9F],
      [CHR 0xE3, CHR 0x80, CHR 0x80]]"

text \<open>Removing prefixes out of a list of nonempty strings, as long as there is one.\<close>

definition some_prefix :: "string list \<Rightarrow> string \<Rightarrow> string option" where
  "some_prefix ps s = find (\<lambda>p. p \<noteq> [] \<and> has_prefix s p) ps"

function strip_prefixes :: "string list \<Rightarrow> string \<Rightarrow> string" where
  "strip_prefixes ps s =
     (case some_prefix ps s of None \<Rightarrow> s | Some p \<Rightarrow> strip_prefixes ps (drop (length p) s))"
  by pat_completeness auto
termination
  by (relation "measure (length \<circ> snd)")
    (auto simp: some_prefix_def find_Some_iff has_prefix_iff)

declare strip_prefixes.simps [simp del]

definition trim_space :: "string \<Rightarrow> string" where
  "trim_space s = rev (strip_prefixes (map rev space_runes) (rev (strip_prefixes space_runes s)))"

lemma strip_prefixes_suffix: "suffix (strip_prefixes ps s) s"
proof (induction ps s rule: strip_prefixes.induct)
  case (1 ps s)
  show ?case
  proof (cases "some_prefix ps s")
    case None
    then show ?thesis by (subst strip_prefixes.simps) simp
  next
    case (Some p)
    have "suffix (drop (length p) s) s" by (rule suffix_drop)
    with "1.IH" [OF Some] show ?thesis
      by (subst strip_prefixes.simps) (simp add: Some suffix_order.trans)
  qed
qed

lemma strip_prefixes_none: "some_prefix ps s = None \<Longrightarrow> strip_prefixes ps s = s"
  by (subst strip_prefixes.simps) simp

lemma strip_prefixes_stops: "some_prefix ps (strip_prefixes ps s) = None"
proof (induction ps s rule: strip_prefixes.induct)
  case (1 ps s)
  show ?case
  proof (cases "some_prefix ps s")
    case None
    then show ?thesis by (simp add: strip_prefixes_none)
  next
    case (Some p)
    with "1.IH" [OF Some] show ?thesis by (subst strip_prefixes.simps) simp
  qed
qed

lemma trim_space_in: "\<exists>a b. s = a @ trim_space s @ b"
proof -
  obtain a where a: "s = a @ strip_prefixes space_runes s"
    using strip_prefixes_suffix [of space_runes s] by (auto simp: suffix_def)
  obtain b where b: "rev (strip_prefixes space_runes s) =
      b @ strip_prefixes (map rev space_runes) (rev (strip_prefixes space_runes s))"
    using strip_prefixes_suffix [of "map rev space_runes" "rev (strip_prefixes space_runes s)"]
    by (auto simp: suffix_def)
  from arg_cong [OF b, of rev] have "strip_prefixes space_runes s = trim_space s @ rev b"
    by (simp add: trim_space_def)
  with a show ?thesis by metis
qed

section \<open>Searching and replacing\<close>

definition index_byte :: "string \<Rightarrow> char \<Rightarrow> nat option" where
  "index_byte s c = (let n = length (takeWhile (\<lambda>d. d \<noteq> c) s) in if n < length s then Some n else None)"

definition last_index_byte :: "string \<Rightarrow> char \<Rightarrow> nat option" where
  "last_index_byte s c = map_option (\<lambda>n. length s - 1 - n) (index_byte (rev s) c)"

text \<open>\<open>strings.Cut(s, sep)\<close> for a one-byte separator.\<close>

definition cut_at :: "string \<Rightarrow> char \<Rightarrow> (string \<times> string) option" where
  "cut_at s c = map_option (\<lambda>n. (take n s, drop (Suc n) s)) (index_byte s c)"

definition replace_byte :: "char \<Rightarrow> char \<Rightarrow> string \<Rightarrow> string" where
  "replace_byte a b s = map (\<lambda>c. if c = a then b else c) s"

fun join_with :: "string \<Rightarrow> string list \<Rightarrow> string" where
  "join_with sep [] = []"
| "join_with sep [s] = s"
| "join_with sep (s # ss) = s @ sep @ join_with sep ss"

lemma takeWhile_first: "c \<notin> set a \<Longrightarrow> takeWhile (\<lambda>d. d \<noteq> c) (a @ c # b) = a"
  by (induction a) auto

lemma index_byte_first [simp]: "c \<notin> set a \<Longrightarrow> index_byte (a @ c # b) c = Some (length a)"
  by (simp add: index_byte_def takeWhile_first)

lemma index_byte_absent [simp]: "c \<notin> set s \<Longrightarrow> index_byte s c = None"
proof -
  assume "c \<notin> set s"
  then have "length (takeWhile (\<lambda>d. d \<noteq> c) s) = length s" by (induction s) auto
  then show ?thesis unfolding index_byte_def Let_def by simp
qed

lemma index_byte_cases:
  obtains "c \<notin> set s" "index_byte s c = None"
  | a b where "s = a @ c # b" "c \<notin> set a" "index_byte s c = Some (length a)"
proof (cases "c \<in> set s")
  case True
  then obtain a b where "s = a @ c # b" "c \<notin> set a" by (meson split_list_first)
  then show thesis using that(2) by simp
qed (use that(1) in simp)

lemma index_byte_None: "index_byte s c = None \<longleftrightarrow> c \<notin> set s"
  by (rule index_byte_cases [of c s]) auto

lemma cut_at_first: "c \<notin> set a \<Longrightarrow> cut_at (a @ c # b) c = Some (a, b)"
  by (simp add: cut_at_def)

lemma cut_at_SomeD: "cut_at s c = Some (a, b) \<Longrightarrow> s = a @ c # b \<and> c \<notin> set a"
  by (rule index_byte_cases [of c s]) (auto simp: cut_at_def)

lemma replace_byte_notin: "a \<noteq> b \<Longrightarrow> a \<notin> set (replace_byte a b s)"
  by (auto simp: replace_byte_def)

lemma length_replace_byte [simp]: "length (replace_byte a b s) = length s"
  by (simp add: replace_byte_def)

section \<open>Fields\<close>

text \<open>\<open>strings.Fields\<close>, with the field read so far.\<close>

definition flush :: "string \<Rightarrow> string list" where
  "flush cur = (if cur = [] then [] else [cur])"

function fields_from :: "string \<Rightarrow> string \<Rightarrow> string list" where
  "fields_from cur s =
     (if s = [] then flush cur
      else case some_prefix space_runes s of
        Some p \<Rightarrow> flush cur @ fields_from [] (drop (length p) s)
      | None \<Rightarrow> fields_from (cur @ [hd s]) (tl s))"
  by pat_completeness auto
termination
  by (relation "measure (length \<circ> snd)") (auto simp: some_prefix_def find_Some_iff has_prefix_iff)

declare fields_from.simps [simp del]

definition go_fields :: "string \<Rightarrow> string list" where
  "go_fields s = fields_from [] s"

text \<open>A word of printable ASCII characters is one field.\<close>

definition plain_word :: "string \<Rightarrow> bool" where
  "plain_word w \<longleftrightarrow> w \<noteq> [] \<and> list_all (\<lambda>c. 32 < (of_char c :: nat) \<and> (of_char c :: nat) < 127) w"

lemma space_runes_heads:
  "list_all (\<lambda>p. p \<noteq> [] \<and> ((of_char (hd p) :: nat) \<le> 32 \<or> 127 \<le> (of_char (hd p) :: nat))) space_runes"
  by code_simp

lemma some_prefix_plain:
  assumes "32 < (of_char c :: nat)" "(of_char c :: nat) < 127"
  shows "some_prefix space_runes (c # s) = None"
proof -
  have "\<not> has_prefix (c # s) p" if "p \<in> set space_runes" for p
  proof -
    from space_runes_heads that have "p \<noteq> []" "hd p \<noteq> c"
      using assms by (auto simp: list_all_iff)
    then show ?thesis by (cases p) (auto simp: has_prefix_iff)
  qed
  then show ?thesis by (auto simp: some_prefix_def find_None_iff)
qed

lemma some_prefix_blank: "some_prefix space_runes (CHR '' '' # s) = Some '' ''"
  by (simp add: some_prefix_def space_runes_def has_prefix_def)

lemma fields_from_plain:
  "list_all (\<lambda>c. 32 < (of_char c :: nat) \<and> (of_char c :: nat) < 127) w \<Longrightarrow>
    fields_from cur (w @ s) = fields_from (cur @ w) s"
proof (induction w arbitrary: cur)
  case (Cons c w)
  then have "fields_from cur (c # w @ s) = fields_from (cur @ [c]) (w @ s)"
    by (subst fields_from.simps) (simp add: some_prefix_plain)
  with Cons show ?case by simp
qed simp

lemma fields_blank [simp]: "go_fields (CHR '' '' # s) = go_fields s"
  unfolding go_fields_def by (subst fields_from.simps) (simp add: some_prefix_blank flush_def)

lemma fields_Nil [simp]: "go_fields [] = []"
  unfolding go_fields_def by (subst fields_from.simps) (simp add: flush_def)

lemma fields_word: "plain_word w \<Longrightarrow> go_fields (w @ CHR '' '' # s) = w # go_fields s"
  unfolding go_fields_def plain_word_def
  by (simp add: fields_from_plain, subst fields_from.simps) (simp add: some_prefix_blank flush_def)

lemma fields_last_word: "plain_word w \<Longrightarrow> go_fields w = [w]"
  using fields_from_plain [of w "[]" "[]"] unfolding go_fields_def plain_word_def
  by (simp, subst fields_from.simps) (simp add: flush_def)

end
