(* ===== verification/Tool_Journal.thy ===== *)
theory Tool_Journal
  imports Tool_Env Go_Strings
begin

text \<open>
  The journal tool (\<open>internal/tools/tool_journal.go\<close>): the argument vector it builds from a
  validated unit name and a clamped count, and the bounded collection of the child's output. The
  child process is a parameter: from the path and the argument vector it gives the writes it makes
  to its two streams and the error \<open>Run\<close> returns, and \<open>ctx\<close> is the context's error after it.
\<close>

record journal_args =
  jn_unit :: string
  jn_lines :: int

record 'e child =
  ch_stdout :: "string list"
  ch_stderr :: "string list"
  ch_err :: "'e option"

definition journal_default_lines :: int where "journal_default_lines = 100"
definition journal_max_lines :: int where "journal_max_lines = 10000"
definition journal_stderr_cap :: int where "journal_stderr_cap = 64 * 2 ^ 10"
definition utf_max :: int where "utf_max = 4"

text \<open>\<open>unitPattern\<close>: one or more letters, digits, and the four marks.\<close>

definition unit_char :: "char \<Rightarrow> bool" where
  "unit_char c \<longleftrightarrow> (CHR ''a'' \<le> c \<and> c \<le> CHR ''z'') \<or> (CHR ''A'' \<le> c \<and> c \<le> CHR ''Z'') \<or> is_digit c \<or>
     c \<in> set ''@._-''"

definition valid_unit :: "string \<Rightarrow> bool" where
  "valid_unit u \<longleftrightarrow> u \<noteq> [] \<and> list_all unit_char u"

text \<open>The two buffers after the child has written all it writes.\<close>

definition child_buffers :: "int \<Rightarrow> 'e child \<Rightarrow> cap_writer \<times> cap_writer" where
  "child_buffers max_out ch =
     (let stdout_cap = (if 0 \<le> max_out then max_out + utf_max else max_out)
      in (cap_writes (new_cap_writer stdout_cap) (ch_stdout ch),
          cap_writes (new_cap_writer journal_stderr_cap) (ch_stderr ch)))"

definition run_journalctl ::
  "(string \<Rightarrow> string list \<Rightarrow> 'e child) \<Rightarrow> 'e option \<Rightarrow> string \<Rightarrow> string list \<Rightarrow> int \<Rightarrow>
   'e tool_error + string \<times> bool" where
  "run_journalctl run ctx path argv max_out =
     (let ch = run path argv;
          (stdout, stderr) = child_buffers max_out ch
      in case ch_err ch of
           Some err \<Rightarrow>
             (case ctx of
                Some e \<Rightarrow> Inl (ContextDone e)
              | None \<Rightarrow>
                  let msg = trim_space (cw_buf stderr)
                  in if msg \<noteq> [] then Inl (ChildFailed msg) else Inl (ChildError err))
         | None \<Rightarrow> Inr (cw_buf stdout, cw_dropped stdout))"

definition journal_argv :: "int \<Rightarrow> string \<Rightarrow> 'e tool_error + string list" where
  "journal_argv lines unit =
     (let argv = [''--no-pager'', ''-n'', itoa lines, ''-o'', ''short-iso'']
      in if unit \<noteq> [] then
           if \<not> valid_unit unit then Inl BadUnitName else Inr (argv @ [''-u'', unit])
         else Inr argv)"

definition journal_remote ::
  "(string \<Rightarrow> 'e + journal_args) \<Rightarrow> (string \<Rightarrow> string list \<Rightarrow> 'e child) \<Rightarrow> 'e option \<Rightarrow> env \<Rightarrow> string \<Rightarrow>
   'e tool_error + tool_result" where
  "journal_remote unmarshal run ctx env raw =
     bind_res (decode_args unmarshal \<lparr>jn_unit = [], jn_lines = 0\<rparr> raw) (\<lambda>args.
     if env_journalctl env = [] then Inl NoJournalctl
     else let lines = clamp_limit (jn_lines args) journal_default_lines journal_max_lines
     in bind_res (journal_argv lines (jn_unit args)) (\<lambda>argv.
        bind_res (run_journalctl run ctx (env_journalctl env) argv (max_output (env_limits env)))
          (\<lambda>(out, dropped).
            let (capped, trunc) = cap_output out (max_output (env_limits env))
            in Inr \<lparr>out_text = capped, truncated = dropped \<or> trunc\<rparr>)))"

section \<open>Bounded collection\<close>

lemma cap_writes_new:
  "cw_buf (cap_writes (new_cap_writer c) ps) = (if c < 0 then concat ps else take (nat c) (concat ps))"
  "cw_dropped (cap_writes (new_cap_writer c) ps) \<longleftrightarrow> 0 \<le> c \<and> c < int (length (concat ps))"
proof -
  have "holds c [] (new_cap_writer c)" by (simp add: holds_def new_cap_writer_def)
  from cap_writes_holds [OF this, of ps]
  show "cw_buf (cap_writes (new_cap_writer c) ps) = (if c < 0 then concat ps else take (nat c) (concat ps))"
    "cw_dropped (cap_writes (new_cap_writer c) ps) \<longleftrightarrow> 0 \<le> c \<and> c < int (length (concat ps))"
    by (auto simp: holds_def)
qed

lemma cap_writes_bounded:
  "0 \<le> c \<Longrightarrow> int (length (cw_buf (cap_writes (new_cap_writer c) ps))) \<le> c"
  by (simp add: cap_writes_new)

lemma child_buffers_bounded:
  "0 \<le> m \<Longrightarrow> int (length (cw_buf (fst (child_buffers m ch)))) \<le> m + 4"
  "length (cw_buf (snd (child_buffers m ch))) \<le> 65536"
  using cap_writes_bounded [of "m + utf_max" "ch_stdout ch"] cap_writes_bounded [of journal_stderr_cap "ch_stderr ch"]
  by (simp_all add: child_buffers_def utf_max_def journal_stderr_cap_def)

lemma back_up_take: "n < m \<Longrightarrow> back_up (take m s) n = back_up s n"
  by (induction n) auto

lemma cap_output_take:
  assumes "0 \<le> m"
  shows "fst (cap_output (take (nat (m + utf_max)) s) m) = fst (cap_output s m)"
    and "int (length (take (nat (m + utf_max)) s)) \<le> m \<longleftrightarrow> int (length s) \<le> m"
proof -
  have n: "nat (m + utf_max) = nat m + 4" using assms by (simp add: utf_max_def nat_add_distrib)
  show le: "int (length (take (nat (m + utf_max)) s)) \<le> m \<longleftrightarrow> int (length s) \<le> m"
    using assms by (auto simp: n)
  have b: "back_up s (nat m) \<le> nat m" by (rule back_up_le)
  show "fst (cap_output (take (nat (m + utf_max)) s) m) = fst (cap_output s m)"
  proof (cases "int (length s) \<le> m")
    case True
    then show ?thesis using le assms by (simp add: cap_output_def n)
  next
    case False
    then have "\<not> int (length (take (nat (m + utf_max)) s)) \<le> m" using le by simp
    with False assms show ?thesis
      using b by (simp add: cap_output_def n back_up_take min_def)
  qed
qed

section \<open>Properties\<close>

text \<open>
  C21: Collecting the child's output in a bounded buffer loses nothing the client would have seen:
  when the child succeeds, the result is the whole output capped, as if everything had been kept,
  and it is marked truncated exactly when the output is longer than the limit. What is kept meanwhile is, with a
  limit, at most the limit and four bytes of the standard output, and always at most 64 KiB of the
  standard error, whatever the child writes. The argument vector is fixed but for the clamped count and a
  unit name made of the allowed characters.
\<close>

theorem journal_bounded_collection:
  fixes run :: "string \<Rightarrow> string list \<Rightarrow> 'e child"
  assumes "journal_remote unmarshal run ctx env raw = Inr r"
    and "decode_args unmarshal \<lparr>jn_unit = [], jn_lines = 0\<rparr> raw = Inr args"
  shows "let argv = [''--no-pager'', ''-n'', itoa (clamp_limit (jn_lines args) 100 10000), ''-o'', ''short-iso''] @
          (if jn_unit args = [] then [] else [''-u'', jn_unit args]);
        whole = concat (ch_stdout (run (env_journalctl env) argv)); m = max_output (env_limits env)
      in r = \<lparr>out_text = fst (cap_output whole (max_output (env_limits env))),
              truncated = snd (cap_output whole (max_output (env_limits env)))\<rparr> \<and>
         (\<exists>dropped. run_journalctl run ctx (env_journalctl env) argv m =
            Inr (cw_buf (fst (child_buffers m (run (env_journalctl env) argv))), dropped)) \<and>
         (\<forall>ch :: 'e child. (0 \<le> m \<longrightarrow> int (length (cw_buf (fst (child_buffers m ch)))) \<le> m + 4) \<and>
            length (cw_buf (snd (child_buffers m ch))) \<le> 65536) \<and>
         (jn_unit args \<noteq> [] \<longrightarrow> list_all unit_char (jn_unit args))"
proof -
  let ?m = "max_output (env_limits env)"
  from assms obtain argv out dropped where
    argv: "journal_argv (clamp_limit (jn_lines args) 100 10000) (jn_unit args) = (Inr argv :: 'e tool_error + _)"
    and run: "run_journalctl run ctx (env_journalctl env) argv ?m = Inr (out, dropped)"
    and r: "r = \<lparr>out_text = fst (cap_output out ?m), truncated = dropped \<or> snd (cap_output out ?m)\<rparr>"
    by (auto simp: journal_remote_def res_simps journal_default_lines_def journal_max_lines_def Let_def
        split_beta split: if_splits)
  let ?whole = "concat (ch_stdout (run (env_journalctl env) argv))"
  have out: "out = (if ?m < 0 then ?whole else take (nat (?m + utf_max)) ?whole)"
    "dropped \<longleftrightarrow> 0 \<le> ?m \<and> ?m + utf_max < int (length ?whole)"
    using run by (auto simp: run_journalctl_def child_buffers_def Let_def cap_writes_new utf_max_def
        split: option.splits if_splits)
  have "out = cw_buf (fst (child_buffers ?m (run (env_journalctl env) argv)))"
    using run by (auto simp: run_journalctl_def Let_def split: option.splits prod.splits if_splits)
  then have kept: "\<exists>dropped. run_journalctl run ctx (env_journalctl env) argv ?m =
      Inr (cw_buf (fst (child_buffers ?m (run (env_journalctl env) argv))), dropped)"
    using run by blast
  have "r = \<lparr>out_text = fst (cap_output ?whole ?m), truncated = snd (cap_output ?whole ?m)\<rparr>"
  proof (cases "?m < 0")
    case True
    then show ?thesis using out r by simp
  next
    case False
    then have m: "0 \<le> ?m" by simp
    have snd: "snd (cap_output s ?m) \<longleftrightarrow> \<not> int (length s) \<le> ?m" for s
      using m by (simp add: cap_output_def)
    have "dropped \<longrightarrow> \<not> int (length ?whole) \<le> ?m" using out(2) by (simp add: utf_max_def)
    then show ?thesis using False out cap_output_take [OF m, of ?whole] r by (auto simp: snd)
  qed
  moreover have "argv = [''--no-pager'', ''-n'', itoa (clamp_limit (jn_lines args) 100 10000), ''-o'', ''short-iso''] @
          (if jn_unit args = [] then [] else [''-u'', jn_unit args])"
    "jn_unit args \<noteq> [] \<longrightarrow> list_all unit_char (jn_unit args)"
    using argv by (auto simp: journal_argv_def valid_unit_def Let_def split: if_splits)
  ultimately show ?thesis
    using kept child_buffers_bounded [of ?m] unfolding Let_def by (intro conjI allI impI) simp_all
qed

definition journal_env :: env where
  "journal_env = \<lparr>env_jail = \<lparr>roots = []\<rparr>, env_limits = \<lparr>max_output = 3, timeout = 0\<rparr>, env_journalctl = ''/j''\<rparr>"

theorem journal_bounded_collection_witness:
  "\<exists>r. journal_remote (\<lambda>_. Inr \<lparr>jn_unit = ''a.b'', jn_lines = 5\<rparr>)
      (\<lambda>_ _. \<lparr>ch_stdout = [''ab'', ''cdefgh''], ch_stderr = [], ch_err = (None :: unit option)\<rparr>) None journal_env ''x'' = Inr r \<and>
    out_text r = ''abc'' \<and> truncated r"
proof -
  let ?r = "journal_remote (\<lambda>_. Inr \<lparr>jn_unit = ''a.b'', jn_lines = 5\<rparr>)
      (\<lambda>_ _. \<lparr>ch_stdout = [''ab'', ''cdefgh''], ch_stderr = [], ch_err = (None :: unit option)\<rparr>) None journal_env ''x''"
  have v: "valid_unit ''a.b''" by code_simp
  then obtain r where r: "?r = Inr r"
    by (auto simp: journal_remote_def decode_args_def journal_env_def journal_argv_def run_journalctl_def
        Let_def split_beta)
  have c: "cap_output ''abcdefgh'' 3 = (''abc'', True)" by code_simp
  from journal_bounded_collection [OF r] have "out_text r = ''abc'' \<and> truncated r"
    by (simp add: decode_args_def journal_env_def Let_def c)
  with r show ?thesis by blast
qed

end
