(* ===== verification/Server.thy ===== *)
theory Server
  imports Tool_Env Go_Bufio
begin

text \<open>
  The server (\<open>internal/server/server.go\<close>) and the messages (\<open>internal/protocol/protocol.go\<close>).

  The accept loop and its goroutines are a step relation on the state the code shares: the place
  the loop is at, whether the context is cancelled and the listener closed, the back-off delay in
  nanoseconds, the tokens in the semaphore channel and the count of the wait group. A connection
  is a number; the sets say which ones have a handler running, a handler that has closed the
  connection and is about to release its slot, and one about to leave the wait group. \<open>seen\<close> and
  \<open>closed\<close> record what was accepted and closed. A goroutine is started in the step that takes its
  slot, since only the loop itself reads the wait group.

  A handler is a function from what the client sends to the list of its effects, in their order.
  The JSON codec, the rendering of a duration and the tool runner are parameters.
\<close>

section \<open>The accept loop\<close>

datatype phase = Accepting | Backoff | Acquiring nat | Waiting | Returned

record server_state =
  phase :: phase
  cancelled :: bool
  ln_closed :: bool
  delay :: int
  sem :: nat
  wg :: nat
  serving :: "nat set"
  releasing :: "nat set"
  finishing :: "nat set"
  seen :: "nat set"
  closed :: "nat set"

definition max_concurrent_conns :: nat where "max_concurrent_conns = 16"
definition accept_backoff_initial :: int where "accept_backoff_initial = 5 * 10 ^ 6"
definition accept_backoff_max :: int where "accept_backoff_max = 10 ^ 9"

definition next_delay :: "int \<Rightarrow> int" where
  "next_delay d =
     (let d = (if d = 0 then accept_backoff_initial else d * 2)
      in if d > accept_backoff_max then accept_backoff_max else d)"

definition init_state :: server_state where
  "init_state = \<lparr>phase = Accepting, cancelled = False, ln_closed = False, delay = 0, sem = 0, wg = 0,
     serving = {}, releasing = {}, finishing = {}, seen = {}, closed = {}\<rparr>"

inductive serve_step :: "nat \<Rightarrow> server_state \<Rightarrow> server_state \<Rightarrow> bool" for max_conns where
  cancel:
    "serve_step max_conns s (s\<lparr>cancelled := True\<rparr>)" if "\<not> cancelled s"
| close_listener:
    "serve_step max_conns s (s\<lparr>ln_closed := True\<rparr>)" if "cancelled s" "\<not> ln_closed s"
| accept:
    "serve_step max_conns s (s\<lparr>phase := Acquiring c, delay := 0, seen := insert c (seen s)\<rparr>)"
    if "phase s = Accepting" "\<not> ln_closed s" "c \<notin> seen s"
| accept_stop:
    "serve_step max_conns s (s\<lparr>phase := Waiting\<rparr>)" if "phase s = Accepting" "cancelled s"
| accept_retry:
    "serve_step max_conns s (s\<lparr>phase := Backoff, delay := next_delay (delay s)\<rparr>)"
    if "phase s = Accepting" "\<not> cancelled s"
| backoff_over:
    "serve_step max_conns s (s\<lparr>phase := Accepting\<rparr>)" if "phase s = Backoff"
| backoff_cancelled:
    "serve_step max_conns s (s\<lparr>phase := Waiting\<rparr>)" if "phase s = Backoff" "cancelled s"
| acquire:
    "serve_step max_conns s
       (s\<lparr>phase := Accepting, sem := Suc (sem s), wg := Suc (wg s), serving := insert c (serving s)\<rparr>)"
    if "phase s = Acquiring c" "sem s < max_conns"
| drop_conn:
    "serve_step max_conns s (s\<lparr>phase := Waiting, closed := insert c (closed s)\<rparr>)"
    if "phase s = Acquiring c" "cancelled s"
| handled:
    "serve_step max_conns s
       (s\<lparr>serving := serving s - {c}, releasing := insert c (releasing s), closed := insert c (closed s)\<rparr>)"
    if "c \<in> serving s"
| release_slot:
    "serve_step max_conns s
       (s\<lparr>releasing := releasing s - {c}, finishing := insert c (finishing s), sem := sem s - 1\<rparr>)"
    if "c \<in> releasing s"
| leave:
    "serve_step max_conns s (s\<lparr>finishing := finishing s - {c}, wg := wg s - 1\<rparr>)"
    if "c \<in> finishing s"
| all_done:
    "serve_step max_conns s (s\<lparr>phase := Returned\<rparr>)" if "phase s = Waiting" "wg s = 0"

inductive reachable :: "nat \<Rightarrow> server_state \<Rightarrow> bool" for max_conns where
  start: "reachable max_conns init_state"
| step: "reachable max_conns s \<Longrightarrow> serve_step max_conns s t \<Longrightarrow> reachable max_conns t"

section \<open>The invariant\<close>

definition held :: "phase \<Rightarrow> nat set" where
  "held p = (case p of Acquiring c \<Rightarrow> {c} | _ \<Rightarrow> {})"

definition delay_ok :: "int \<Rightarrow> bool" where
  "delay_ok d \<longleftrightarrow> d = 0 \<or> (accept_backoff_initial \<le> d \<and> d \<le> accept_backoff_max)"

definition server_inv :: "nat \<Rightarrow> server_state \<Rightarrow> bool" where
  "server_inv m s \<longleftrightarrow>
     finite (seen s) \<and> closed s \<subseteq> seen s \<and> held (phase s) \<subseteq> seen s \<and> held (phase s) \<inter> closed s = {} \<and>
     serving s \<subseteq> seen s - closed s - held (phase s) \<and>
     seen s = serving s \<union> held (phase s) \<union> closed s \<and>
     releasing s \<subseteq> closed s \<and> finishing s \<subseteq> closed s \<and> releasing s \<inter> finishing s = {} \<and>
     sem s = card (serving s) + card (releasing s) \<and> sem s \<le> m \<and>
     wg s = sem s + card (finishing s) \<and>
     delay_ok (delay s) \<and> (ln_closed s \<longrightarrow> cancelled s) \<and>
     (phase s \<in> {Waiting, Returned} \<longrightarrow> cancelled s) \<and> (phase s = Returned \<longrightarrow> wg s = 0)"

lemma next_delay_ok: "delay_ok d \<Longrightarrow> delay_ok (next_delay d)"
  by (auto simp: delay_ok_def next_delay_def Let_def accept_backoff_initial_def accept_backoff_max_def)

lemma server_inv_init: "server_inv m init_state"
  by (simp add: server_inv_def init_state_def held_def delay_ok_def)

lemma server_inv_finite:
  "server_inv m s \<Longrightarrow> finite (serving s) \<and> finite (releasing s) \<and> finite (finishing s)"
  unfolding server_inv_def by (meson finite_Diff finite_subset)

lemma serve_step_inv:
  assumes "serve_step m s t" "server_inv m s"
  shows "server_inv m t"
proof -
  from server_inv_finite [OF assms(2)]
  have fin: "finite (serving s)" "finite (releasing s)" "finite (finishing s)" by auto
  from assms(1) show ?thesis
  proof cases
    case (acquire c)
    have "c \<notin> serving s" using assms(2) acquire by (auto simp: server_inv_def held_def)
    then show ?thesis using assms(2) acquire fin by (auto simp: server_inv_def held_def)
  next
    case (handled c)
    have "c \<notin> releasing s" "c \<notin> finishing s" "c \<in> seen s" "c \<notin> held (phase s)"
      using assms(2) handled by (auto simp: server_inv_def)
    moreover have "card (serving s) = Suc (card (serving s - {c}))"
      using card_Suc_Diff1 [OF fin(1) handled(2)] by simp
    ultimately show ?thesis using assms(2) handled fin
      unfolding server_inv_def by (intro conjI) auto
  next
    case (release_slot c)
    have "c \<notin> finishing s" using assms(2) release_slot by (auto simp: server_inv_def)
    moreover have "card (releasing s) = Suc (card (releasing s - {c}))"
      using card_Suc_Diff1 [OF fin(2) release_slot(2)] by simp
    ultimately show ?thesis using assms(2) release_slot fin
      unfolding server_inv_def by (intro conjI) auto
  next
    case (leave c)
    have "card (finishing s) = Suc (card (finishing s - {c}))"
      using card_Suc_Diff1 [OF fin(3) leave(2)] by simp
    then show ?thesis using assms(2) leave fin
      unfolding server_inv_def by (intro conjI) auto
  qed (use assms(2) next_delay_ok in \<open>auto simp: server_inv_def held_def delay_ok_def\<close>)
qed

lemma reachable_inv: "reachable m s \<Longrightarrow> server_inv m s"
  by (induction rule: reachable.induct) (auto intro: server_inv_init serve_step_inv)

section \<open>Shutting down\<close>

fun phase_rank :: "phase \<Rightarrow> nat" where
  "phase_rank Returned = 0"
| "phase_rank Waiting = 1"
| "phase_rank Accepting = 2"
| "phase_rank Backoff = 3"
| "phase_rank (Acquiring _) = 6"

text \<open>How many more steps a server can make whose listener is closed.\<close>

definition steps_left :: "server_state \<Rightarrow> nat" where
  "steps_left s = phase_rank (phase s) + 3 * card (serving s) + 2 * card (releasing s) + card (finishing s)"

lemma closed_step:
  assumes "serve_step m s t" "server_inv m s" "ln_closed s"
  shows "ln_closed t \<and> steps_left t < steps_left s"
proof -
  from server_inv_finite [OF assms(2)]
  have fin: "finite (serving s)" "finite (releasing s)" "finite (finishing s)" by auto
  have can: "cancelled s" using assms(2,3) by (simp add: server_inv_def)
  from assms(1) show ?thesis
  proof cases
    case (acquire c)
    have "c \<notin> serving s" using assms(2) acquire by (auto simp: server_inv_def held_def)
    then show ?thesis using acquire fin assms(3) by (simp add: steps_left_def)
  next
    case (handled c)
    have "c \<notin> releasing s" using assms(2) handled by (auto simp: server_inv_def)
    moreover note card_Suc_Diff1 [OF fin(1) handled(2)]
    ultimately show ?thesis using handled(1) fin assms(3) by (simp add: steps_left_def)
  next
    case (release_slot c)
    have "c \<notin> finishing s" using assms(2) release_slot by (auto simp: server_inv_def)
    moreover note card_Suc_Diff1 [OF fin(2) release_slot(2)]
    ultimately show ?thesis using release_slot(1) fin assms(3) by (simp add: steps_left_def)
  next
    case (leave c)
    from card_Suc_Diff1 [OF fin(3) leave(2)] show ?thesis
      using leave(1) fin assms(3) by (simp add: steps_left_def)
  qed (use can assms(3) in \<open>auto simp: steps_left_def\<close>)
qed

lemma stuck_iff_returned:
  assumes "server_inv m s" "ln_closed s"
  shows "(\<nexists>t. serve_step m s t) \<longleftrightarrow> phase s = Returned"
proof
  have can: "cancelled s" using assms by (simp add: server_inv_def)
  assume stuck: "\<nexists>t. serve_step m s t"
  then have "phase s \<noteq> Accepting" "phase s \<noteq> Backoff" "\<And>c. phase s \<noteq> Acquiring c"
    using can by (meson serve_step.intros)+
  moreover have "serving s = {}" "releasing s = {}" "finishing s = {}"
    using stuck by (meson equals0I serve_step.intros)+
  then have "wg s = 0" using assms by (simp add: server_inv_def)
  then have "phase s \<noteq> Waiting" using stuck all_done by blast
  ultimately show "phase s = Returned" by (cases "phase s") auto
next
  assume r: "phase s = Returned"
  with assms server_inv_finite [OF assms(1)]
  have "serving s = {}" "releasing s = {}" "finishing s = {}" "cancelled s"
    by (auto simp: server_inv_def)
  with r assms(2) show "\<nexists>t. serve_step m s t" by (auto elim: serve_step.cases)
qed

lemma closed_steps:
  "(serve_step m ^^ n) s t \<Longrightarrow> server_inv m s \<Longrightarrow> ln_closed s \<Longrightarrow>
     server_inv m t \<and> ln_closed t \<and> n + steps_left t \<le> steps_left s"
proof (induction n arbitrary: t)
  case (Suc n)
  then obtain u where u: "(serve_step m ^^ n) s u" "serve_step m u t" by auto
  from Suc.IH [OF u(1) Suc.prems(2,3)] closed_step [OF u(2)] serve_step_inv [OF u(2)]
  show ?case by auto
qed simp

lemma cancelled_steps: "(serve_step m ^^ n) s t \<Longrightarrow> cancelled s \<Longrightarrow> cancelled t"
  by (induction n arbitrary: t) (auto elim!: serve_step.cases)

lemma server_inv_steps: "(serve_step m ^^ n) s t \<Longrightarrow> server_inv m s \<Longrightarrow> server_inv m t"
  by (induction n arbitrary: t) (auto intro: serve_step_inv)

section \<open>One connection\<close>

record request =
  rq_token :: string
  rq_tool :: string
  rq_args :: string

record response =
  rs_ok :: bool
  rs_output :: string
  rs_truncated :: bool
  rs_error :: string

text \<open>What the runner does: return its three values, or panic with a value and a stack.\<close>

datatype run_outcome = Returns string bool "string option" | Panics string string

datatype effect =
    Ran string string
  | Wrote string
  | Logged string
  | PanicLogged string

record server =
  sv_run :: "string \<Rightarrow> string \<Rightarrow> run_outcome"
  sv_token :: string
  sv_marshal :: "response \<Rightarrow> string option"
  sv_unmarshal :: "string \<Rightarrow> request option"

definition max_request_line :: nat where "max_request_line = 2 ^ 20"

definition error_response :: "string \<Rightarrow> response" where
  "error_response e = \<lparr>rs_ok = False, rs_output = [], rs_truncated = False, rs_error = e\<rparr>"

definition write_response :: "server \<Rightarrow> response \<Rightarrow> effect" where
  "write_response sv resp =
     (let data = (case sv_marshal sv resp of
          Some d \<Rightarrow> d
        | None \<Rightarrow> (case sv_marshal sv (error_response ''internal error'') of Some d \<Rightarrow> d | None \<Rightarrow> []))
      in Wrote (data @ [newline]))"

definition audit_line :: "string \<Rightarrow> string \<Rightarrow> bool \<Rightarrow> string \<Rightarrow> int \<Rightarrow> string" where
  "audit_line remote tool ok dur bytes =
     (let status = (if \<not> ok then ''err'' else ''ok''); tool = (if tool = [] then ''-'' else tool)
      in ''remote='' @ remote @ '' tool='' @ tool @ '' status='' @ status @ '' dur='' @ dur @ '' bytes='' @ itoa bytes)"

definition log_request :: "string \<Rightarrow> string \<Rightarrow> bool \<Rightarrow> string \<Rightarrow> int \<Rightarrow> effect" where
  "log_request remote tool ok dur bytes = Logged (audit_line remote tool ok dur bytes)"

text \<open>The part after authentication, with the deferred recovery from a panic.\<close>

definition run_request :: "server \<Rightarrow> string \<Rightarrow> string \<Rightarrow> request \<Rightarrow> effect list" where
  "run_request sv remote dur req =
     Ran (rq_tool req) (rq_args req) #
     (case sv_run sv (rq_tool req) (rq_args req) of
        Returns out trunc err \<Rightarrow>
          [write_response sv
             (case err of
                Some e \<Rightarrow> error_response e
              | None \<Rightarrow> \<lparr>rs_ok = True, rs_output = out, rs_truncated = trunc, rs_error = []\<rparr>),
           log_request remote (rq_tool req) (err = None) dur (int (length out))]
      | Panics value stack \<Rightarrow>
          [PanicLogged (''panic recovered: remote='' @ remote @ '' tool='' @ rq_tool req @ '' panic='' @ value @
             [newline] @ stack),
           write_response sv (error_response ''internal error''),
           log_request remote (rq_tool req) False dur 0])"

definition handle_conn :: "server \<Rightarrow> string \<Rightarrow> string \<Rightarrow> string \<Rightarrow> effect list" where
  "handle_conn sv remote dur input =
     (case scan_lines max_request_line input of
        ([], too_long) \<Rightarrow>
          (if too_long then [write_response sv (error_response ''request too large'')] else []) @
          [log_request remote [] False dur 0]
      | (line # _, _) \<Rightarrow>
          (case sv_unmarshal sv line of
             None \<Rightarrow> [write_response sv (error_response ''invalid request''), log_request remote [] False dur 0]
           | Some req \<Rightarrow>
               if rq_token req \<noteq> sv_token sv then
                 [write_response sv (error_response ''unauthorized''),
                  log_request remote (rq_tool req) False dur 0]
               else run_request sv remote dur req))"

lemma write_not [simp]:
  "write_response sv r \<noteq> Ran t a" "write_response sv r \<noteq> Logged l" "log_request b c d e f \<noteq> Ran t a"
  "Ran t a \<noteq> write_response sv r" "Ran t a \<noteq> log_request b c d e f"
  by (simp_all add: write_response_def log_request_def Let_def)

text \<open>The request a client's bytes hold, if their first line is one.\<close>

definition request_of :: "server \<Rightarrow> string \<Rightarrow> request option" where
  "request_of sv input =
     (case scan_lines max_request_line input of ([], _) \<Rightarrow> None | (line # _, _) \<Rightarrow> sv_unmarshal sv line)"

definition is_wrote :: "effect \<Rightarrow> bool" where "is_wrote e \<longleftrightarrow> (\<exists>d. e = Wrote d)"
definition is_logged :: "effect \<Rightarrow> bool" where "is_logged e \<longleftrightarrow> (\<exists>d. e = Logged d)"

lemma effect_kinds [simp]:
  "is_wrote (write_response sv r)" "\<not> is_logged (write_response sv r)"
  "is_logged (log_request a b c d e)" "\<not> is_wrote (log_request a b c d e)"
  "\<not> is_wrote (Ran t x)" "\<not> is_logged (Ran t x)" "\<not> is_wrote (PanicLogged p)" "\<not> is_logged (PanicLogged p)"
  by (simp_all add: is_wrote_def is_logged_def write_response_def log_request_def Let_def)

lemma run_request_effects:
  "Ran t a \<in> set (run_request sv remote dur req) \<longleftrightarrow> t = rq_tool req \<and> a = rq_args req"
  "length (filter is_wrote (run_request sv remote dur req)) = 1"
  "length (filter is_logged (run_request sv remote dur req)) = 1"
  "is_logged (last (run_request sv remote dur req))"
  by (cases "sv_run sv (rq_tool req) (rq_args req)"; auto simp: run_request_def)+

text \<open>The three ways a connection goes.\<close>

lemma handle_conn_cases:
  obtains (no_request) "request_of sv input = None"
      "\<exists>ws. handle_conn sv remote dur input = ws @ [log_request remote [] False dur 0] \<and>
         (ws = [] \<or> (\<exists>r. ws = [write_response sv r]))"
  | (refused) req where "request_of sv input = Some req" "rq_token req \<noteq> sv_token sv"
      "handle_conn sv remote dur input =
         [write_response sv (error_response ''unauthorized''), log_request remote (rq_tool req) False dur 0]"
  | (run) req where "request_of sv input = Some req" "rq_token req = sv_token sv"
      "handle_conn sv remote dur input = run_request sv remote dur req"
proof (cases "request_of sv input")
  case None
  have "\<exists>ws. handle_conn sv remote dur input = ws @ [log_request remote [] False dur 0] \<and>
         (ws = [] \<or> (\<exists>r. ws = [write_response sv r]))"
    using None by (auto simp: handle_conn_def request_of_def split: prod.splits list.splits)
  then show thesis using no_request None by blast
next
  case (Some req)
  then show thesis using refused [OF Some] run [OF Some]
    by (cases "rq_token req = sv_token sv")
      (auto simp: handle_conn_def request_of_def split: prod.splits list.splits)
qed

section \<open>Properties\<close>

text \<open>
  C7: At no time are more than \<open>maxConns\<close> connections being handled, whatever the interleaving of
  the loop and the handlers; the tokens in the semaphore are exactly those of handlers that have
  not released theirs, and the back-off delay is zero or between its bounds.
\<close>

theorem server_bounds_concurrency:
  assumes "reachable m s"
  shows "finite (serving s) \<and> card (serving s) \<le> m \<and> sem s = card (serving s \<union> releasing s) \<and>
    (delay s = 0 \<or> (5 * 10 ^ 6 \<le> delay s \<and> delay s \<le> 10 ^ 9))"
proof -
  from reachable_inv [OF assms] have inv: "server_inv m s" .
  moreover from inv have "serving s \<inter> releasing s = {}" by (auto simp: server_inv_def)
  ultimately show ?thesis using server_inv_finite [OF inv]
    by (auto simp: server_inv_def card_Un_disjoint delay_ok_def accept_backoff_initial_def accept_backoff_max_def)
qed

text \<open>
  C26: \<open>Serve\<close> returns only after it was cancelled and everything in flight is over: then no handler
  runs, every slot is free, and every connection ever accepted has been closed.
\<close>

theorem server_returns_drained:
  assumes "reachable m s" "phase s = Returned"
  shows "cancelled s \<and> serving s = {} \<and> releasing s = {} \<and> finishing s = {} \<and> sem s = 0 \<and> closed s = seen s"
  using reachable_inv [OF assms(1)] server_inv_finite [OF reachable_inv [OF assms(1)]] assms(2)
  by (auto simp: server_inv_def held_def)

text \<open>
  C8: Shutdown ends. In every state a run reaches after cancellation the closing of the listener is enabled until it has
  happened; once it has, at most \<open>steps_left\<close> further steps follow, whatever the scheduling; and the server is
  stuck exactly when \<open>Serve\<close> has returned and the listener is closed. So a run after cancellation that
  never ends is one that puts off the closing for ever, and a full house does not keep the loop from leaving.
\<close>

theorem shutdown_terminates:
  assumes "reachable m s" "cancelled s"
  shows "(\<forall>n t. (serve_step m ^^ n) s t \<longrightarrow>
      (\<not> ln_closed t \<longrightarrow> serve_step m t (t\<lparr>ln_closed := True\<rparr>)) \<and>
      ((\<nexists>u. serve_step m t u) \<longleftrightarrow> phase t = Returned \<and> ln_closed t) \<and>
      (ln_closed t \<longrightarrow> (\<forall>k u. (serve_step m ^^ k) t u \<longrightarrow> k \<le> steps_left t))) \<and>
    (\<forall>path. path 0 = s \<longrightarrow> (\<forall>i. serve_step m (path i) (path (Suc i))) \<longrightarrow> (\<forall>i. \<not> ln_closed (path i)))"
proof (intro conjI allI impI)
  fix n t assume t: "(serve_step m ^^ n) s t"
  have c: "cancelled t" by (rule cancelled_steps [OF t assms(2)])
  have inv: "server_inv m t" by (rule server_inv_steps [OF t reachable_inv [OF assms(1)]])
  show close: "serve_step m t (t\<lparr>ln_closed := True\<rparr>)" if "\<not> ln_closed t"
    using c that by (rule close_listener)
  show "(\<nexists>u. serve_step m t u) \<longleftrightarrow> phase t = Returned \<and> ln_closed t"
    using close stuck_iff_returned [OF inv] by blast
  show "k \<le> steps_left t" if "ln_closed t" "(serve_step m ^^ k) t u" for k u
    using closed_steps [OF that(2) inv that(1)] by simp
next
  fix path i assume p: "path 0 = s" "\<forall>i. serve_step m (path i) (path (Suc i))"
  have inv: "server_inv m (path i)" for i
    using p reachable_inv [OF assms(1)] by (induction i) (auto intro: serve_step_inv)
  show "\<not> ln_closed (path i)"
  proof
    assume l: "ln_closed (path i)"
    have "(serve_step m ^^ k) (path i) (path (i + k))" for k
      using p(2) by (induction k) auto
    from closed_steps [OF this [of "Suc (steps_left (path i))"] inv l] show False by simp
  qed
qed

text \<open>
  C3: The token guards the runner: it is called, with the request's tool and arguments, exactly when
  the client's first line decodes to a request with the server's token. Every connection is answered
  at most once, and has exactly one audit record, which comes last.
\<close>

theorem runner_needs_token:
  "let effects = handle_conn sv remote dur input
   in (Ran t a \<in> set effects \<longleftrightarrow>
         (\<exists>req. request_of sv input = Some req \<and> rq_token req = sv_token sv \<and> t = rq_tool req \<and> a = rq_args req)) \<and>
      length (filter is_wrote effects) \<le> 1 \<and> length (filter is_logged effects) = 1 \<and> is_logged (last effects)"
proof (cases rule: handle_conn_cases [of sv input remote dur])
  case (run req)
  then show ?thesis by (simp add: run_request_effects)
qed (auto simp: Let_def)

text \<open>
  C32: An audit record need not be one line: the tool name of a request that was refused is logged
  as it came, so a client without the token can write a whole line into the log that reads as a
  successful call, of any tool and from any address.
\<close>

theorem audit_record_forged:
  assumes "request_of sv input = Some req" "rq_token req \<noteq> sv_token sv"
    and "rq_tool req = ''x'' @ [newline] @ audit_line addr tool True d n @ [newline]"
  shows "\<exists>pre post. last (handle_conn sv remote dur input) =
    Logged (pre @ [newline] @ audit_line addr tool True d n @ [newline] @ post)"
proof -
  have "last (handle_conn sv remote dur input) = log_request remote (rq_tool req) False dur 0"
    by (cases rule: handle_conn_cases [of sv input remote dur]) (use assms in auto)
  then have "last (handle_conn sv remote dur input) = Logged ((''remote='' @ remote @ '' tool='' @ ''x'') @ [newline] @
      audit_line addr tool True d n @ [newline] @ ('' status='' @ ''err'' @ '' dur='' @ dur @ '' bytes='' @ itoa 0))"
    by (simp add: log_request_def assms(3) audit_line_def [of _ "_ # _"])
  then show ?thesis by blast
qed

section \<open>Witnesses\<close>

definition full_state :: server_state where
  "full_state = init_state\<lparr>phase := Acquiring 1, sem := 1, wg := 1, serving := {0}, seen := {0, 1}\<rparr>"

lemma full_reachable: "reachable 1 full_state"
proof -
  let ?a = "init_state\<lparr>phase := Acquiring 0, delay := 0, seen := {0}\<rparr>"
  let ?b = "?a\<lparr>phase := Accepting, sem := 1, wg := 1, serving := {0}\<rparr>"
  have "serve_step 1 init_state ?a" using accept [of init_state 0 1] by (simp add: init_state_def)
  moreover have "serve_step 1 ?a ?b" using acquire [of ?a 0 1] by (simp add: init_state_def)
  moreover have "serve_step 1 ?b full_state"
    using accept [of ?b 1 1] by (simp add: init_state_def full_state_def insert_commute)
  ultimately show ?thesis by (meson reachable.intros)
qed

theorem server_bounds_concurrency_witness: "card (serving full_state) \<le> 1"
  using server_bounds_concurrency [OF full_reachable] by simp

definition closed_state :: server_state where
  "closed_state = init_state\<lparr>cancelled := True, ln_closed := True\<rparr>"

definition returned_state :: server_state where
  "returned_state = closed_state\<lparr>phase := Returned\<rparr>"

lemma closed_reachable: "reachable m closed_state"
proof -
  have "serve_step m init_state (init_state\<lparr>cancelled := True\<rparr>)"
    using cancel [of init_state m] by (simp add: init_state_def)
  moreover have "serve_step m (init_state\<lparr>cancelled := True\<rparr>) closed_state"
    using close_listener [of "init_state\<lparr>cancelled := True\<rparr>" m] by (simp add: init_state_def closed_state_def)
  ultimately show ?thesis by (meson reachable.intros)
qed

lemma closed_runs: "(serve_step m ^^ 2) closed_state returned_state"
proof -
  have "serve_step m closed_state (closed_state\<lparr>phase := Waiting\<rparr>)"
    using accept_stop [of closed_state m] by (simp add: closed_state_def init_state_def)
  moreover have "serve_step m (closed_state\<lparr>phase := Waiting\<rparr>) returned_state"
    using all_done [of "closed_state\<lparr>phase := Waiting\<rparr>" m]
    by (simp add: closed_state_def init_state_def returned_state_def)
  ultimately show ?thesis by (auto simp: numeral_2_eq_2)
qed

lemma returned_reachable: "reachable m returned_state"
proof -
  from closed_runs [of m] obtain u where "serve_step m closed_state u" "serve_step m u returned_state"
    by (auto simp: numeral_2_eq_2)
  with closed_reachable show ?thesis by (meson reachable.intros)
qed

theorem server_returns_drained_witness: "closed returned_state = seen returned_state"
  using server_returns_drained [OF returned_reachable [of 1]] by (simp add: returned_state_def)

theorem shutdown_terminates_witness: "2 \<le> steps_left closed_state"
proof -
  let ?s = "init_state\<lparr>cancelled := True\<rparr>"
  have "serve_step 16 init_state ?s" using cancel [of init_state 16] by (simp add: init_state_def)
  then have r: "reachable 16 ?s" by (rule reachable.step [OF reachable.start])
  have "serve_step 16 ?s closed_state"
    using close_listener [of ?s 16] by (simp add: init_state_def closed_state_def)
  then have one: "(serve_step 16 ^^ 1) ?s closed_state" by (simp add: OO_def)
  have "\<forall>k u. (serve_step 16 ^^ k) closed_state u \<longrightarrow> k \<le> steps_left closed_state"
    using shutdown_terminates [OF r, THEN conjunct1, rule_format, OF _ one] by (simp add: closed_state_def)
  then show ?thesis using closed_runs [of 16] by blast
qed

definition forging_request :: request where
  "forging_request = \<lparr>rq_token = ''wrong'',
     rq_tool = ''x'' @ [newline] @ audit_line ''10.0.0.1:1'' ''read'' True ''1ms'' 64 @ [newline], rq_args = []\<rparr>"

definition forged_server :: server where
  "forged_server = \<lparr>sv_run = (\<lambda>_ _. Returns [] False None), sv_token = ''right'', sv_marshal = (\<lambda>_. None),
     sv_unmarshal = (\<lambda>_. Some forging_request)\<rparr>"

theorem audit_record_forged_witness:
  "\<exists>pre post. last (handle_conn forged_server ''10.0.0.9:1'' ''2ms'' ''q'') =
    Logged (pre @ [newline] @ audit_line ''10.0.0.1:1'' ''read'' True ''1ms'' 64 @ [newline] @ post)"
proof (rule audit_record_forged)
  have "scan_lines max_request_line ''q'' = ([''q''], False)"
    using scan_lines_short [of max_request_line "''q''"] raw_lines_last [of "''q''"]
    by (simp add: max_request_line_def lines_of_def drop_cr_def)
  then show "request_of forged_server ''q'' = Some forging_request"
    by (simp add: request_of_def forged_server_def)
  show "rq_token forging_request \<noteq> sv_token forged_server"
    by (simp add: forging_request_def forged_server_def)
  show "rq_tool forging_request = ''x'' @ [newline] @ audit_line ''10.0.0.1:1'' ''read'' True ''1ms'' 64 @ [newline]"
    by (simp add: forging_request_def)
qed

end
