(* ===== verification/Go_Flag.thy ===== *)
theory Go_Flag
  imports Prelude
begin

text \<open>
  Go's \<open>flag\<close> package as the program uses it: a flag set with values of the kinds the tools declare, the
  parsing of a command line up to its first argument that is no flag, and the program's own
  \<open>parseFlagsAnyOrder\<close> (\<open>cmd/rpeek/tool.go\<close>), which goes on behind it. \<open>time.ParseDuration\<close> is a
  parameter; \<open>strconv.ParseInt\<close> in base zero and \<open>strconv.ParseBool\<close> are written out.
\<close>

section \<open>Values\<close>

definition parse_bool :: "string \<Rightarrow> bool option" where
  "parse_bool s =
     (if s \<in> {''1'', ''t'', ''T'', ''true'', ''TRUE'', ''True''} then Some True
      else if s \<in> {''0'', ''f'', ''F'', ''false'', ''FALSE'', ''False''} then Some False
      else None)"

text \<open>The digits of a number in the given base; an underscore is passed over.\<close>

definition base_digit :: "char \<Rightarrow> nat option" where
  "base_digit c =
     (let l = (of_char (ascii_lower c) :: nat)
      in if is_digit c then Some (of_char c - 48) else if 97 \<le> l \<and> l \<le> 122 then Some (l - 87) else None)"

fun base_value :: "nat \<Rightarrow> nat \<Rightarrow> string \<Rightarrow> nat option" where
  "base_value b n [] = Some n"
| "base_value b n (c # s) =
     (if c = CHR ''_'' then base_value b n s
      else case base_digit c of
        None \<Rightarrow> None
      | Some d \<Rightarrow> if b \<le> d then None else base_value b (n * b + d) s)"

definition base_prefix :: "string \<Rightarrow> (nat \<times> string) option" where
  "base_prefix s =
     (case s of
        z # x # r \<Rightarrow>
          if z \<noteq> CHR ''0'' then None
          else if ascii_lower x = CHR ''b'' then Some (2, r)
          else if ascii_lower x = CHR ''o'' then Some (8, r)
          else if ascii_lower x = CHR ''x'' then Some (16, r)
          else None
      | _ \<Rightarrow> None)"

text \<open>\<open>underscoreOK\<close>: an underscore stands between digits or behind the base prefix.\<close>

fun underscores_between :: "bool \<Rightarrow> char \<Rightarrow> string \<Rightarrow> bool" where
  "underscores_between hex saw [] = (saw \<noteq> CHR ''_'')"
| "underscores_between hex saw (c # s) =
     (if is_digit c \<or> (hex \<and> CHR ''a'' \<le> ascii_lower c \<and> ascii_lower c \<le> CHR ''f'')
        then underscores_between hex CHR ''0'' s
      else if c = CHR ''_'' then saw = CHR ''0'' \<and> underscores_between hex CHR ''_'' s
      else saw \<noteq> CHR ''_'' \<and> underscores_between hex CHR ''!'' s)"

definition underscore_ok :: "string \<Rightarrow> bool" where
  "underscore_ok s =
     (case base_prefix s of
        Some (b, r) \<Rightarrow> underscores_between (b = 16) CHR ''0'' r
      | None \<Rightarrow> underscores_between False CHR ''^'' s)"

text \<open>\<open>ParseUint(s, 0, 64)\<close> without its upper bound, then \<open>ParseInt\<close>.\<close>

definition parse_nat0 :: "string \<Rightarrow> nat option" where
  "parse_nat0 s =
     (let (b, ds) =
        (case s of
           z # r \<Rightarrow>
             if z \<noteq> CHR ''0'' then (10, s)
             else (case base_prefix s of
                     Some (b, ds) \<Rightarrow> if 3 \<le> length s then (b, ds) else (8, r)
                   | None \<Rightarrow> (8, r))
         | [] \<Rightarrow> (10, s))
      in if s = [] then None
         else case base_value b 0 ds of
           None \<Rightarrow> None
         | Some n \<Rightarrow> if CHR ''_'' \<in> set ds \<and> \<not> underscore_ok s then None else Some n)"

definition parse_int0 :: "string \<Rightarrow> int option" where
  "parse_int0 s =
     (let (neg, ds) =
        (case s of
           c # r \<Rightarrow> if c = CHR ''-'' then (True, r) else if c = CHR ''+'' then (False, r) else (False, s)
         | [] \<Rightarrow> (False, s))
      in case parse_nat0 ds of
           None \<Rightarrow> None
         | Some n \<Rightarrow>
             let v = (if neg then - int n else int n)
             in if - (2 ^ 63) \<le> v \<and> v < 2 ^ 63 then Some v else None)"

datatype flag_value =
    BoolFlag bool
  | StringFlag string
  | IntFlag int
  | DurationFlag int
  | ListFlag "string list"

text \<open>
  \<open>Value.Set\<close> of the package's own values, and of the repeatable \<open>kvFlag\<close> of \<open>internal/tools/tool_serve.go\<close>,
  which is a \<open>ListFlag\<close>.
\<close>

definition kv_set :: "string list \<Rightarrow> string \<Rightarrow> string list" where
  "kv_set k v = k @ [v]"

definition set_flag :: "(string \<Rightarrow> int option) \<Rightarrow> flag_value \<Rightarrow> string \<Rightarrow> flag_value option" where
  "set_flag dur old s =
     (case old of
        BoolFlag _ \<Rightarrow> map_option BoolFlag (parse_bool s)
      | StringFlag _ \<Rightarrow> Some (StringFlag s)
      | IntFlag _ \<Rightarrow> map_option IntFlag (parse_int0 s)
      | DurationFlag _ \<Rightarrow> map_option DurationFlag (dur s)
      | ListFlag vs \<Rightarrow> Some (ListFlag (kv_set vs s)))"

fun is_bool_flag :: "flag_value \<Rightarrow> bool" where
  "is_bool_flag (BoolFlag _) = True"
| "is_bool_flag _ = False"

section \<open>Command lines\<close>

type_synonym flag_set = "string \<rightharpoonup> flag_value"

datatype flag_fault =
    HelpWanted
  | BadFlagSyntax string
  | UndefinedFlag string
  | NeedsArgument string
  | InvalidValue string string

datatype flag_token = NoFlag | Terminator | SyntaxFault | FlagToken string "string option"

definition flag_token :: "string \<Rightarrow> flag_token" where
  "flag_token s =
     (if length s < 2 \<or> hd s \<noteq> CHR ''-'' then NoFlag
      else if s = ''--'' then Terminator
      else
        let name = (if s ! 1 = CHR ''-'' then drop 2 s else drop 1 s)
        in if name = [] \<or> hd name = CHR ''-'' \<or> hd name = CHR ''='' then SyntaxFault
           else let n = takeWhile (\<lambda>c. c \<noteq> CHR ''='') name
                in FlagToken n (if n = name then None else Some (drop (length n + 1) name)))"

definition set_named ::
  "(string \<Rightarrow> int option) \<Rightarrow> flag_set \<Rightarrow> string \<Rightarrow> flag_value \<Rightarrow> string \<Rightarrow> flag_fault + flag_set" where
  "set_named dur fs name old value =
     (case set_flag dur old value of None \<Rightarrow> Inl (InvalidValue name value) | Some v \<Rightarrow> Inr (fs(name \<mapsto> v)))"

text \<open>\<open>parseOne\<close>: the values after one flag, the arguments behind it, and whether there was a flag.\<close>

definition parse_one ::
  "(string \<Rightarrow> int option) \<Rightarrow> flag_set \<Rightarrow> string list \<Rightarrow> flag_fault + flag_set \<times> string list \<times> bool" where
  "parse_one dur fs args =
     (case args of
        [] \<Rightarrow> Inr (fs, [], False)
      | s # rest \<Rightarrow>
          (case flag_token s of
             NoFlag \<Rightarrow> Inr (fs, args, False)
           | Terminator \<Rightarrow> Inr (fs, rest, False)
           | SyntaxFault \<Rightarrow> Inl (BadFlagSyntax s)
           | FlagToken name value \<Rightarrow>
               (case fs name of
                  None \<Rightarrow> Inl (if name = ''help'' \<or> name = ''h'' then HelpWanted else UndefinedFlag name)
                | Some old \<Rightarrow>
                    (case (value, is_bool_flag old, rest) of
                       (Some v, _, _) \<Rightarrow> bind_res (set_named dur fs name old v) (\<lambda>fs. Inr (fs, rest, True))
                     | (None, True, _) \<Rightarrow> bind_res (set_named dur fs name old ''true'') (\<lambda>fs. Inr (fs, rest, True))
                     | (None, False, v # rest) \<Rightarrow> bind_res (set_named dur fs name old v) (\<lambda>fs. Inr (fs, rest, True))
                     | (None, False, []) \<Rightarrow> Inl (NeedsArgument name)))))"

lemma parse_one_shorter:
  "parse_one dur fs args = Inr (fs', rest, seen) \<Longrightarrow>
     length rest \<le> length args \<and> (seen \<longrightarrow> length rest < length args)"
  by (auto simp: parse_one_def res_simps split: list.splits flag_token.splits option.splits bool.splits)

text \<open>\<open>FlagSet.Parse\<close>: the values after it, and the arguments it leaves (\<open>Args\<close>).\<close>

function parse_flags ::
  "(string \<Rightarrow> int option) \<Rightarrow> flag_set \<Rightarrow> string list \<Rightarrow> flag_fault + flag_set \<times> string list" where
  "parse_flags dur fs args =
     bind_res (parse_one dur fs args) (\<lambda>(fs, rest, more).
       if more then parse_flags dur fs rest else Inr (fs, rest))"
  by pat_completeness auto
termination
  by (relation "measure (\<lambda>(dur, fs, args). length args)") (auto dest: parse_one_shorter)

declare parse_flags.simps [simp del]

lemma parse_flags_shorter: "parse_flags dur fs args = Inr (fs', rest) \<Longrightarrow> length rest \<le> length args"
proof (induction dur fs args rule: parse_flags.induct)
  case (1 dur fs args)
  from "1.prems" obtain fs1 rest1 more where o1: "parse_one dur fs args = Inr (fs1, rest1, more)"
      "(if more then parse_flags dur fs1 rest1 else Inr (fs1, rest1)) = Inr (fs', rest)"
    by (subst (asm) parse_flags.simps) (auto simp: res_simps)
  show ?case
    using "1.IH" [OF o1(1) refl refl] o1(2) parse_one_shorter [OF o1(1)] by (cases more) auto
qed

function parse_any_order ::
  "(string \<Rightarrow> int option) \<Rightarrow> flag_set \<Rightarrow> string list \<Rightarrow> string list \<Rightarrow> flag_fault + flag_set \<times> string list" where
  "parse_any_order dur fs positionals args =
     bind_res (parse_flags dur fs args) (\<lambda>(fs, rest).
       case rest of [] \<Rightarrow> Inr (fs, positionals) | p # args \<Rightarrow> parse_any_order dur fs (positionals @ [p]) args)"
  by pat_completeness auto
termination
  by (relation "measure (\<lambda>(dur, fs, positionals, args). length args)") (auto dest: parse_flags_shorter)

declare parse_any_order.simps [simp del]

section \<open>Flags keep their kind\<close>

datatype value_kind = BoolKind | StringKind | IntKind | DurationKind | ListKind

fun kind_of :: "flag_value \<Rightarrow> value_kind" where
  "kind_of (BoolFlag _) = BoolKind"
| "kind_of (StringFlag _) = StringKind"
| "kind_of (IntFlag _) = IntKind"
| "kind_of (DurationFlag _) = DurationKind"
| "kind_of (ListFlag _) = ListKind"

definition kinds :: "flag_set \<Rightarrow> string \<Rightarrow> value_kind option" where
  "kinds fs n = map_option kind_of (fs n)"

lemma set_flag_kind_of: "set_flag dur old v = Some new \<Longrightarrow> kind_of new = kind_of old"
  by (auto simp: set_flag_def split: flag_value.splits)

lemma set_named_kinds: "set_named dur fs n old v = Inr fs' \<Longrightarrow> fs n = Some old \<Longrightarrow> kinds fs' = kinds fs"
  by (rule ext) (auto simp: set_named_def kinds_def set_flag_kind_of split: option.splits)

lemma parse_one_kinds: "parse_one dur fs args = Inr (fs', rest, seen) \<Longrightarrow> kinds fs' = kinds fs"
  by (auto simp: parse_one_def res_simps dest: set_named_kinds
      split: list.splits flag_token.splits option.splits bool.splits)

lemma parse_flags_kinds: "parse_flags dur fs args = Inr (fs', rest) \<Longrightarrow> kinds fs' = kinds fs"
proof (induction dur fs args rule: parse_flags.induct)
  case (1 dur fs args)
  from "1.prems" obtain fs1 rest1 more where o1: "parse_one dur fs args = Inr (fs1, rest1, more)"
      "(if more then parse_flags dur fs1 rest1 else Inr (fs1, rest1)) = Inr (fs', rest)"
    by (subst (asm) parse_flags.simps) (auto simp: res_simps)
  show ?case
    using "1.IH" [OF o1(1) refl refl] o1(2) parse_one_kinds [OF o1(1)] by (cases more) auto
qed

text \<open>
  A command line never changes which flags there are or of which kind: what a builder reads through the
  pointer of a flag is always a value of the flag's own kind.
\<close>

lemma parse_any_order_kinds: "parse_any_order dur fs ps args = Inr (fs', ps') \<Longrightarrow> kinds fs' = kinds fs"
proof (induction dur fs ps args rule: parse_any_order.induct)
  case (1 dur fs ps args)
  from "1.prems" obtain fs1 rest1 where o1: "parse_flags dur fs args = Inr (fs1, rest1)"
      "(case rest1 of [] \<Rightarrow> Inr (fs1, ps) | p # args \<Rightarrow> parse_any_order dur fs1 (ps @ [p]) args) = Inr (fs', ps')"
    by (subst (asm) parse_any_order.simps) (auto simp: res_simps)
  show ?case
    using "1.IH" [OF o1(1) refl] o1(2) parse_flags_kinds [OF o1(1)] by (cases rest1) auto
qed

section \<open>Flags and positional arguments in any order\<close>

text \<open>A command line as its user means it, and the words it is given as.\<close>

datatype cl_item = WithValue string string | NextValue string string | Switch string | Plain string

fun item_words :: "cl_item \<Rightarrow> string list" where
  "item_words (WithValue n v) = [''--'' @ n @ ''='' @ v]"
| "item_words (NextValue n v) = [''--'' @ n, v]"
| "item_words (Switch n) = [''--'' @ n]"
| "item_words (Plain p) = [p]"

definition words_of :: "cl_item list \<Rightarrow> string list" where
  "words_of items = concat (map item_words items)"

definition flag_name :: "string \<Rightarrow> bool" where
  "flag_name n \<longleftrightarrow> n \<noteq> [] \<and> hd n \<noteq> CHR ''-'' \<and> CHR ''='' \<notin> set n"

definition flag_kind :: "flag_set \<Rightarrow> string \<Rightarrow> bool option" where
  "flag_kind fs n = map_option is_bool_flag (fs n)"

fun item_ok :: "flag_set \<Rightarrow> cl_item \<Rightarrow> bool" where
  "item_ok fs (WithValue n v) \<longleftrightarrow> flag_name n \<and> flag_kind fs n \<noteq> None"
| "item_ok fs (NextValue n v) \<longleftrightarrow> flag_name n \<and> flag_kind fs n = Some False"
| "item_ok fs (Switch n) \<longleftrightarrow> flag_name n \<and> flag_kind fs n = Some True"
| "item_ok fs (Plain p) \<longleftrightarrow> flag_token p = NoFlag"

text \<open>What it means: the flags set one after the other, and the positional arguments.\<close>

definition set_by_name :: "(string \<Rightarrow> int option) \<Rightarrow> flag_set \<Rightarrow> string \<Rightarrow> string \<Rightarrow> flag_fault + flag_set" where
  "set_by_name dur fs n v =
     (case fs n of None \<Rightarrow> Inl (UndefinedFlag n) | Some old \<Rightarrow> set_named dur fs n old v)"

fun apply_settings :: "(string \<Rightarrow> int option) \<Rightarrow> flag_set \<Rightarrow> cl_item list \<Rightarrow> flag_fault + flag_set" where
  "apply_settings dur fs [] = Inr fs"
| "apply_settings dur fs (WithValue n v # items) =
     bind_res (set_by_name dur fs n v) (\<lambda>fs. apply_settings dur fs items)"
| "apply_settings dur fs (NextValue n v # items) =
     bind_res (set_by_name dur fs n v) (\<lambda>fs. apply_settings dur fs items)"
| "apply_settings dur fs (Switch n # items) =
     bind_res (set_by_name dur fs n ''true'') (\<lambda>fs. apply_settings dur fs items)"
| "apply_settings dur fs (Plain p # items) = apply_settings dur fs items"

fun plain_words :: "cl_item list \<Rightarrow> string list" where
  "plain_words [] = []"
| "plain_words (Plain p # items) = p # plain_words items"
| "plain_words (_ # items) = plain_words items"

lemma flag_token_value:
  "flag_name n \<Longrightarrow> flag_token (''--'' @ n @ ''='' @ v) = FlagToken n (Some v)"
proof -
  assume n: "flag_name n"
  then have "takeWhile (\<lambda>c. c \<noteq> CHR ''='') (n @ CHR ''='' # v) = n"
    by (subst takeWhile_append2) (auto simp: flag_name_def)
  moreover have "hd n \<noteq> CHR ''=''" using n by (cases n) (auto simp: flag_name_def)
  ultimately show ?thesis using n by (simp add: flag_token_def flag_name_def Let_def)
qed

lemma flag_token_plain: "flag_name n \<Longrightarrow> flag_token (''--'' @ n) = FlagToken n None"
proof -
  assume n: "flag_name n"
  then have "takeWhile (\<lambda>c. c \<noteq> CHR ''='') n = n"
    by (subst takeWhile_eq_all_conv) (auto simp: flag_name_def)
  moreover have "hd n \<noteq> CHR ''=''" using n by (cases n) (auto simp: flag_name_def)
  ultimately show ?thesis using n by (simp add: flag_token_def flag_name_def Let_def)
qed

lemma set_flag_kind: "set_flag dur old v = Some new \<Longrightarrow> is_bool_flag new = is_bool_flag old"
  by (auto simp: set_flag_def split: flag_value.splits)

lemma set_by_name_kind: "set_by_name dur fs n v = Inr fs' \<Longrightarrow> flag_kind fs' = flag_kind fs"
  by (rule ext) (auto simp: set_by_name_def set_named_def flag_kind_def set_flag_kind split: option.splits)

lemma item_ok_kind: "flag_kind fs' = flag_kind fs \<Longrightarrow> item_ok fs' it = item_ok fs it"
  by (cases it) auto

text \<open>One item of the command line under \<open>parseFlagsAnyOrder\<close>.\<close>

lemma any_order_setting:
  assumes "parse_one dur fs args = bind_res r (\<lambda>fs. Inr (fs, rest, True))"
  shows "parse_any_order dur fs ps args = bind_res r (\<lambda>fs. parse_any_order dur fs ps rest)"
proof (cases r)
  case (Inl e)
  then show ?thesis using assms by (subst parse_any_order.simps, subst parse_flags.simps) simp
next
  case (Inr fs')
  then have "parse_flags dur fs args = parse_flags dur fs' rest"
    using assms by (subst parse_flags.simps) simp
  then show ?thesis using Inr by (subst (1 2) parse_any_order.simps) simp
qed

lemma any_order_plain:
  assumes "flag_token p = NoFlag"
  shows "parse_any_order dur fs ps (p # rest) = parse_any_order dur fs (ps @ [p]) rest"
proof -
  have "parse_flags dur fs (p # rest) = Inr (fs, p # rest)"
    using assms by (subst parse_flags.simps) (simp add: parse_one_def)
  then show ?thesis by (subst parse_any_order.simps) simp
qed

lemma any_order_end: "parse_any_order dur fs ps [] = Inr (fs, ps)"
  by (subst parse_any_order.simps, subst parse_flags.simps) (simp add: parse_one_def)

lemma any_order_item:
  assumes "item_ok fs it"
  shows "parse_any_order dur fs ps (item_words it @ rest) =
    (case it of
       WithValue n v \<Rightarrow> bind_res (set_by_name dur fs n v) (\<lambda>fs. parse_any_order dur fs ps rest)
     | NextValue n v \<Rightarrow> bind_res (set_by_name dur fs n v) (\<lambda>fs. parse_any_order dur fs ps rest)
     | Switch n \<Rightarrow> bind_res (set_by_name dur fs n ''true'') (\<lambda>fs. parse_any_order dur fs ps rest)
     | Plain p \<Rightarrow> parse_any_order dur fs (ps @ [p]) rest)"
proof (cases it)
  case (WithValue n v)
  then show ?thesis using assms flag_token_value [of n v]
    by (auto intro!: any_order_setting simp: parse_one_def flag_kind_def set_by_name_def)
next
  case (NextValue n v)
  then show ?thesis using assms flag_token_plain [of n]
    by (auto intro!: any_order_setting simp: parse_one_def flag_kind_def set_by_name_def)
next
  case (Switch n)
  then show ?thesis using assms flag_token_plain [of n]
    by (auto intro!: any_order_setting simp: parse_one_def flag_kind_def set_by_name_def)
next
  case (Plain p)
  then show ?thesis using assms by (simp add: any_order_plain)
qed

lemma any_order_items:
  "list_all (item_ok fs) items \<Longrightarrow>
     parse_any_order dur fs ps (words_of items) =
       bind_res (apply_settings dur fs items) (\<lambda>fs. Inr (fs, ps @ plain_words items))"
proof (induction items arbitrary: fs ps)
  case Nil
  then show ?case by (simp add: words_of_def any_order_end)
next
  case (Cons it items)
  have w: "words_of (it # items) = item_words it @ words_of items" by (simp add: words_of_def)
  have ih: "bind_res r (\<lambda>fs. parse_any_order dur fs ps (words_of items)) =
      bind_res r (\<lambda>fs. bind_res (apply_settings dur fs items) (\<lambda>fs. Inr (fs, ps @ plain_words items)))"
    if "\<And>fs'. r = Inr fs' \<Longrightarrow> flag_kind fs' = flag_kind fs" for r :: "flag_fault + flag_set"
  proof (rule bind_res_cong [OF refl])
    fix fs' assume "r = Inr fs'"
    then have "list_all (item_ok fs') items"
      using Cons.prems item_ok_kind [OF that] by (simp add: list_all_iff)
    then show "parse_any_order dur fs' ps (words_of items) =
        bind_res (apply_settings dur fs' items) (\<lambda>fs. Inr (fs, ps @ plain_words items))"
      by (rule Cons.IH)
  qed
  have ok: "item_ok fs it" "list_all (item_ok fs) items" using Cons.prems by auto
  show ?case
    unfolding w any_order_item [OF ok(1)]
    by (cases it) (simp_all add: ih set_by_name_kind bind_res_assoc Cons.IH [OF ok(2)])
qed

text \<open>
  The terminator \<open>--\<close> protects one argument only: \<open>parseFlagsAnyOrder\<close> parses what comes behind it anew,
  so a later argument that starts with a dash is read as a flag all the same.
\<close>

lemma terminator_protects_one:
  "parse_any_order dur fs ps (''--'' # p # rest) = parse_any_order dur fs (ps @ [p]) rest"
proof -
  have "flag_token ''--'' = Terminator" by (simp add: flag_token_def)
  then have "parse_flags dur fs (''--'' # p # rest) = Inr (fs, p # rest)"
    by (subst parse_flags.simps) (simp add: parse_one_def)
  then show ?thesis by (subst parse_any_order.simps) simp
qed

section \<open>Properties\<close>

text \<open>
  C25: Flags and positional arguments may be mixed in any order: whatever the arrangement, a command line
  gives the flag values its settings alone give, the last of a name winning, an invalid value or the
  missing one being the error of the first bad setting, and the positional arguments in their order.
\<close>

theorem flags_in_any_order:
  assumes "list_all (item_ok fs) items"
  shows "parse_any_order dur fs [] (words_of items) =
    bind_res (apply_settings dur fs items) (\<lambda>fs. Inr (fs, plain_words items))"
  using any_order_items [OF assms, of dur "[]"] by simp

definition grep_like_flags :: flag_set where
  "grep_like_flags = [''pattern'' \<mapsto> StringFlag [], ''ignore-case'' \<mapsto> BoolFlag False]"

theorem flags_in_any_order_witness:
  "parse_any_order (\<lambda>_. None) grep_like_flags [] [''/var/log'', ''--pattern'', ''a b'', ''--ignore-case''] =
   Inr (grep_like_flags(''pattern'' \<mapsto> StringFlag ''a b'', ''ignore-case'' \<mapsto> BoolFlag True), [''/var/log''])"
  using flags_in_any_order [of grep_like_flags "[Plain ''/var/log'', NextValue ''pattern'' ''a b'', Switch ''ignore-case'']"
      "\<lambda>_. None"]
  by (simp add: grep_like_flags_def words_of_def flag_name_def flag_kind_def flag_token_def set_by_name_def
      set_named_def set_flag_def parse_bool_def)

end
