(* ===== verification/Registry.thy ===== *)
theory Registry
  imports Tool_Env Go_Flag "HOL-Library.Multiset"
begin

text \<open>
  The tool registry and the runner (\<open>internal/tools/registry.go\<close>, \<open>internal/tools/runner.go\<close>).
  A tool is the record of its methods (\<open>internal/tools/tool.go\<close>): a half it does not implement is
  \<open>None\<close>, \<open>NewFlags\<close> is the flag set with the text \<open>PrintDefaults\<close> prints of it and the builder, whose
  value is the JSON the client makes of it. \<open>sort.Search\<close> is written out. A panic is an error value. The context is of
  type \<open>'c\<close>; \<open>with_timeout\<close> is \<open>context.WithTimeout\<close>.
\<close>

datatype build_fault = UsageFault string | MarshalFault string

record ('c, 'e) tool =
  t_name :: string
  t_summary :: string
  t_usage :: string
  t_remote :: "('c \<Rightarrow> env \<Rightarrow> string \<Rightarrow> 'e + tool_result) option"
  t_local :: "('c \<Rightarrow> env \<Rightarrow> string \<Rightarrow> 'e + tool_result) option"
  t_serves :: bool
  t_flags :: flag_set
  t_flag_help :: string
  t_build :: "flag_set \<Rightarrow> string list \<Rightarrow> build_fault + string"
  t_detail :: "string option"

record ('c, 'e) registry =
  registered :: "('c, 'e) tool list"
  by_name :: "string \<rightharpoonup> ('c, 'e) tool"

datatype register_panic = EmptyName | DuplicateName string

definition empty_registry :: "('c, 'e) registry" where
  "empty_registry = \<lparr>registered = [], by_name = Map.empty\<rparr>"

function search :: "(nat \<Rightarrow> bool) \<Rightarrow> nat \<Rightarrow> nat \<Rightarrow> nat" where
  "search f i j =
     (if i < j then
        let h = (i + j) div 2 in if \<not> f h then search f (h + 1) j else search f i h
      else i)"
  by pat_completeness auto
termination by (relation "measure (\<lambda>(f, i, j). j - i)") auto

declare search.simps [simp del]

definition register :: "('c, 'e) registry \<Rightarrow> ('c, 'e) tool \<Rightarrow> register_panic + ('c, 'e) registry" where
  "register r t =
     (if t_name t = [] then Inl EmptyName
      else if by_name r (t_name t) \<noteq> None then Inl (DuplicateName (t_name t))
      else
        let ts = registered r;
            i = search (\<lambda>i. t_name (ts ! i) \<ge> t_name t) 0 (length ts)
        in Inr \<lparr>registered = take i ts @ t # drop i ts, by_name = (by_name r)(t_name t \<mapsto> t)\<rparr>)"

text \<open>The init functions, in the order the linker runs them.\<close>

fun register_all :: "('c, 'e) registry \<Rightarrow> ('c, 'e) tool list \<Rightarrow> register_panic + ('c, 'e) registry" where
  "register_all r [] = Inr r"
| "register_all r (t # ts) = bind_res (register r t) (\<lambda>r. register_all r ts)"

definition lookup_tool :: "('c, 'e) registry \<Rightarrow> string \<Rightarrow> ('c, 'e) tool option" where
  "lookup_tool r name = by_name r name"

definition tool_names :: "('c, 'e) registry \<Rightarrow> string list" where
  "tool_names r = map t_name (registered r)"

definition remote_names :: "('c, 'e) registry \<Rightarrow> string list" where
  "remote_names r = map t_name (filter (\<lambda>t. t_remote t \<noteq> None) (registered r))"

section \<open>The runner\<close>

datatype 'e run_error = UnknownToolName string | NoServerOperation string | ToolFailed 'e

definition run_remote ::
  "('c, 'e) registry \<Rightarrow> ('c \<Rightarrow> int \<Rightarrow> 'c) \<Rightarrow> env \<Rightarrow> 'c \<Rightarrow> string \<Rightarrow> string \<Rightarrow> 'e run_error + string \<times> bool" where
  "run_remote r with_timeout env ctx name args =
     (case lookup_tool r name of
        None \<Rightarrow> Inl (UnknownToolName name)
      | Some t \<Rightarrow>
          (case t_remote t of
             None \<Rightarrow> Inl (NoServerOperation name)
           | Some remote \<Rightarrow>
               let ctx = (if timeout (env_limits env) > 0 then with_timeout ctx (timeout (env_limits env)) else ctx)
               in bind_res (lift_err ToolFailed (remote ctx env args)) (\<lambda>res. Inr (out_text res, truncated res))))"

section \<open>Binary search\<close>

lemma search_range:
  "i \<le> j \<Longrightarrow> (\<And>a b. i \<le> a \<Longrightarrow> a \<le> b \<Longrightarrow> b < j \<Longrightarrow> f a \<Longrightarrow> f b) \<Longrightarrow>
     i \<le> search f i j \<and> search f i j \<le> j \<and>
     (\<forall>k. i \<le> k \<longrightarrow> k < search f i j \<longrightarrow> \<not> f k) \<and> (\<forall>k. search f i j \<le> k \<longrightarrow> k < j \<longrightarrow> f k)"
proof (induction f i j rule: search.induct)
  case (1 f i j)
  show ?case
  proof (cases "i < j")
    case True
    let ?h = "(i + j) div 2"
    have h: "i \<le> ?h" "?h < j" using True by auto
    show ?thesis
    proof (cases "f ?h")
      case f: True
      have eq: "search f i j = search f i ?h" using True f by (subst search.simps) (simp add: Let_def)
      have ih: "i \<le> search f i ?h \<and> search f i ?h \<le> ?h \<and>
          (\<forall>k. i \<le> k \<longrightarrow> k < search f i ?h \<longrightarrow> \<not> f k) \<and> (\<forall>k. search f i ?h \<le> k \<longrightarrow> k < ?h \<longrightarrow> f k)"
        using "1.IH"(2) [OF True refl] f h "1.prems"(2) by (meson le_trans less_trans)
      have "f k" if "search f i ?h \<le> k" "k < j" for k
        using ih that f "1.prems"(2) [of ?h k] h by (cases "k < ?h") auto
      then show ?thesis using ih h unfolding eq by auto
    next
      case f: False
      have eq: "search f i j = search f (?h + 1) j" using True f by (subst search.simps) (simp add: Let_def)
      have ih: "?h + 1 \<le> search f (?h + 1) j \<and> search f (?h + 1) j \<le> j \<and>
          (\<forall>k. ?h + 1 \<le> k \<longrightarrow> k < search f (?h + 1) j \<longrightarrow> \<not> f k) \<and> (\<forall>k. search f (?h + 1) j \<le> k \<longrightarrow> k < j \<longrightarrow> f k)"
      proof (rule "1.IH"(1) [OF True refl f])
        show "?h + 1 \<le> j" using h by simp
        show "f b" if "?h + 1 \<le> a" "a \<le> b" "b < j" "f a" for a b
          using "1.prems"(2) [of a b] that h by simp
      qed
      have "\<not> f k" if "i \<le> k" "k < search f (?h + 1) j" for k
        using ih that f "1.prems"(2) [of k ?h] h by (cases "k \<le> ?h") auto
      then show ?thesis using ih h unfolding eq by auto
    qed
  next
    case False
    then have "search f i j = i" by (subst search.simps) simp
    then show ?thesis using "1.prems"(1) False by auto
  qed
qed

lemma insert_sorted:
  assumes "sorted (map key ts)" "i = search (\<lambda>i. key (ts ! i) \<ge> key t) 0 (length ts)"
  shows "sorted (map key (take i ts @ t # drop i ts))"
proof -
  have mono: "key (ts ! a) \<le> key (ts ! b)" if "a \<le> b" "b < length ts" for a b
    using sorted_nth_mono [OF assms(1), of a b] that by simp
  have "0 \<le> i \<and> i \<le> length ts \<and> (\<forall>k. 0 \<le> k \<longrightarrow> k < i \<longrightarrow> \<not> key (ts ! k) \<ge> key t) \<and>
      (\<forall>k. i \<le> k \<longrightarrow> k < length ts \<longrightarrow> key (ts ! k) \<ge> key t)"
    unfolding assms(2) by (rule search_range) (use mono in \<open>auto intro: order_trans\<close>)
  then have i: "i \<le> length ts" "\<forall>k < i. \<not> key (ts ! k) \<ge> key t" "\<forall>k < length ts. i \<le> k \<longrightarrow> key (ts ! k) \<ge> key t"
    by auto
  have "key x \<le> key t" if "x \<in> set (take i ts)" for x
    using that i(1,2) by (auto simp: in_set_conv_nth)
  moreover have "key t \<le> key x" if "x \<in> set (drop i ts)" for x
    using that i(1,3) by (auto simp: in_set_conv_nth)
  moreover have "sorted (map key (take i ts) @ map key (drop i ts))"
    unfolding map_append [symmetric] append_take_drop_id by (rule assms(1))
  ultimately show ?thesis by (auto simp: sorted_append)
qed

section \<open>The invariant of the registry\<close>

definition registry_ok :: "('c, 'e) tool list \<Rightarrow> ('c, 'e) registry \<Rightarrow> bool" where
  "registry_ok ts r \<longleftrightarrow> mset (registered r) = mset ts \<and> sorted (map t_name (registered r)) \<and>
     distinct (map t_name ts) \<and> by_name r = map_of (map (\<lambda>t. (t_name t, t)) ts)"

lemma register_ok:
  assumes "registry_ok ts r"
  shows "t_name t \<noteq> [] \<Longrightarrow> t_name t \<notin> t_name ` set ts \<Longrightarrow>
      \<exists>r'. register r t = Inr r' \<and> registry_ok (t # ts) r'"
    and "register r t = Inr r' \<Longrightarrow> t_name t \<noteq> [] \<and> t_name t \<notin> t_name ` set ts"
proof -
  have dom: "by_name r n = None \<longleftrightarrow> n \<notin> t_name ` set ts" for n
    using assms by (auto simp: registry_ok_def map_of_eq_None_iff image_image)
  show "register r t = Inr r' \<Longrightarrow> t_name t \<noteq> [] \<and> t_name t \<notin> t_name ` set ts"
    by (auto simp: register_def dom [symmetric] split: if_splits)
  assume t: "t_name t \<noteq> []" "t_name t \<notin> t_name ` set ts"
  let ?ts = "registered r"
  let ?i = "search (\<lambda>i. t_name (?ts ! i) \<ge> t_name t) 0 (length ?ts)"
  have "mset (take ?i ?ts) + mset (drop ?i ?ts) = mset ?ts"
    unfolding mset_append [symmetric] append_take_drop_id by (rule refl)
  then have "mset (take ?i ?ts @ t # drop ?i ?ts) = mset (t # ts)"
    using assms by (simp add: registry_ok_def)
  then have "registry_ok (t # ts) \<lparr>registered = take ?i ?ts @ t # drop ?i ?ts,
      by_name = (by_name r)(t_name t \<mapsto> t)\<rparr>"
    using assms t insert_sorted [of t_name ?ts ?i t] by (auto simp: registry_ok_def)
  then show "\<exists>r'. register r t = Inr r' \<and> registry_ok (t # ts) r'"
    using t dom by (auto simp: register_def Let_def)
qed

lemma registry_ok_empty: "registry_ok [] empty_registry"
  by (simp add: registry_ok_def empty_registry_def)

lemma register_all_ok:
  "registry_ok done r \<Longrightarrow> distinct (map t_name (rev ts @ done)) \<Longrightarrow> list_all (\<lambda>t. t_name t \<noteq> []) ts \<Longrightarrow>
     \<exists>r'. register_all r ts = Inr r' \<and> registry_ok (rev ts @ done) r'"
proof (induction ts arbitrary: r "done")
  case (Cons t ts)
  from register_ok(1) [OF Cons.prems(1), of t] Cons.prems(2,3)
  obtain r' where r': "register r t = Inr r'" "registry_ok (t # done) r'" by auto
  from Cons.IH [OF this(2)] Cons.prems(2,3) r'(1) show ?case by auto
qed simp

lemma registry_ok_unique:
  assumes "registry_ok ts r" "registry_ok us r'" "mset ts = mset us"
  shows "r = r'"
proof -
  from assms have m: "mset (registered r) = mset (registered r')" and d: "distinct (map t_name ts)" "distinct (map t_name us)"
    by (simp_all add: registry_ok_def)
  have set: "set ts = set us" using mset_eq_setD [OF assms(3)] .
  have dist: "distinct (map t_name (registered x))" if "registry_ok vs x" for x and vs :: "('a, 'b) tool list"
  proof -
    from that have "mset (map t_name (registered x)) = mset (map t_name vs)" "distinct (map t_name vs)"
      by (simp_all add: registry_ok_def)
    then show ?thesis using mset_eq_imp_distinct_iff by blast
  qed
  have "registered r = registered r'"
  proof (rule map_sorted_distinct_set_unique [of t_name])
    have eq: "set (registered r) = set (registered r')" using mset_eq_setD [OF m] .
    show "inj_on t_name (set (registered r) \<union> set (registered r'))"
      using dist [OF assms(1)] by (simp add: distinct_map flip: eq)
    show "set (registered r) = set (registered r')" by (rule eq)
  qed (use assms(1,2) dist in \<open>auto simp: registry_ok_def\<close>)
  moreover have "map_of (map (\<lambda>t. (t_name t, t)) ts) = map_of (map (\<lambda>t. (t_name t, t)) us)"
  proof (rule map_of_inject_set [THEN iffD2])
    show "distinct (map fst (map (\<lambda>t. (t_name t, t)) ts))" "distinct (map fst (map (\<lambda>t. (t_name t, t)) us))"
      using d by (simp_all add: comp_def)
  qed (simp add: set)
  ultimately show ?thesis using assms(1,2) by (simp add: registry_ok_def)
qed

lemma register_all_accepts:
  assumes "register_all s ts = Inr r" "registry_ok seen s"
  shows "distinct (map t_name ts) \<and> list_all (\<lambda>t. t_name t \<noteq> []) ts \<and>
    set (map t_name ts) \<inter> set (map t_name seen) = {}"
  using assms
proof (induction ts arbitrary: s seen)
  case (Cons t ts)
  then obtain s' where s': "register s t = Inr s'" "register_all s' ts = Inr r" by (auto simp: res_simps)
  from register_ok(2) [OF Cons.prems(2) s'(1)] have t: "t_name t \<noteq> []" "t_name t \<notin> t_name ` set seen" by auto
  with register_ok(1) [OF Cons.prems(2)] s'(1) have "registry_ok (t # seen) s'" by fastforce
  from Cons.IH [OF s'(2) this] t show ?case by auto
qed simp

section \<open>Properties\<close>

text \<open>
  C33: The registry does not depend on the order the tool files are initialised in: any order of
  tools with distinct, nonempty names gives the same registry, sorted by name, in which every
  tool is found under its name and nothing else is; an empty or repeated name panics.
\<close>

theorem registry_order_independent:
  assumes "mset ts = mset us"
  shows "(distinct (map t_name ts) \<and> list_all (\<lambda>t. t_name t \<noteq> []) ts \<longleftrightarrow>
      (\<exists>r. register_all empty_registry ts = Inr r \<and> register_all empty_registry us = Inr r \<and>
         tool_names r = sort (map t_name ts) \<and>
         (\<forall>n t. lookup_tool r n = Some t \<longleftrightarrow> t \<in> set ts \<and> t_name t = n)))"
proof
  assume a: "distinct (map t_name ts) \<and> list_all (\<lambda>t. t_name t \<noteq> []) ts"
  have set: "set us = set ts" using assms by (metis set_mset_mset)
  have "mset (map t_name us) = mset (map t_name ts)" using assms by simp
  then have b: "distinct (map t_name us)" using a by (metis mset_eq_imp_distinct_iff)
  have rd: "distinct (map t_name (rev ts @ []))" "distinct (map t_name (rev us @ []))"
    using a b by (simp_all flip: rev_map)
  have "list_all (\<lambda>t. t_name t \<noteq> []) us" using a set by (simp add: list_all_iff)
  with register_all_ok [OF registry_ok_empty rd(1)] register_all_ok [OF registry_ok_empty rd(2)] a
  obtain r r' where r: "register_all empty_registry ts = Inr r" "registry_ok (rev ts) r"
    and r': "register_all empty_registry us = Inr r'" "registry_ok (rev us) r'" by auto
  have eq: "r' = r" using registry_ok_unique [OF r'(2) r(2)] assms by simp
  have "sorted (map t_name (registered r))" "mset (map t_name (registered r)) = mset (map t_name ts)"
    using r(2) by (simp_all add: registry_ok_def)
  then have "tool_names r = sort (map t_name ts)"
    by (metis properties_for_sort tool_names_def)
  moreover have "lookup_tool r n = Some t \<longleftrightarrow> t \<in> set ts \<and> t_name t = n" for n t
  proof -
    have d: "distinct (map fst (map (\<lambda>t. (t_name t, t)) (rev ts)))"
      using rd(1) by (simp add: comp_def)
    show ?thesis using r(2) map_of_eq_Some_iff [OF d, of n t]
      by (auto simp: lookup_tool_def registry_ok_def)
  qed
  ultimately show "\<exists>r. register_all empty_registry ts = Inr r \<and> register_all empty_registry us = Inr r \<and>
         tool_names r = sort (map t_name ts) \<and>
         (\<forall>n t. lookup_tool r n = Some t \<longleftrightarrow> t \<in> set ts \<and> t_name t = n)"
    using r(1) r'(1) eq by blast
next
  assume "\<exists>r. register_all empty_registry ts = Inr r \<and> register_all empty_registry us = Inr r \<and>
         tool_names r = sort (map t_name ts) \<and>
         (\<forall>n t. lookup_tool r n = Some t \<longleftrightarrow> t \<in> set ts \<and> t_name t = n)"
  then obtain r where "register_all empty_registry ts = Inr r" by blast
  then show "distinct (map t_name ts) \<and> list_all (\<lambda>t. t_name t \<noteq> []) ts"
    using register_all_accepts [OF _ registry_ok_empty] by blast
qed

definition sample_tool :: "string \<Rightarrow> (unit, unit) tool" where
  "sample_tool n = \<lparr>t_name = n, t_summary = [], t_usage = n, t_remote = None, t_local = None, t_serves = False,
     t_flags = Map.empty, t_flag_help = [], t_build = (\<lambda>_ _. Inr ''{}''), t_detail = None\<rparr>"

theorem registry_order_independent_witness:
  "\<exists>r. register_all empty_registry [sample_tool ''ps'', sample_tool ''disk''] = Inr r \<and>
    register_all empty_registry [sample_tool ''disk'', sample_tool ''ps''] = Inr r \<and> tool_names r = [''disk'', ''ps'']"
proof -
  let ?ts = "[sample_tool ''ps'', sample_tool ''disk'']"
  have "mset ?ts = mset [sample_tool ''disk'', sample_tool ''ps'']" by simp
  from registry_order_independent [OF this]
  have "\<exists>r. register_all empty_registry ?ts = Inr r \<and>
      register_all empty_registry [sample_tool ''disk'', sample_tool ''ps''] = Inr r \<and>
      tool_names r = sort (map t_name ?ts)"
    by (auto simp: sample_tool_def)
  moreover have "sort (map t_name ?ts) = [''disk'', ''ps'']" by code_simp
  ultimately show ?thesis by simp
qed

end
