(* ===== verification/Net_Conf.thy ===== *)
theory Net_Conf
  imports Go_Strings
begin

text \<open>
  Connection settings: \<open>internal/conf/conf.go\<close> and \<open>internal/netutil/netutil.go\<close>. The
  environment is a parameter, as \<open>os.Getenv\<close> and as the list \<open>os.Environ\<close> gives, and so is the
  lower-casing of a text with bytes outside ASCII. \<open>net.SplitHostPort\<close> and \<open>net.JoinHostPort\<close>
  are written out from the standard library.
\<close>

section \<open>Settings\<close>

definition resolve_setting :: "(string \<Rightarrow> string) \<Rightarrow> string \<Rightarrow> string \<Rightarrow> string \<Rightarrow> string" where
  "resolve_setting getenv flag_val env_key def =
     (if flag_val \<noteq> [] then flag_val
      else let env = getenv env_key in if env \<noteq> [] then env else def)"

definition env_db_prefix :: string where
  "env_db_prefix = ''RPEEK_DB_''"

text \<open>The alias and DSN of one environment entry, if it configures a database.\<close>

definition db_spec :: "(string \<Rightarrow> string) \<Rightarrow> string \<Rightarrow> (string \<times> string) option" where
  "db_spec lower kv =
     (case cut_at kv CHR ''='' of
        None \<Rightarrow> None
      | Some (key, val) \<Rightarrow>
          if val = [] then None
          else if \<not> has_prefix key env_db_prefix then None
          else let alias = lower (trim_prefix key env_db_prefix)
               in if alias = [] then None else Some (alias, val))"

definition db_specs :: "(string \<Rightarrow> string) \<Rightarrow> string list \<Rightarrow> string \<rightharpoonup> string" where
  "db_specs lower environ =
     foldl (\<lambda>m kv. case db_spec lower kv of None \<Rightarrow> m | Some (alias, val) \<Rightarrow> m(alias \<mapsto> val)) Map.empty environ"

section \<open>Addresses\<close>

definition default_port :: string where
  "default_port = ''7017''"

datatype addr_error = MissingPort | TooManyColons | MissingBracket | UnexpectedBracket

definition split_host_port :: "string \<Rightarrow> addr_error + string \<times> string" where
  "split_host_port hp =
     (case last_index_byte hp CHR '':'' of
        None \<Rightarrow> Inl MissingPort
      | Some i \<Rightarrow>
          let checked = (\<lambda>host j k.
                if CHR ''['' \<in> set (drop j hp) then Inl UnexpectedBracket
                else if CHR '']'' \<in> set (drop k hp) then Inl UnexpectedBracket
                else Inr (host, drop (Suc i) hp))
          in if hp ! 0 = CHR ''['' then
               (case index_byte hp CHR '']'' of
                  None \<Rightarrow> Inl MissingBracket
                | Some end \<Rightarrow>
                    if end + 1 = length hp then Inl MissingPort
                    else if end + 1 = i then checked (take (end - 1) (drop 1 hp)) 1 (end + 1)
                    else if hp ! (end + 1) = CHR '':'' then Inl TooManyColons
                    else Inl MissingPort)
             else if CHR '':'' \<in> set (take i hp) then Inl TooManyColons
             else checked (take i hp) 0 0)"

definition join_host_port :: "string \<Rightarrow> string \<Rightarrow> string" where
  "join_host_port host port =
     (if CHR '':'' \<in> set host then ''['' @ host @ '']:'' @ port else host @ '':'' @ port)"

datatype normalize_error = EmptyAddress | InvalidAddress string addr_error

definition normalize_addr :: "string \<Rightarrow> normalize_error + string" where
  "normalize_addr addr =
     (let addr = trim_space addr
      in if addr = [] then Inl EmptyAddress
         else case split_host_port addr of
           Inr (host, port) \<Rightarrow> if port = [] then Inr (join_host_port host default_port) else Inr addr
         | Inl _ \<Rightarrow>
             (let candidate = join_host_port addr default_port
              in case split_host_port candidate of
                   Inl e \<Rightarrow> Inl (InvalidAddress addr e)
                 | Inr _ \<Rightarrow> Inr candidate))"

section \<open>Splitting and joining\<close>

lemma last_index_byte_last [simp]: "c \<notin> set b \<Longrightarrow> last_index_byte (a @ c # b) c = Some (length a)"
  using index_byte_first [of c "rev b" "rev a"] by (simp add: last_index_byte_def)

lemma last_index_byte_cases:
  obtains "c \<notin> set s" "last_index_byte s c = None"
  | a b where "s = a @ c # b" "c \<notin> set b" "last_index_byte s c = Some (length a)"
proof (cases "c \<in> set s")
  case True
  then obtain a b where "s = a @ c # b" "c \<notin> set b" by (meson split_list_last)
  then show thesis using that(2) by simp
qed (use that(1) in \<open>simp add: last_index_byte_def\<close>)

text \<open>A host without brackets and a port without brackets or colons survive the round trip.\<close>

definition plain_host :: "string \<Rightarrow> bool" where
  "plain_host h \<longleftrightarrow> CHR ''['' \<notin> set h \<and> CHR '']'' \<notin> set h"

definition plain_port :: "string \<Rightarrow> bool" where
  "plain_port p \<longleftrightarrow> CHR '':'' \<notin> set p \<and> CHR ''['' \<notin> set p \<and> CHR '']'' \<notin> set p"

lemma host_port_join:
  assumes "plain_host h" "plain_port p"
  shows "split_host_port (join_host_port h p) = Inr (h, p)"
proof (cases "CHR '':'' \<in> set h")
  case True
  let ?hp = "(CHR ''['' # h @ [CHR '']'']) @ CHR '':'' # p"
  have "last_index_byte ?hp CHR '':'' = Some (length (CHR ''['' # h @ [CHR '']'']))"
    using assms(2) by (intro last_index_byte_last) (simp add: plain_port_def)
  moreover have "index_byte ((CHR ''['' # h) @ CHR '']'' # CHR '':'' # p) CHR '']'' = Some (length (CHR ''['' # h))"
    using assms(1) by (intro index_byte_first) (simp add: plain_host_def)
  ultimately show ?thesis using True assms
    by (simp add: split_host_port_def join_host_port_def plain_host_def plain_port_def)
next
  case False
  have "(h @ CHR '':'' # p) ! 0 \<noteq> CHR ''[''"
    using assms(1) by (cases h) (auto simp: plain_host_def)
  with False assms show ?thesis
    by (simp add: split_host_port_def join_host_port_def plain_host_def plain_port_def)
qed

text \<open>What splits has a bracket-free host and a colon-free port.\<close>

lemma split_plain:
  assumes "split_host_port hp = Inr (h, p)"
  shows "plain_host h \<and> plain_port p"
proof (rule last_index_byte_cases [of "CHR '':''" hp])
  assume "last_index_byte hp CHR '':'' = None"
  with assms show ?thesis by (simp add: split_host_port_def)
next
  fix a b assume hp: "hp = a @ CHR '':'' # b" "CHR '':'' \<notin> set b" "last_index_byte hp CHR '':'' = Some (length a)"
  show ?thesis
  proof (cases "hp ! 0 = CHR ''[''")
    case False
    with assms hp show ?thesis
      by (auto simp: split_host_port_def plain_host_def plain_port_def split: if_splits)
  next
    case True
    with assms hp obtain e where e: "index_byte hp CHR '']'' = Some e" "e + 1 = length a"
      "CHR ''['' \<notin> set (drop 1 hp)" "CHR '']'' \<notin> set (drop (e + 1) hp)" "h = take (e - 1) (drop 1 hp)" "p = b"
      by (auto simp: split_host_port_def Let_def split: option.splits if_splits)
    obtain u v where uv: "hp = u @ CHR '']'' # v" "CHR '']'' \<notin> set u" "e = length u"
      by (rule index_byte_cases [of "CHR '']''" hp]) (use e(1) in auto)
    from True uv have "u \<noteq> []" by (cases u) auto
    then obtain x us where u: "u = x # us" by (cases u) auto
    have "h = us" using e(5) uv u by simp
    moreover have "CHR ''['' \<notin> set us" using e(3) uv u by auto
    moreover have "set b \<subseteq> set (drop (e + 1) hp)" using hp(1) e(2) by auto
    moreover have "set b \<subseteq> set (drop 1 hp)" using hp(1) e(2) uv(3) u by (cases a) auto
    ultimately show ?thesis using e(3,4,6) uv(2) u hp(2) by (auto simp: plain_host_def plain_port_def)
  qed
qed

lemma split_port:
  assumes "split_host_port (a @ CHR '':'' # b) = Inr (h, p)" "CHR '':'' \<notin> set b"
  shows "p = b"
  using assms by (simp add: split_host_port_def Let_def split: option.splits if_splits)

lemma split_join_port:
  assumes "split_host_port (join_host_port s default_port) = Inr (h, p)"
  shows "p = default_port"
proof -
  have "CHR '':'' \<notin> set default_port" by (simp add: default_port_def)
  moreover have "\<exists>a. join_host_port s default_port = a @ CHR '':'' # default_port"
    by (auto simp: join_host_port_def intro: exI [of _ "CHR ''['' # s @ [CHR '']'']"])
  ultimately show ?thesis using assms split_port by metis
qed

lemma plain_default: "plain_port default_port"
  by (simp add: plain_port_def default_port_def)

section \<open>Properties\<close>

text \<open>
  A normalised address is a host and a port: it splits, its port is not empty, and it is the
  default port unless the address, without surrounding space, already named one, when it is
  returned as it is. Normalising it again changes nothing unless it starts or ends with space.
\<close>

theorem normalize_gives_host_port:
  assumes "normalize_addr addr = Inr a"
  shows "\<exists>host port. split_host_port a = Inr (host, port) \<and> port \<noteq> [] \<and>
    (a = trim_space addr \<or> port = ''7017'') \<and> (trim_space a = a \<and> a \<noteq> [] \<longrightarrow> normalize_addr a = Inr a)"
proof -
  have "\<exists>host port. split_host_port a = Inr (host, port) \<and> port \<noteq> [] \<and> (a = trim_space addr \<or> port = ''7017'')"
  proof (cases "split_host_port (trim_space addr)")
    case (Inl e)
    then obtain h p where "a = join_host_port (trim_space addr) default_port" "split_host_port a = Inr (h, p)"
      using assms by (auto simp: normalize_addr_def Let_def split: if_splits sum.splits)
    then show ?thesis using split_join_port by (auto simp: default_port_def)
  next
    case (Inr r)
    obtain h p where r: "r = (h, p)" by force
    with Inr split_plain have "plain_host h" by blast
    then show ?thesis using assms Inr r host_port_join [OF _ plain_default, of h]
      by (auto simp: normalize_addr_def Let_def default_port_def split: if_splits)
  qed
  moreover from this have "trim_space a = a \<Longrightarrow> a \<noteq> [] \<Longrightarrow> normalize_addr a = Inr a"
    by (auto simp: normalize_addr_def)
  ultimately show ?thesis by blast
qed

theorem normalize_gives_host_port_witness:
  "normalize_addr '' ::1 '' = Inr ''[::1]:7017'' \<and> normalize_addr ''[::1]:7017'' = Inr ''[::1]:7017''"
proof -
  have a: "normalize_addr '' ::1 '' = Inr ''[::1]:7017''" by code_simp
  moreover have "trim_space ''[::1]:7017'' = ''[::1]:7017''" by code_simp
  ultimately show ?thesis using normalize_gives_host_port [OF a] by blast
qed

text \<open>
  A bracketed IPv6 address without a port is refused, although brackets are how the code itself
  writes one with a port.
\<close>

lemma bracketed_host_refused: "normalize_addr ''[::1]'' = Inl (InvalidAddress ''[::1]'' MissingPort)"
  by code_simp

end
