(* ===== verification/Dbconn.thy ===== *)
theory Dbconn
  imports Net_Conf Sqlq_Catalog
begin

text \<open>
  The configured databases: \<open>internal/dbconn/dbconn.go\<close>, the \<open>--db\<close> flags and the merging of
  the two configuration sources in \<open>internal/tools/tool_serve.go\<close>, and the lookup of an alias in
  \<open>internal/tools/tool_db.go\<close>.

  Parameters, in the record \<open>drivers\<close>: \<open>url.Parse\<close>, \<open>sql.Open\<close> with the pool settings applied
  to what it returns, and of the MySQL driver \<open>NewConfig\<close> and \<open>FormatDSN\<close>. The random order in
  which Go ranges over the map of DSNs is the order of the list \<open>db_new\<close> is given.
\<close>

record url =
  u_host :: string
  u_user :: string
  u_password :: "string option"
  u_path :: string
  u_query :: "(string \<times> string list) list"

record mysql_config =
  my_net :: string
  my_addr :: string
  my_user :: string
  my_passwd :: string
  my_dbname :: string
  my_params :: "string \<rightharpoonup> string"
  my_multi_statements :: bool
  my_allow_all_files :: bool

record ('e, 'd) drivers =
  dr_url_parse :: "string \<Rightarrow> 'e + url"
  dr_new_config :: mysql_config
  dr_format_dsn :: "mysql_config \<Rightarrow> string"
  dr_sql_open :: "string \<Rightarrow> string \<Rightarrow> 'e + 'd"
  dr_close :: "'d \<Rightarrow> 'e option"

record 'd conn =
  c_db :: 'd
  c_engine :: engine
  c_host :: string

record 'd db_registry =
  dr_conns :: "string \<rightharpoonup> 'd conn"
  dr_aliases :: "string list"

datatype 'e db_error =
    UnrecognizedDSN string
  | BadMysqlURL 'e
  | OpenFailed 'e
  | BadAlias string
  | AliasFailed string "'e db_error"

section \<open>DSNs\<close>

definition alias_ok :: "string \<Rightarrow> bool" where
  "alias_ok s \<longleftrightarrow> s \<noteq> [] \<and> is_letter (hd s) \<and> list_all is_ident_char (tl s)"

definition url_host :: "('e, 'd) drivers \<Rightarrow> string \<Rightarrow> string" where
  "url_host D dsn = (case dr_url_parse D dsn of Inl _ \<Rightarrow> [] | Inr u \<Rightarrow> u_host u)"

definition harden_mysql_config :: "mysql_config \<Rightarrow> mysql_config" where
  "harden_mysql_config cfg =
     cfg\<lparr>my_multi_statements := False, my_allow_all_files := False,
         my_params := (my_params cfg)(''multiStatements'' := None, ''allowAllFiles'' := None)\<rparr>"

definition mysql_config_of :: "('e, 'd) drivers \<Rightarrow> url \<Rightarrow> mysql_config" where
  "mysql_config_of D u =
     (let cfg = (dr_new_config D)\<lparr>my_net := ''tcp'', my_addr := u_host u, my_user := u_user u\<rparr>;
          cfg = (case u_password u of Some pw \<Rightarrow> cfg\<lparr>my_passwd := pw\<rparr> | None \<Rightarrow> cfg);
          cfg = cfg\<lparr>my_dbname := trim_prefix (u_path u) ''/''\<rparr>;
          cfg = (if u_query u \<noteq> [] then cfg\<lparr>my_params := map_of (map (\<lambda>(k, vs). (k, last vs)) (u_query u))\<rparr> else cfg)
      in harden_mysql_config cfg)"

definition mysql_url_to_dsn :: "('e, 'd) drivers \<Rightarrow> string \<Rightarrow> 'e db_error + string \<times> string" where
  "mysql_url_to_dsn D dsn =
     (case dr_url_parse D dsn of
        Inl e \<Rightarrow> Inl (BadMysqlURL e)
      | Inr u \<Rightarrow> Inr (dr_format_dsn D (mysql_config_of D u), u_host u))"

definition sqlite_dsn :: "string \<Rightarrow> string \<times> string" where
  "sqlite_dsn dsn =
     (let path = trim_prefix dsn ''sqlite://'';
          display_path = (case index_byte path CHR ''?'' of Some i \<Rightarrow> take i path | None \<Rightarrow> path);
          sep = (if CHR ''?'' \<in> set path then ''&'' else ''?'')
      in (''file:'' @ path @ sep @ ''_pragma=query_only(1)'', display_path))"

definition resolve_dsn ::
  "('e, 'd) drivers \<Rightarrow> string \<Rightarrow> 'e db_error + engine \<times> string \<times> string \<times> string" where
  "resolve_dsn D dsn =
     (if has_prefix dsn ''postgres://'' then Inr (EnginePostgres, ''pgx'', dsn, url_host D dsn)
      else if has_prefix dsn ''mysql://'' then
        bind_res (mysql_url_to_dsn D dsn) (\<lambda>(open_dsn, host). Inr (EngineMySQL, ''mysql'', open_dsn, host))
      else if has_prefix dsn ''sqlite://'' then
        (let (open_dsn, host) = sqlite_dsn dsn in Inr (EngineSQLite, ''sqlite'', open_dsn, host))
      else Inl (UnrecognizedDSN dsn))"

definition open_conn :: "('e, 'd) drivers \<Rightarrow> string \<Rightarrow> 'e db_error + 'd conn" where
  "open_conn D dsn =
     bind_res (resolve_dsn D dsn) (\<lambda>(engine, driver, open_dsn, host).
       case dr_sql_open D driver open_dsn of
         Inl e \<Rightarrow> Inl (OpenFailed e)
       | Inr db \<Rightarrow> Inr \<lparr>c_db = db, c_engine = engine, c_host = host\<rparr>)"

section \<open>The registry\<close>

text \<open>
  \<open>Close\<close> closes every connection, in the order the map gives them, and returns the first error.
  The handles closed are part of the result.
\<close>

fun db_close :: "('e, 'd) drivers \<Rightarrow> 'd conn list \<Rightarrow> 'd list \<times> 'e option" where
  "db_close D [] = ([], None)"
| "db_close D (c # cs) =
     (let (rest, rest_err) = db_close D cs
      in (c_db c # rest, case dr_close D (c_db c) of Some e \<Rightarrow> Some e | None \<Rightarrow> rest_err))"

definition db_conns :: "'d db_registry \<Rightarrow> 'd conn list" where
  "db_conns reg = List.map_filter (dr_conns reg) (dr_aliases reg)"

text \<open>
  \<open>New\<close>, over the specs in the order the map gives them. A failure comes with the handles it
  closed on the way out.
\<close>

fun db_new_loop ::
  "('e, 'd) drivers \<Rightarrow> 'd db_registry \<Rightarrow> (string \<times> string) list \<Rightarrow>
   ('e db_error \<times> 'd list) + 'd db_registry" where
  "db_new_loop D reg [] = Inr reg"
| "db_new_loop D reg ((alias, dsn) # specs) =
     (if \<not> alias_ok alias then Inl (BadAlias alias, fst (db_close D (db_conns reg)))
      else case open_conn D dsn of
        Inl e \<Rightarrow> Inl (AliasFailed alias e, fst (db_close D (db_conns reg)))
      | Inr conn \<Rightarrow>
          db_new_loop D \<lparr>dr_conns = (dr_conns reg)(alias \<mapsto> conn), dr_aliases = dr_aliases reg @ [alias]\<rparr> specs)"

definition db_new ::
  "('e, 'd) drivers \<Rightarrow> (string \<times> string) list \<Rightarrow> ('e db_error \<times> 'd list) + 'd db_registry" where
  "db_new D specs =
     bind_res (db_new_loop D \<lparr>dr_conns = Map.empty, dr_aliases = []\<rparr> specs)
       (\<lambda>reg. Inr (reg\<lparr>dr_aliases := sort (dr_aliases reg)\<rparr>))"

text \<open>
  \<open>BeginReadOnly\<close>: the transaction and the statements executed in it; \<open>begin_tx\<close> is
  \<open>BeginTx\<close> with the read-only option, \<open>exec\<close> the execution of a statement. The timeout is in
  nanoseconds.
\<close>

definition timeout_statement :: "engine \<Rightarrow> int \<Rightarrow> int option" where
  "timeout_statement eng timeout =
     (if timeout > 0 \<and> eng = EnginePostgres then Some (timeout div 1000000) else None)"

definition begin_read_only ::
  "('d \<Rightarrow> bool \<Rightarrow> 'e + 't) \<Rightarrow> ('t \<Rightarrow> int \<Rightarrow> 'e option) \<Rightarrow> 'd conn \<Rightarrow> int \<Rightarrow> 'e + 't" where
  "begin_read_only begin_tx exec c timeout =
     bind_res (begin_tx (c_db c) True) (\<lambda>tx.
       case timeout_statement (c_engine c) timeout of
         None \<Rightarrow> Inr tx
       | Some ms \<Rightarrow> (case exec tx ms of Some e \<Rightarrow> Inl e | None \<Rightarrow> Inr tx))"

section \<open>Configuration sources\<close>

datatype flag_error = BadSpec string | DuplicateAlias string

fun kv_pairs_loop ::
  "(string \<Rightarrow> string) \<Rightarrow> (string \<rightharpoonup> string) \<Rightarrow> string list \<Rightarrow> flag_error + (string \<rightharpoonup> string)" where
  "kv_pairs_loop lower m [] = Inr m"
| "kv_pairs_loop lower m (spec # specs) =
     (case cut_at spec CHR ''='' of
        None \<Rightarrow> Inl (BadSpec spec)
      | Some (alias, dsn) \<Rightarrow>
          if alias = [] \<or> dsn = [] then Inl (BadSpec spec)
          else let alias = lower alias
               in if m alias \<noteq> None then Inl (DuplicateAlias alias)
                  else kv_pairs_loop lower (m(alias \<mapsto> dsn)) specs)"

definition kv_pairs :: "(string \<Rightarrow> string) \<Rightarrow> string list \<Rightarrow> flag_error + (string \<rightharpoonup> string)" where
  "kv_pairs lower k = kv_pairs_loop lower Map.empty k"

text \<open>\<open>Serve\<close> writes the pairs of the flags over those of the environment.\<close>

definition merged_specs :: "(string \<rightharpoonup> string) \<Rightarrow> (string \<rightharpoonup> string) \<Rightarrow> string \<rightharpoonup> string" where
  "merged_specs env_specs flag_specs = env_specs ++ flag_specs"

datatype lookup_error = NoDatabases | AliasRequired "string list" | UnknownAlias string "string list"

definition db_lookup ::
  "(string \<Rightarrow> string) \<Rightarrow> 'd db_registry option \<Rightarrow> string \<Rightarrow> lookup_error + 'd conn" where
  "db_lookup lower db alias =
     (case db of
        None \<Rightarrow> Inl NoDatabases
      | Some reg \<Rightarrow>
          if dr_aliases reg = [] then Inl NoDatabases
          else if alias = [] then Inl (AliasRequired (dr_aliases reg))
          else case dr_conns reg (lower alias) of
            None \<Rightarrow> Inl (UnknownAlias alias (dr_aliases reg))
          | Some c \<Rightarrow> Inr c)"

text \<open>
  A positive timeout below a millisecond is sent as zero, which to PostgreSQL is no timeout.
\<close>

lemma sub_millisecond_timeout:
  "0 < t \<Longrightarrow> t < 1000000 \<Longrightarrow> timeout_statement EnginePostgres t = Some 0"
  by (simp add: timeout_statement_def)

section \<open>What the registry holds\<close>

text \<open>A failed \<open>New\<close> leaves nothing open: it closes one handle for each alias registered so far.\<close>

lemma db_close_all: "fst (db_close D cs) = map c_db cs"
  by (induction cs) (auto split: prod.split)

lemma db_close_first_error: "snd (db_close D cs) = None \<longleftrightarrow> (\<forall>c\<in>set cs. dr_close D (c_db c) = None)"
  by (induction cs) (auto split: prod.split option.split)

lemma alias_ok_ident: "alias_ok s \<longleftrightarrow> valid_ident s"
  by (cases s) (auto simp: alias_ok_def valid_ident_def)

lemma db_new_loop_ok:
  "db_new_loop D reg specs = Inr reg' \<Longrightarrow> distinct (map fst specs) \<Longrightarrow>
     dr_aliases reg' = dr_aliases reg @ map fst specs \<and> list_all alias_ok (map fst specs) \<and>
     (\<forall>a. dr_conns reg' a = (case map_of specs a of None \<Rightarrow> dr_conns reg a
        | Some dsn \<Rightarrow> (case open_conn D dsn of Inr c \<Rightarrow> Some c | Inl _ \<Rightarrow> None))) \<and>
     (\<forall>a dsn. map_of specs a = Some dsn \<longrightarrow> (\<exists>c. open_conn D dsn = Inr c))"
proof (induction specs arbitrary: reg)
  case (Cons s specs)
  obtain al dsn where s: "s = (al, dsn)" by force
  from Cons.prems(1) s obtain c where c: "alias_ok al" "open_conn D dsn = Inr c"
    "db_new_loop D \<lparr>dr_conns = (dr_conns reg)(al \<mapsto> c), dr_aliases = dr_aliases reg @ [al]\<rparr> specs = Inr reg'"
    by (auto split: if_splits sum.splits)
  have "map_of specs al = None" using Cons.prems(2) s by (simp add: map_of_eq_None_iff image_image)
  with Cons.IH [OF c(3)] Cons.prems(2) s c(1,2) show ?case by (auto split: option.split)
qed simp

lemma db_new_ok:
  assumes "db_new D specs = Inr reg" "distinct (map fst specs)"
  shows "dr_aliases reg = sort (map fst specs)" "list_all alias_ok (map fst specs)"
    "dr_conns reg a = Some c \<longleftrightarrow> (\<exists>dsn. map_of specs a = Some dsn \<and> open_conn D dsn = Inr c)"
    "a \<in> fst ` set specs \<Longrightarrow> \<exists>c. dr_conns reg a = Some c"
proof -
  from assms(1) obtain r where r: "db_new_loop D \<lparr>dr_conns = Map.empty, dr_aliases = []\<rparr> specs = Inr r"
    "reg = r\<lparr>dr_aliases := sort (dr_aliases r)\<rparr>"
    by (auto simp: db_new_def res_simps)
  note ok = db_new_loop_ok [OF r(1) assms(2)]
  then show "dr_aliases reg = sort (map fst specs)" "list_all alias_ok (map fst specs)"
    using r(2) by simp_all
  have conns: "dr_conns reg a = (case map_of specs a of None \<Rightarrow> None
        | Some dsn \<Rightarrow> (case open_conn D dsn of Inr c \<Rightarrow> Some c | Inl _ \<Rightarrow> None))" for a
    using ok r(2) by (auto split: option.split)
  show "dr_conns reg a = Some c \<longleftrightarrow> (\<exists>dsn. map_of specs a = Some dsn \<and> open_conn D dsn = Inr c)"
    by (auto simp: conns split: option.splits sum.splits)
  assume "a \<in> fst ` set specs"
  then obtain dsn where "map_of specs a = Some dsn" by (metis map_of_eq_None_iff not_None_eq)
  moreover from this ok obtain c where "open_conn D dsn = Inr c" by blast
  ultimately show "\<exists>c. dr_conns reg a = Some c" by (simp add: conns)
qed

text \<open>
  What makes a connection opened for a DSN safe, by its engine: the driver, and the string it was
  opened with. PostgreSQL is opened with the DSN itself. MySQL is opened with the host, user,
  password, database and parameters of the URL, less what would switch on multiple statements or
  local files. SQLite is opened with the path and the parameters of the DSN, and the pragma last.
\<close>

definition hardened :: "('e, 'd) drivers \<Rightarrow> string \<Rightarrow> 'd conn \<Rightarrow> bool" where
  "hardened D dsn c \<longleftrightarrow>
     (case c_engine c of
        EnginePostgres \<Rightarrow> has_prefix dsn ''postgres://'' \<and> dr_sql_open D ''pgx'' dsn = Inr (c_db c)
      | EngineMySQL \<Rightarrow> has_prefix dsn ''mysql://'' \<and>
          (\<exists>u cfg. dr_url_parse D dsn = Inr u \<and> dr_sql_open D ''mysql'' (dr_format_dsn D cfg) = Inr (c_db c) \<and>
             c_host c = u_host u \<and> my_net cfg = ''tcp'' \<and> my_addr cfg = u_host u \<and> my_user cfg = u_user u \<and>
             (\<forall>pw. u_password u = Some pw \<longrightarrow> my_passwd cfg = pw) \<and>
             my_dbname cfg = trim_prefix (u_path u) ''/'' \<and>
             (\<forall>k. u_query u \<noteq> [] \<longrightarrow> k \<notin> {''multiStatements'', ''allowAllFiles''} \<longrightarrow>
                my_params cfg k = map_option last (map_of (u_query u) k)) \<and>
             \<not> my_multi_statements cfg \<and> \<not> my_allow_all_files cfg \<and>
             my_params cfg ''multiStatements'' = None \<and> my_params cfg ''allowAllFiles'' = None)
      | EngineSQLite \<Rightarrow>
          (\<exists>given params. dsn = ''sqlite://'' @ c_host c @ given \<and> CHR ''?'' \<notin> set (c_host c) \<and>
             dr_sql_open D ''sqlite'' (''file:'' @ c_host c @ ''?'' @ params) = Inr (c_db c) \<and>
             (given = [] \<and> params = ''_pragma=query_only(1)'' \<or>
              (\<exists>asked. given = ''?'' @ asked \<and> params = asked @ ''&_pragma=query_only(1)''))))"

lemma sqlite_dsn_hardened:
  assumes "sqlite_dsn dsn = (o', host)" "has_prefix dsn ''sqlite://''"
  shows "\<exists>given params. dsn = ''sqlite://'' @ host @ given \<and> CHR ''?'' \<notin> set host \<and>
     o' = ''file:'' @ host @ ''?'' @ params \<and>
     (given = [] \<and> params = ''_pragma=query_only(1)'' \<or>
      (\<exists>asked. given = ''?'' @ asked \<and> params = asked @ ''&_pragma=query_only(1)''))"
proof -
  from assms(2) obtain path where path: "dsn = ''sqlite://'' @ path" unfolding has_prefix_iff by blast
  then have trim: "trim_prefix dsn ''sqlite://'' = path" by (simp add: trim_prefix_def has_prefix_iff)
  show ?thesis
  proof (rule index_byte_cases [of "CHR ''?''" path])
    assume "CHR ''?'' \<notin> set path"
    then show ?thesis using assms(1) path trim by (auto simp: sqlite_dsn_def Let_def)
  next
    fix a b assume "path = a @ CHR ''?'' # b" "CHR ''?'' \<notin> set a"
    then show ?thesis using assms(1) path trim by (auto simp: sqlite_dsn_def Let_def)
  qed
qed

lemma mysql_config_hardened:
  "my_net (mysql_config_of D u) = ''tcp''" "my_addr (mysql_config_of D u) = u_host u"
  "my_user (mysql_config_of D u) = u_user u" "my_dbname (mysql_config_of D u) = trim_prefix (u_path u) ''/''"
  "u_password u = Some pw \<Longrightarrow> my_passwd (mysql_config_of D u) = pw"
  "u_query u \<noteq> [] \<Longrightarrow> k \<notin> {''multiStatements'', ''allowAllFiles''} \<Longrightarrow>
     my_params (mysql_config_of D u) k = map_option last (map_of (u_query u) k)"
  "\<not> my_multi_statements (mysql_config_of D u)" "\<not> my_allow_all_files (mysql_config_of D u)"
  "my_params (mysql_config_of D u) ''multiStatements'' = None"
  "my_params (mysql_config_of D u) ''allowAllFiles'' = None"
  by (simp_all add: mysql_config_of_def harden_mysql_config_def Let_def map_of_map split: option.split)

lemma open_conn_hardened: "open_conn D dsn = Inr c \<Longrightarrow> hardened D dsn c"
proof -
  assume c: "open_conn D dsn = Inr c"
  then obtain e d o' h where r: "resolve_dsn D dsn = Inr (e, d, o', h)" "dr_sql_open D d o' = Inr (c_db c)"
    "c_engine c = e" "c_host c = h"
  proof -
    from c obtain e d o' h where "resolve_dsn D dsn = Inr (e, d, o', h)"
      "(case dr_sql_open D d o' of Inl e \<Rightarrow> Inl (OpenFailed e)
        | Inr db \<Rightarrow> Inr \<lparr>c_db = db, c_engine = e, c_host = h\<rparr>) = Inr c"
      by (auto simp: open_conn_def res_simps)
    then show thesis using that by (cases "dr_sql_open D d o'") auto
  qed
  from r(1) consider "has_prefix dsn ''postgres://''" "(e, d, o') = (EnginePostgres, ''pgx'', dsn)"
    | u where "has_prefix dsn ''mysql://''" "e = EngineMySQL" "d = ''mysql''" "dr_url_parse D dsn = Inr u"
        "o' = dr_format_dsn D (mysql_config_of D u)" "h = u_host u"
    | "has_prefix dsn ''sqlite://''" "e = EngineSQLite" "d = ''sqlite''" "sqlite_dsn dsn = (o', h)"
    by (auto simp: resolve_dsn_def mysql_url_to_dsn_def res_simps split: if_splits sum.splits prod.splits)
  then show ?thesis
  proof cases
    case 1
    then show ?thesis using r by (auto simp: hardened_def)
  next
    case (2 u)
    with r mysql_config_hardened [where D = D and u = u] show ?thesis
      unfolding hardened_def by (auto intro!: exI [of _ "mysql_config_of D u"])
  next
    case 3
    with sqlite_dsn_hardened [OF 3(4,1)] r show ?thesis by (auto simp: hardened_def)
  qed
qed

section \<open>Properties\<close>

text \<open>
  C11: Every connection of the registry was opened hardened from a DSN configured for its alias,
  whatever the DSN asked for: PostgreSQL with exactly that DSN; MySQL over TCP to the displayed host,
  with the DSN's user, password, database and parameters but multiple statements and local files
  off, in the struct and in the parameters that would switch them on again; SQLite on the displayed
  path with \<open>query_only\<close> as the last parameter; and nothing but the three schemes is accepted.
\<close>

theorem connections_hardened:
  assumes "db_new D specs = Inr reg" "distinct (map fst specs)" "dr_conns reg al = Some c"
  shows "\<exists>dsn. (al, dsn) \<in> set specs \<and> hardened D dsn c \<and>
    (has_prefix dsn ''postgres://'' \<or> has_prefix dsn ''mysql://'' \<or> has_prefix dsn ''sqlite://'')"
proof -
  from db_new_ok(3) [OF assms(1,2)] assms(3) obtain dsn where
    dsn: "map_of specs al = Some dsn" "open_conn D dsn = Inr c" by blast
  have "has_prefix dsn ''postgres://'' \<or> has_prefix dsn ''mysql://'' \<or> has_prefix dsn ''sqlite://''"
    using dsn(2) by (auto simp: open_conn_def resolve_dsn_def res_simps split: if_splits)
  then show ?thesis using open_conn_hardened [OF dsn(2)] map_of_SomeD [OF dsn(1)] by blast
qed

lemma kv_pairs_loop_lower:
  "kv_pairs_loop lower m specs = Inr m' \<Longrightarrow> dom m \<subseteq> range lower \<Longrightarrow> dom m' \<subseteq> range lower"
proof (induction lower m specs rule: kv_pairs_loop.induct)
  case (2 lower m spec specs)
  from "2.prems"(1) obtain al dsn where cut: "cut_at spec CHR ''='' = Some (al, dsn)"
    "\<not> (al = [] \<or> dsn = [])" "\<not> m (lower al) \<noteq> None"
    "kv_pairs_loop lower (m(lower al \<mapsto> dsn)) specs = Inr m'"
    by (auto simp: Let_def split: option.splits if_splits)
  have "dom (m(lower al \<mapsto> dsn)) \<subseteq> range lower" using "2.prems"(2) by auto
  with "2.IH" [OF cut(1) refl cut(2) refl cut(3) cut(4)] show ?case .
qed simp

lemma db_specs_lower: "dom (db_specs lower environ) \<subseteq> range lower"
proof -
  have step: "db_spec lower kv = Some (al, v) \<Longrightarrow> al \<in> range lower" for kv al v
    by (auto simp: db_spec_def Let_def split: option.splits if_splits)
  have "dom m \<subseteq> range lower \<Longrightarrow>
      dom (foldl (\<lambda>m kv. case db_spec lower kv of None \<Rightarrow> m | Some (al, val) \<Rightarrow> m(al \<mapsto> val)) m environ) \<subseteq> range lower"
    for m
  proof (induction environ arbitrary: m)
    case (Cons kv environ)
    show ?case
    proof (cases "db_spec lower kv")
      case (Some av)
      obtain al v where av: "av = (al, v)" by force
      have "dom (m(al \<mapsto> v)) \<subseteq> range lower" using Cons.prems step [of kv al v] Some av by auto
      from Cons.IH [OF this] show ?thesis unfolding foldl_Cons Some av option.case prod.case .
    qed (use Cons in simp)
  qed simp
  then show ?thesis by (simp add: db_specs_def)
qed

lemma lower_to_ascii: "is_ascii (to_lower a) \<Longrightarrow> is_ascii a"
proof -
  have "(of_char (ascii_lower c) :: nat) < 128 \<Longrightarrow> (of_char c :: nat) < 128" for c
    by (simp add: of_char_ascii_lower split: if_splits)
  then show "is_ascii (to_lower a) \<Longrightarrow> is_ascii a" by (auto simp: is_ascii_def to_lower_def list_all_iff)
qed

text \<open>
  C34: Every configured database can be reached, in any casing of its alias: when the server starts,
  an alias configured in the environment or by a flag is in lower case and is listed, and any
  spelling that lower-cases to it looks up the connection opened for it, from the flag's DSN if both
  sources configure it. (Lower-casing is assumed to leave no upper-case ASCII letter.)
\<close>

theorem aliases_reachable:
  assumes "\<forall>s. to_lower (ul s) = ul s" "kv_pairs (go_lower ul) flags = Inr fm"
    and "set specs = {(a, d). merged_specs (db_specs (go_lower ul) environ) fm a = Some d}" "distinct (map fst specs)"
    and "db_new D specs = Inr reg" "al \<in> dom fm \<union> dom (db_specs (go_lower ul) environ)"
  shows "to_lower al = al \<and> al \<in> set (dr_aliases reg) \<and> (\<exists>c dsn. open_conn D dsn = Inr c \<and>
    (case fm al of Some d \<Rightarrow> dsn = d | None \<Rightarrow> db_specs (go_lower ul) environ al = Some dsn) \<and>
    (\<forall>a. to_lower a = al \<longrightarrow> db_lookup (go_lower ul) (Some reg) a = Inr c))"
proof -
  have "al \<in> dom (merged_specs (db_specs (go_lower ul) environ) fm)"
    using assms(6) by (simp add: merged_specs_def)
  then obtain dsn0 where "merged_specs (db_specs (go_lower ul) environ) fm al = Some dsn0" by blast
  then have "(al, dsn0) \<in> set specs" using assms(3) by blast
  then have al: "al \<in> fst ` set specs" by force
  then have listed: "al \<in> set (dr_aliases reg)" using db_new_ok(1) [OF assms(5,4)] by simp
  from al db_new_ok(4) [OF assms(5,4)] obtain c where c: "dr_conns reg al = Some c" by blast
  from db_new_ok(3) [OF assms(5,4)] c obtain dsn where dsn: "map_of specs al = Some dsn" "open_conn D dsn = Inr c"
    by blast
  from map_of_SomeD [OF dsn(1)] have m: "merged_specs (db_specs (go_lower ul) environ) fm al = Some dsn"
    using assms(3) by blast
  then have src: "case fm al of Some d \<Rightarrow> dsn = d | None \<Rightarrow> db_specs (go_lower ul) environ al = Some dsn"
    by (auto simp: merged_specs_def map_add_Some_iff split: option.split)
  have "dom fm \<subseteq> range (go_lower ul)"
    using kv_pairs_loop_lower [of "go_lower ul" Map.empty flags fm] assms(2) by (simp add: kv_pairs_def)
  then have "al \<in> range (go_lower ul)" using m db_specs_lower [of "go_lower ul" environ]
    by (auto simp: merged_specs_def map_add_Some_iff)
  then have low: "to_lower al = al" using assms(1) by (auto simp: go_lower_def)
  have ok: "alias_ok al" using db_new_ok(2) [OF assms(5,4)] al by (auto simp: list_all_iff)
  then have "al \<noteq> []" "is_ascii al"
    using valid_ident_ascii by (simp_all add: alias_ok_ident) (simp add: valid_ident_def)
  moreover have "dr_aliases reg \<noteq> []" using listed by auto
  ultimately have "db_lookup (go_lower ul) (Some reg) a = Inr c" if "to_lower a = al" for a
    using that c lower_to_ascii [of a] by (auto simp: db_lookup_def go_lower_def)
  with dsn(2) src low listed show ?thesis by blast
qed

definition sample_drivers :: "(unit, string) drivers" where
  "sample_drivers = \<lparr>dr_url_parse = (\<lambda>_. Inl ()),
     dr_new_config = \<lparr>my_net = [], my_addr = [], my_user = [], my_passwd = [], my_dbname = [],
       my_params = Map.empty, my_multi_statements = False, my_allow_all_files = False\<rparr>,
     dr_format_dsn = my_addr, dr_sql_open = (\<lambda>_ dsn. Inr dsn), dr_close = (\<lambda>_. None)\<rparr>"

definition sample_registry :: "string db_registry" where
  "sample_registry = \<lparr>dr_conns = [''app'' \<mapsto> \<lparr>c_db = ''file:/x?_pragma=query_only(1)'',
       c_engine = EngineSQLite, c_host = ''/x''\<rparr>], dr_aliases = [''app'']\<rparr>"

lemma sample_opens: "open_conn sample_drivers ''sqlite:///x'' =
    Inr \<lparr>c_db = ''file:/x?_pragma=query_only(1)'', c_engine = EngineSQLite, c_host = ''/x''\<rparr>"
  by code_simp

lemma sample_db_new: "db_new sample_drivers [(''app'', ''sqlite:///x'')] = Inr sample_registry"
proof -
  have "alias_ok ''app''" by code_simp
  then show ?thesis by (simp add: db_new_def sample_opens sample_registry_def)
qed

theorem connections_hardened_witness:
  "hardened sample_drivers ''sqlite:///x'' \<lparr>c_db = ''file:/x?_pragma=query_only(1)'', c_engine = EngineSQLite, c_host = ''/x''\<rparr>"
  using connections_hardened [OF sample_db_new, of "''app''"] by (simp add: sample_registry_def)

theorem aliases_reachable_witness:
  "db_lookup (go_lower to_lower) (Some sample_registry) ''App'' =
     Inr \<lparr>c_db = ''file:/x?_pragma=query_only(1)'', c_engine = EngineSQLite, c_host = ''/x''\<rparr>"
proof -
  have f: "kv_pairs (go_lower to_lower) [''App=sqlite:///x''] = Inr [''app'' \<mapsto> ''sqlite:///x'']"
  proof -
    have "cut_at ''App=sqlite:///x'' CHR ''='' = Some (''App'', ''sqlite:///x'')" "go_lower to_lower ''App'' = ''app''"
      by code_simp+
    then show ?thesis by (simp add: kv_pairs_def)
  qed
  have s: "set [(''app'', ''sqlite:///x'')] =
      {(a, d). merged_specs (db_specs (go_lower to_lower) []) [''app'' \<mapsto> ''sqlite:///x''] a = Some d}"
    by (auto simp: merged_specs_def db_specs_def split: if_splits)
  have "to_lower ''App'' = ''app''" by code_simp
  with aliases_reachable [OF _ f s _ sample_db_new, of "''app''"]
  show ?thesis by (auto simp: sample_registry_def sample_opens)
qed

end
