(* ===== verification/Go_Utf8.thy ===== *)
theory Go_Utf8
  imports Prelude
begin

text \<open>
  Counting the runes of a byte string as \<open>utf8.RuneCountInString\<close> does, and padding to a width in
  runes, as the verbs \<open>%-8s\<close> and \<open>%8s\<close> of \<open>fmt\<close> do; and the text a string becomes on its way through
  JSON, where \<open>encoding/json\<close> replaces each byte that is not UTF-8 by the replacement character.
\<close>

section \<open>Counting runes\<close>

definition cont_byte :: "nat \<Rightarrow> bool" where
  "cont_byte b \<longleftrightarrow> 128 \<le> b \<and> b \<le> 191"

text \<open>The bytes of the first rune of a nonempty string; an invalid byte counts as a rune.\<close>

definition rune_size :: "string \<Rightarrow> nat" where
  "rune_size s =
     (let b = (\<lambda>i. of_char (s ! i) :: nat)
      in if b 0 < 194 \<or> 244 < b 0 then 1
         else
           let size = (if b 0 < 224 then 2 else if b 0 < 240 then 3 else 4);
               lo = (if b 0 = 224 then 160 else if b 0 = 240 then 144 else 128);
               hi = (if b 0 = 237 then 159 else if b 0 = 244 then 143 else 191)
           in if length s < size then 1
              else if b 1 < lo \<or> hi < b 1 then 1
              else if size = 2 then 2
              else if \<not> cont_byte (b 2) then 1
              else if size = 3 then 3
              else if \<not> cont_byte (b 3) then 1
              else 4)"

lemma rune_size_pos [simp]: "0 < rune_size s"
  by (simp add: rune_size_def Let_def)

function rune_count :: "string \<Rightarrow> nat" where
  "rune_count s = (if s = [] then 0 else Suc (rune_count (drop (rune_size s) s)))"
  by pat_completeness auto
termination by (relation "measure length") auto

declare rune_count.simps [simp del]

section \<open>Valid text\<close>

text \<open>The first byte starts no rune.\<close>

definition bad_byte :: "string \<Rightarrow> bool" where
  "bad_byte s \<longleftrightarrow> rune_size s = 1 \<and> 128 \<le> (of_char (hd s) :: nat)"

function valid_utf8 :: "string \<Rightarrow> bool" where
  "valid_utf8 s = (if s = [] then True else if bad_byte s then False else valid_utf8 (drop (rune_size s) s))"
  by pat_completeness auto
termination by (relation "measure length") auto

function json_text :: "string \<Rightarrow> string" where
  "json_text s =
     (if s = [] then []
      else (if bad_byte s then [CHR 0xEF, CHR 0xBF, CHR 0xBD] else take (rune_size s) s) @ json_text (drop (rune_size s) s))"
  by pat_completeness auto
termination by (relation "measure length") auto

declare valid_utf8.simps [simp del] json_text.simps [simp del]

lemma json_text_valid: "valid_utf8 s \<Longrightarrow> json_text s = s"
proof (induction s rule: json_text.induct)
  case (1 s)
  then show ?case
    using valid_utf8.simps [of s] json_text.simps [of s] by (simp split: if_splits)
qed

lemma ascii_valid_utf8: "list_all (\<lambda>c. (of_char c :: nat) < 128) s \<Longrightarrow> valid_utf8 s"
proof (induction s)
  case (Cons c s)
  then have "rune_size (c # s) = 1" by (simp add: rune_size_def)
  then show ?case using Cons by (simp add: valid_utf8.simps [of "c # s"] bad_byte_def)
qed (simp add: valid_utf8.simps [of "[]"])

section \<open>Padding\<close>

definition spaces :: "nat \<Rightarrow> string" where
  "spaces n = replicate n CHR '' ''"

definition pad_right :: "nat \<Rightarrow> string \<Rightarrow> string" where
  "pad_right w c = c @ spaces (w - rune_count c)"

definition pad_runes_left :: "nat \<Rightarrow> string \<Rightarrow> string" where
  "pad_runes_left w c = spaces (w - rune_count c) @ c"

lemma rune_size_le: "s \<noteq> [] \<Longrightarrow> rune_size s \<le> length s"
  by (cases s; cases "tl s"; cases "tl (tl s)"; cases "tl (tl (tl s))")
    (simp_all add: rune_size_def Let_def)

lemma rune_size_append:
  assumes "s \<noteq> []" "(of_char c :: nat) < 128"
  shows "rune_size (s @ c # t) = rune_size s"
proof -
  have c: "(of_char c :: nat) < 160" "(of_char c :: nat) < 144" "\<not> cont_byte (of_char c)"
    using assms(2) by (auto simp: cont_byte_def)
  consider a where "s = [a]" | a b where "s = [a, b]" | a b d where "s = [a, b, d]"
    | a b d e r where "s = a # b # d # e # r"
    using assms(1) by (metis list.exhaust)
  then show ?thesis
    by cases (use c assms(2) in \<open>simp_all add: rune_size_def Let_def numeral_2_eq_2 numeral_3_eq_3\<close>)
qed

lemma rune_count_spaces: "rune_count (s @ spaces k) = rune_count s + k"
proof (induction s rule: rune_count.induct)
  case (1 s)
  show ?case
  proof (cases "s = []")
    case True
    have "rune_count (spaces k) = k"
    proof (induction k)
      case (Suc k)
      have "rune_size (spaces (Suc k)) = 1" by (simp add: rune_size_def spaces_def)
      then show ?case using Suc by (subst rune_count.simps) (simp add: spaces_def)
    qed (subst rune_count.simps, simp add: spaces_def)
    then show ?thesis using True by (subst (2) rune_count.simps) simp
  next
    case False
    have sz: "rune_size (s @ spaces k) = rune_size s"
      using rune_size_append [OF False, of "CHR '' ''" "spaces (k - 1)"]
      by (cases k) (simp_all add: spaces_def)
    have "rune_count (s @ spaces k) = Suc (rune_count (drop (rune_size s) s @ spaces k))"
      using False rune_size_le [OF False] by (subst rune_count.simps) (simp add: sz)
    then show ?thesis using "1.IH" [OF False] False by (subst (2) rune_count.simps) simp
  qed
qed

lemma rune_count_pad: "rune_count c \<le> w \<Longrightarrow> rune_count (pad_right w c) = w"
  by (simp add: pad_right_def rune_count_spaces)

end
