(* ===== verification/Tool_Db.thy ===== *)
theory Tool_Db
  imports Dbconn Tool_Env Go_Bufio Go_Utf8
begin

text \<open>
  What the database tools share (\<open>internal/tools/tool_db.go\<close>): cells, rows, and the text table;
  and the three introspection tools (\<open>tool_db_list.go\<close>, \<open>tool_db_tables.go\<close>, \<open>tool_db_schema.go\<close>).
  A scanned value is nil, bytes, a string, or something
  else, given as the text \<open>fmt.Sprint\<close> makes of it. An index out of range, a panic, is \<open>None\<close>.
\<close>

section \<open>Rows and the table\<close>

datatype cell = NilCell | BytesCell string | StringCell string | OtherCell string

definition fold_space :: "string \<Rightarrow> string" where
  "fold_space s = replace_byte CHR 0x09 CHR '' '' (replace_byte CHR 0x0D CHR '' '' (replace_byte CHR 0x0A CHR '' '' s))"

fun format_cell :: "cell \<Rightarrow> string" where
  "format_cell NilCell = ''NULL''"
| "format_cell (BytesCell s) = fold_space s"
| "format_cell (StringCell s) = fold_space s"
| "format_cell (OtherCell s) = fold_space s"

record 'e sql_rows =
  rr_columns :: "'e + string list"
  rr_rows :: "('e + cell list) list"
  rr_err :: "'e option"

definition scan_cells :: "'e sql_rows \<Rightarrow> 'e + string list \<times> string list list" where
  "scan_cells rs =
     bind_res (rr_columns rs) (\<lambda>cols.
     bind_res (map_res (\<lambda>r. bind_res r (\<lambda>vals. Inr (map format_cell vals))) (rr_rows rs)) (\<lambda>rows.
       case rr_err rs of Some e \<Rightarrow> Inl e | None \<Rightarrow> Inr (cols, rows)))"

fun grow_widths :: "nat list \<Rightarrow> string list \<Rightarrow> nat list" where
  "grow_widths (w # ws) (c # cs) = (if rune_count c > w then rune_count c else w) # grow_widths ws cs"
| "grow_widths ws cs = ws"

fun row_cells :: "nat list \<Rightarrow> string list \<Rightarrow> string option" where
  "row_cells ws [] = Some []"
| "row_cells ws [c] = Some c"
| "row_cells [] (c # d # cs) = None"
| "row_cells (w # ws) (c # d # cs) =
     map_option (\<lambda>rest. c @ spaces (w - rune_count c) @ ''  '' @ rest) (row_cells ws (d # cs))"

definition write_table_row :: "nat list \<Rightarrow> string list \<Rightarrow> string option" where
  "write_table_row ws cells = map_option (\<lambda>t. t @ [newline]) (row_cells ws cells)"

fun write_rows :: "nat list \<Rightarrow> string list list \<Rightarrow> string option" where
  "write_rows ws [] = Some []"
| "write_rows ws (r # rs) =
     (case write_table_row ws r of None \<Rightarrow> None
      | Some t \<Rightarrow> map_option (\<lambda>rest. t @ rest) (write_rows ws rs))"

definition render_table :: "string list \<Rightarrow> string list list \<Rightarrow> string option" where
  "render_table cols rows =
     (if cols = [] then Some []
      else
        let widths = foldl grow_widths (map rune_count cols) rows;
            seps = map (\<lambda>w. replicate w CHR ''-'') widths
        in write_rows widths (cols # seps # rows))"

section \<open>The introspection tools\<close>

datatype 'e db_tool_error =
    DbArgs "'e tool_error"
  | DbLookup lookup_error
  | DbBegin 'e
  | DbCatalog "'e catalog_error"
  | DbBadTable string
  | DbUnknownTable string
  | DbPanic

definition capped_table ::
  "env \<Rightarrow> string option \<Rightarrow> 'e db_tool_error + tool_result" where
  "capped_table env t =
     (case t of None \<Rightarrow> Inl DbPanic
      | Some text \<Rightarrow>
          let (out, cap_trunc) = cap_output text (max_output (env_limits env))
          in Inr \<lparr>out_text = out, truncated = cap_trunc\<rparr>)"

definition db_list_remote ::
  "(string \<Rightarrow> 'e + unit) \<Rightarrow> env \<Rightarrow> 'd db_registry option \<Rightarrow> string \<Rightarrow> 'e db_tool_error + tool_result" where
  "db_list_remote unmarshal env db raw =
     bind_res (lift_err DbArgs (decode_args unmarshal () raw)) (\<lambda>_.
       case db of
         None \<Rightarrow> Inr \<lparr>out_text = ''no databases are configured on this server\<newline>'', truncated = False\<rparr>
       | Some reg \<Rightarrow>
           if dr_aliases reg = [] then
             Inr \<lparr>out_text = ''no databases are configured on this server\<newline>'', truncated = False\<rparr>
           else capped_table env (render_table [''ALIAS'', ''ENGINE'', ''HOST'']
             (List.map_filter (\<lambda>a. map_option (\<lambda>c. [a, engine_string (c_engine c), c_host c]) (dr_conns reg a))
               (dr_aliases reg))))"

record db_args =
  da_db :: string
  da_table :: string

text \<open>A transaction is a value of type \<open>'t\<close>; \<open>tx_querier\<close> is its use by the catalog.\<close>

definition db_tables_remote ::
  "(string \<Rightarrow> 'e + db_args) \<Rightarrow> (string \<Rightarrow> string) \<Rightarrow> ('d \<Rightarrow> bool \<Rightarrow> 'e + 't) \<Rightarrow>
   ('t \<Rightarrow> int \<Rightarrow> 'e option) \<Rightarrow> ('t \<Rightarrow> ('e, 'r) querier) \<Rightarrow> env \<Rightarrow> 'd db_registry option \<Rightarrow> string \<Rightarrow>
   'e db_tool_error + tool_result" where
  "db_tables_remote unmarshal lower begin_tx exec tx_querier env db raw =
     bind_res (lift_err DbArgs (decode_args unmarshal \<lparr>da_db = [], da_table = []\<rparr> raw)) (\<lambda>args.
     bind_res (lift_err DbLookup (db_lookup lower db (da_db args))) (\<lambda>c.
     bind_res (lift_err DbBegin (begin_read_only begin_tx exec c (timeout (env_limits env)))) (\<lambda>tx.
     bind_res (lift_err DbCatalog (list_tables (tx_querier tx) (c_engine c))) (\<lambda>tables.
       let out = join_with [newline] tables;
           out = (if out \<noteq> [] then out @ [newline] else out);
           (capped, cap_trunc) = cap_output out (max_output (env_limits env))
       in Inr \<lparr>out_text = capped, truncated = cap_trunc\<rparr>))))"

definition db_schema_remote ::
  "(string \<Rightarrow> 'e + db_args) \<Rightarrow> (string \<Rightarrow> string) \<Rightarrow> ('d \<Rightarrow> bool \<Rightarrow> 'e + 't) \<Rightarrow>
   ('t \<Rightarrow> int \<Rightarrow> 'e option) \<Rightarrow> ('t \<Rightarrow> ('e, 'r) querier) \<Rightarrow> env \<Rightarrow> 'd db_registry option \<Rightarrow> string \<Rightarrow>
   'e db_tool_error + tool_result" where
  "db_schema_remote unmarshal lower begin_tx exec tx_querier env db raw =
     bind_res (lift_err DbArgs (decode_args unmarshal \<lparr>da_db = [], da_table = []\<rparr> raw)) (\<lambda>args.
     bind_res (lift_err DbLookup (db_lookup lower db (da_db args))) (\<lambda>c.
     if \<not> valid_ident (da_table args) then Inl (DbBadTable (da_table args))
     else
       bind_res (lift_err DbBegin (begin_read_only begin_tx exec c (timeout (env_limits env)))) (\<lambda>tx.
       bind_res (lift_err DbCatalog (describe_table (tx_querier tx) (c_engine c) (da_table args))) (\<lambda>cols.
         if cols = [] then Inl (DbUnknownTable (da_table args))
         else capped_table env (render_table [''COLUMN'', ''TYPE'', ''NULLABLE'']
           (map (\<lambda>ci. [ci_name ci, ci_type ci, if ci_nullable ci then ''NULL'' else ''NOT NULL'']) cols))))))"

section \<open>The table\<close>

text \<open>A row as it is printed: every cell but the last padded to its column's width.\<close>

definition padded_row :: "nat list \<Rightarrow> string list \<Rightarrow> string" where
  "padded_row ws r = join_with ''  '' (map2 pad_right (butlast ws) (butlast r) @ [last r])"

definition column_widths :: "string list \<Rightarrow> string list list \<Rightarrow> nat list" where
  "column_widths cols rows = map (\<lambda>i. Max ((\<lambda>r. rune_count (r ! i)) ` set (cols # rows))) [0..<length cols]"

definition rectangular :: "string list \<Rightarrow> string list list \<Rightarrow> bool" where
  "rectangular cols rows \<longleftrightarrow> cols \<noteq> [] \<and> (\<forall>r\<in>set rows. length r = length cols)"

definition ruled :: "string list \<Rightarrow> string list list \<Rightarrow> string list list" where
  "ruled cols rows = cols # map (\<lambda>w. replicate w CHR ''-'') (column_widths cols rows) # rows"

lemma rune_count_dashes: "rune_count (replicate n CHR ''-'') = n"
proof (induction n)
  case (Suc n)
  have "rune_size (replicate (Suc n) CHR ''-'') = 1" by (simp add: rune_size_def)
  then show ?case using Suc by (subst rune_count.simps) simp
qed (subst rune_count.simps, simp)

lemma grow_widths_eq:
  "length ws = length cs \<Longrightarrow> grow_widths ws cs = map2 (\<lambda>w c. max w (rune_count c)) ws cs"
  by (induction ws cs rule: grow_widths.induct) auto

lemma grown_widths:
  "\<forall>r\<in>set rows. length r = length ws \<Longrightarrow>
    foldl grow_widths ws rows = map (\<lambda>i. Max (insert (ws ! i) ((\<lambda>r. rune_count (r ! i)) ` set rows))) [0..<length ws]"
proof (induction rows arbitrary: ws)
  case Nil
  show ?case by (simp add: map_nth)
next
  case (Cons r rows)
  let ?g = "grow_widths ws r"
  have g: "?g = map2 (\<lambda>w c. max w (rune_count c)) ws r" and len: "length ?g = length ws"
    using Cons.prems by (simp_all add: grow_widths_eq)
  have "Max (insert (?g ! i) ((\<lambda>r. rune_count (r ! i)) ` set rows)) =
      Max (insert (ws ! i) ((\<lambda>r. rune_count (r ! i)) ` set (r # rows)))" if "i < length ws" for i
  proof -
    have "?g ! i = max (ws ! i) (rune_count (r ! i))"
      using that Cons.prems by (simp add: g)
    then show ?thesis by (cases "rows = []") (simp_all add: Max_insert max.assoc)
  qed
  then show ?case using Cons.IH [of ?g] Cons.prems len by simp
qed

lemma widths_are_maxima:
  assumes "rectangular cols rows"
  shows "foldl grow_widths (map rune_count cols) rows = column_widths cols rows"
  using grown_widths [of rows "map rune_count cols"] assms
  by (auto simp: rectangular_def column_widths_def)

lemma padded_row_Cons:
  "ws \<noteq> [] \<Longrightarrow> padded_row (w # ws) (c # d # cs) = pad_right w c @ ''  '' @ padded_row ws (d # cs)"
  by (cases ws; cases cs) (auto simp: padded_row_def neq_Nil_conv)

lemma row_cells_padded:
  "length ws = length r \<Longrightarrow> r \<noteq> [] \<Longrightarrow> row_cells ws r = Some (padded_row ws r)"
proof (induction ws r rule: row_cells.induct)
  case (2 ws c)
  then show ?case by (cases ws) (simp_all add: padded_row_def)
next
  case (4 w ws c d cs)
  then have "ws \<noteq> []" by auto
  with 4 show ?case by (simp add: padded_row_Cons) (simp add: pad_right_def)
qed simp_all

lemma write_rows_padded:
  "\<forall>r\<in>set rows. length r = length ws \<and> r \<noteq> [] \<Longrightarrow>
    write_rows ws rows = Some (concat (map (\<lambda>r. padded_row ws r @ [newline]) rows))"
  by (induction rows) (auto simp: write_table_row_def row_cells_padded)

lemma ruled_shape:
  assumes "rectangular cols rows" "r \<in> set (ruled cols rows)"
  shows "length r = length cols" "r \<noteq> []"
  using assms by (auto simp: ruled_def rectangular_def column_widths_def)

lemma ruled_fits:
  assumes "r \<in> set (ruled cols rows)" "i < length cols"
  shows "rune_count (r ! i) \<le> column_widths cols rows ! i"
proof (cases "r \<in> set (cols # rows)")
  case True
  then show ?thesis using assms(2) unfolding column_widths_def by (simp del: Max_insert set_simps)
next
  case False
  then have "r = map (\<lambda>w. replicate w CHR ''-'') (column_widths cols rows)"
    using assms(1) by (auto simp: ruled_def)
  moreover have "i < length (column_widths cols rows)" using assms(2) by (simp add: column_widths_def)
  ultimately show ?thesis by (simp add: rune_count_dashes)
qed

lemma set_join_with: "set (join_with sep ss) \<subseteq> set sep \<union> (\<Union>s\<in>set ss. set s)"
  by (induction sep ss rule: join_with.induct) auto

lemma padded_row_one_line:
  assumes "r \<noteq> []" "\<forall>c\<in>set r. newline \<notin> set c"
  shows "newline \<notin> set (padded_row ws r)"
proof -
  have "newline \<notin> set (pad_right w c)" if "c \<in> set r" for w c
    using that assms(2) by (auto simp: pad_right_def spaces_def)
  moreover have "c \<in> set r" if "c \<in> set (butlast r)" for c using that by (rule in_set_butlastD)
  ultimately show ?thesis
    using assms set_join_with [of "''  ''" "map2 pad_right (butlast ws) (butlast r) @ [last r]"]
    by (fastforce simp: padded_row_def dest: set_zip_rightD)
qed

lemma format_cell_one_line: "newline \<notin> set (format_cell v)"
  by (cases v) (auto simp: fold_space_def replace_byte_def)

text \<open>
  C35: Rendering a rectangular result never indexes out of range and prints one line for each
  row: the header, a rule of dashes, then the rows in order. Every column is exactly as wide, in
  runes, as its widest cell, so every cell but the last of a row is padded to the same width in
  all lines. With column names of one line, and cells as \<open>formatCell\<close> makes them, no printed row
  holds a line break.
\<close>

theorem table_aligned:
  assumes "rectangular cols rows"
  shows "render_table cols rows =
      Some (concat (map (\<lambda>r. padded_row (column_widths cols rows) r @ [newline]) (ruled cols rows))) \<and>
    length (ruled cols rows) = length rows + 2 \<and>
    (\<forall>r\<in>set (ruled cols rows). \<forall>i<length cols.
      rune_count (pad_right (column_widths cols rows ! i) (r ! i)) = column_widths cols rows ! i) \<and>
    ((\<forall>c\<in>set cols. newline \<notin> set c) \<and> (\<exists>vals. rows = map (map format_cell) vals) \<longrightarrow>
      (\<forall>r\<in>set (ruled cols rows). newline \<notin> set (padded_row (column_widths cols rows) r)))"
proof -
  let ?w = "column_widths cols rows"
  have len: "length ?w = length cols" by (simp add: column_widths_def)
  have "render_table cols rows = write_rows ?w (ruled cols rows)"
    using assms by (simp add: render_table_def widths_are_maxima ruled_def Let_def) (simp add: rectangular_def)
  also have "\<dots> = Some (concat (map (\<lambda>r. padded_row ?w r @ [newline]) (ruled cols rows)))"
    using ruled_shape [OF assms] len by (intro write_rows_padded) simp
  finally have shown: "render_table cols rows = \<dots>" .
  have lines: "newline \<notin> set (padded_row ?w r)"
    if "\<forall>c\<in>set cols. newline \<notin> set c" "rows = map (map format_cell) vals" "r \<in> set (ruled cols rows)" for vals r
  proof (rule padded_row_one_line)
    show "r \<noteq> []" using ruled_shape [OF assms that(3)] by simp
    show "\<forall>c\<in>set r. newline \<notin> set c"
      using that(1,3) by (auto simp: ruled_def that(2) format_cell_one_line)
  qed
  show ?thesis
    using shown ruled_fits rune_count_pad lines by (auto simp: ruled_def)
qed

definition sample_vals :: "cell list list" where
  "sample_vals = [[OtherCell ''1'', NilCell], [OtherCell ''10'', BytesCell [CHR 0xC3, CHR 0xA9, CHR 0x0A]]]"

theorem table_aligned_witness:
  "render_table [''id'', ''name''] (map (map format_cell) sample_vals) =
      Some (concat (map (\<lambda>r. padded_row [2, 4] r @ [newline])
        [[''id'', ''name''], [''--'', ''----''], [''1'', ''NULL''],
         [''10'', [CHR 0xC3, CHR 0xA9, CHR '' '']]])) \<and>
   newline \<notin> set (padded_row [2, 4] [''10'', [CHR 0xC3, CHR 0xA9, CHR '' '']])"
proof -
  let ?rows = "map (map format_cell) sample_vals"
  have rect: "rectangular [''id'', ''name''] ?rows" by code_simp
  have w: "column_widths [''id'', ''name''] ?rows = [2, 4]" by code_simp
  have r: "ruled [''id'', ''name''] ?rows = [[''id'', ''name''], [''--'', ''----''], [''1'', ''NULL''],
      [''10'', [CHR 0xC3, CHR 0xA9, CHR '' '']]]" by code_simp
  have n: "\<forall>c\<in>set [''id'', ''name'']. newline \<notin> set c" by code_simp
  show ?thesis using table_aligned [OF rect] n unfolding w r by auto
qed

end
