(* ===== verification/Tool_Sql.thy ===== *)
theory Tool_Sql
  imports Tool_Db Sqlq_Translate
begin

text \<open>
  The \<open>sql\<close> tool (\<open>internal/tools/tool_sql.go\<close>): the client's query is parsed, given a row limit,
  resolved against the live catalog of a read-only transaction, translated, run, and printed as
  a table. A transaction is a value of type \<open>'t\<close>: \<open>tx_querier\<close> is its use by the catalog, \<open>run\<close> its
  \<open>QueryContext\<close> with the rows read. Closing the rows and rolling back, which the code defers,
  change nothing the tool returns.
\<close>

section \<open>The tool\<close>

definition sql_default_limit :: int where
  "sql_default_limit = 1000"

definition sql_max_limit :: int where
  "sql_max_limit = 100000"

text \<open>The query with its limit set, the limit, and whether the server imposed it.\<close>

definition apply_row_limit :: "query \<Rightarrow> query \<times> int \<times> bool" where
  "apply_row_limit q =
     (case q_limit q of
        None \<Rightarrow> (q\<lparr>q_limit := Some sql_default_limit\<rparr>, sql_default_limit, True)
      | Some n \<Rightarrow>
          if n > sql_max_limit then (q\<lparr>q_limit := Some sql_max_limit\<rparr>, sql_max_limit, True)
          else (q, n, False))"

record sql_args =
  sq_db :: string
  sq_query :: string

definition no_sql_args :: sql_args where
  "no_sql_args = \<lparr>sq_db = [], sq_query = []\<rparr>"

datatype 'e sql_error =
    SqlDb "'e db_tool_error"
  | SqlParse parse_error
  | SqlResolve "'e catalog_error resolve_error"
  | SqlBuild 'e
  | SqlRun 'e

definition sql_remote ::
  "(string \<Rightarrow> 'e + sql_args) \<Rightarrow> (string \<Rightarrow> string) \<Rightarrow> (string \<Rightarrow> 64 word option) \<Rightarrow> ('x, 's, 'e) goqu \<Rightarrow>
   ('d \<Rightarrow> bool \<Rightarrow> 'e + 't) \<Rightarrow> ('t \<Rightarrow> int \<Rightarrow> 'e option) \<Rightarrow> ('t \<Rightarrow> ('e, 'r) querier) \<Rightarrow>
   ('t \<Rightarrow> string \<Rightarrow> go_value list \<Rightarrow> 'e + 'e sql_rows) \<Rightarrow>
   env \<Rightarrow> 'd db_registry option \<Rightarrow> string \<Rightarrow> 'e sql_error + tool_result" where
  "sql_remote unmarshal ul pf G begin_tx exec tx_querier run env db raw =
     bind_res (lift_err (SqlDb \<circ> DbArgs) (decode_args unmarshal no_sql_args raw)) (\<lambda>args.
     bind_res (lift_err (SqlDb \<circ> DbLookup) (db_lookup (go_lower ul) db (sq_db args))) (\<lambda>conn.
     bind_res (lift_err SqlParse (parse pf (sq_query args))) (\<lambda>q.
     let (q, eff_limit, capped) = apply_row_limit q in
     bind_res (lift_err (SqlDb \<circ> DbBegin) (begin_read_only begin_tx exec conn (timeout (env_limits env)))) (\<lambda>tx.
     bind_res (lift_err SqlResolve (resolve ul (db_catalog (tx_querier tx) (c_engine conn)) q)) (\<lambda>q.
     bind_res (lift_err SqlBuild (translate G q (c_engine conn))) (\<lambda>(sql_str, sql_params).
     bind_res (lift_err SqlRun (run tx sql_str sql_params)) (\<lambda>rows.
     bind_res (lift_err SqlRun (scan_cells rows)) (\<lambda>(cols, data).
       let row_trunc = (capped \<and> int (length data) \<ge> eff_limit) in
       bind_res (lift_err SqlDb (capped_table env (render_table cols data))) (\<lambda>res.
         Inr (res\<lparr>truncated := row_trunc \<or> truncated res\<rparr>))))))))))"

section \<open>What the row limit and resolution leave\<close>

lemma wf_query_limit: "wf_query q \<Longrightarrow> limit_ok (Some n) \<Longrightarrow> wf_query (q\<lparr>q_limit := Some n\<rparr>)"
  by (simp add: wf_query_def)

lemma apply_row_limit_cases:
  obtains "q_limit q = None" "apply_row_limit q = (q\<lparr>q_limit := Some 1000\<rparr>, 1000, True)"
  | n where "q_limit q = Some n" "n > 100000" "apply_row_limit q = (q\<lparr>q_limit := Some 100000\<rparr>, 100000, True)"
  | n where "q_limit q = Some n" "n \<le> 100000" "apply_row_limit q = (q, n, False)"
  by (cases "q_limit q"; cases "the (q_limit q) > 100000")
    (simp_all add: apply_row_limit_def sql_default_limit_def sql_max_limit_def)

lemma apply_row_limit_facts:
  assumes "apply_row_limit q = (q', n, imposed)" "wf_query q"
  shows "q_limit q' = Some n \<and> 0 \<le> n \<and> n \<le> 100000 \<and> wf_query q' \<and> q' = q\<lparr>q_limit := Some n\<rparr> \<and>
    (imposed \<longleftrightarrow> q_limit q \<noteq> Some n)"
proof (cases rule: apply_row_limit_cases [of q])
  case 1
  then show ?thesis using assms by (auto simp: limit_ok_def intro!: wf_query_limit)
next
  case (2 n)
  then show ?thesis using assms by (auto simp: limit_ok_def intro!: wf_query_limit)
next
  case (3 m)
  moreover have "limit_ok (q_limit q)" using assms(2) unfolding wf_query_def by blast
  ultimately show ?thesis using assms by (auto simp: limit_ok_def)
qed

lemma cond_values_blank [simp]: "cond_values (blank_cond c) = cond_values c"
proof (induction c)
  case (Comparison c op v rc)
  show ?case by (cases rc) simp_all
qed simp_all

definition query_aliases :: "query \<Rightarrow> string list" where
  "query_aliases q = map tr_alias (query_refs q) @ map si_alias (q_columns q)"

text \<open>Values, aliases, limit and the place of stars are those of the blanked query.\<close>

lemma blank_keeps_values: "query_values (blank_query q) = query_values q"
  by (cases "q_where q") (simp_all add: blank_query_def query_values_def comp_def)

lemma blank_keeps:
  "query_aliases (blank_query q) = query_aliases q" "q_limit (blank_query q) = q_limit q"
  "stars_ok (blank_query q) = stars_ok q"
  by (simp_all add: blank_query_def query_aliases_def query_refs_def blank_ref_def comp_def
      stars_ok_def list_all_iff)

lemma blank_same:
  assumes "blank_query q' = blank_query q"
  shows "query_values q' = query_values q" "query_aliases q' = query_aliases q"
    "q_limit q' = q_limit q" "stars_ok q' = stars_ok q"
  using assms blank_keeps blank_keeps_values by metis+

lemma limit_keeps:
  "query_values (q\<lparr>q_limit := l\<rparr>) = query_values q" "query_aliases (q\<lparr>q_limit := l\<rparr>) = query_aliases q"
  by (simp_all add: query_values_def query_aliases_def query_refs_def)

lemma wf_stars_ok: "wf_query q \<Longrightarrow> stars_ok q"
  by (auto simp: wf_query_def stars_ok_def list_all_iff select_item_ok_def split: if_splits)

lemma ident_ok_valid: "opt_ident_ok s \<Longrightarrow> s \<noteq> [] \<Longrightarrow> valid_ident s"
  by (simp add: opt_ident_ok_def ident_ok_def)

lemma wf_aliases: "wf_query q \<Longrightarrow> \<forall>s\<in>set (query_aliases q). s \<noteq> [] \<longrightarrow> valid_ident s"
  by (auto simp: wf_query_def query_aliases_def query_refs_def list_all_iff select_item_ok_def
      table_ref_ok_def join_ok_def intro: ident_ok_valid split: if_splits)

section \<open>Names of a resolved query\<close>

text \<open>A table of the catalog, or a column of one.\<close>

definition schema_name :: "'e catalog \<Rightarrow> string \<Rightarrow> bool" where
  "schema_name cat s \<longleftrightarrow> (\<exists>ts. cat_tables cat = Inr ts \<and> s \<in> set ts) \<or>
     (\<exists>t cols. cat_columns cat t = Inr cols \<and> s \<in> set cols)"

definition known_name :: "'e catalog \<Rightarrow> query \<Rightarrow> string \<Rightarrow> bool" where
  "known_name cat q s \<longleftrightarrow> schema_name cat s \<or> s \<noteq> [] \<and> s \<in> set (query_aliases q)"

lemma ref_name_known:
  assumes "resolved ul cat q" "ref \<in> set (query_refs q)"
  shows "known_name cat q (tr_name ref)" "tr_alias ref \<noteq> [] \<Longrightarrow> known_name cat q (tr_alias ref)"
    "known_name cat q (ref_name ref)"
  using assms by (auto simp: known_name_def schema_name_def resolved_def query_aliases_def ref_name_def)

lemma in_scope_known:
  assumes "resolved ul cat q" "in_scope cat (query_refs q) c" "s \<in> set (col_names c)"
  shows "known_name cat q s"
proof -
  from assms(2) obtain ref cols where "ref \<in> set (query_refs q)" "col_table c = ref_name ref"
    "cat_columns cat (tr_name ref) = Inr cols" "col_name c \<in> set cols"
    unfolding in_scope_def by blast
  moreover from this have "known_name cat q (col_name c)" unfolding known_name_def schema_name_def by blast
  ultimately show ?thesis
    using assms(3) ref_name_known(3) [OF assms(1)] by (auto simp: col_names_def split: if_splits)
qed

lemma loose_known:
  assumes "resolved ul cat q" "c \<in> set (loose_columns q)" "s \<in> set (col_names c)"
  shows "known_name cat q s"
proof -
  from assms(1,2) consider "in_scope cat (query_refs q) c"
    | "col_table c = []" "col_name c \<noteq> []" "col_name c \<in> si_alias ` set (q_columns q)"
    unfolding resolved_def by blast
  then show ?thesis
  proof cases
    case 1
    then show ?thesis using in_scope_known assms by blast
  next
    case 2
    then show ?thesis using assms(3) by (auto simp: known_name_def query_aliases_def col_names_def)
  qed
qed

lemma strict_known:
  assumes "resolved ul cat q" "c \<in> set (strict_columns q)" "s \<in> set (col_names c)"
  shows "known_name cat q s"
  using assms in_scope_known [OF assms(1)] unfolding resolved_def by blast

lemma query_names_from:
  "set (query_names q) \<subseteq> (\<Union>ref\<in>set (query_refs q). set (ref_names ref)) \<union>
     (\<Union>x\<in>set (q_columns q). {si_alias x} - {[]}) \<union>
     (\<Union>c\<in>set (strict_columns q @ loose_columns q). set (col_names c))"
proof -
  have "set (item_names x) \<subseteq> {si_alias x} - {[]} \<union> (if si_star x then {} else set (col_names (si_column x)))" for x
    by (simp add: item_names_def)
  then have "set (concat (map item_names (q_columns q))) \<subseteq> (\<Union>x\<in>set (q_columns q). {si_alias x} - {[]}) \<union>
      (\<Union>c\<in>set (strict_columns q). set (col_names c))"
    by (fastforce simp: strict_columns_def split: if_splits)
  then show ?thesis
    unfolding query_names_def by (auto simp: query_refs_def strict_columns_def loose_columns_def)
qed

lemma resolved_names_known:
  assumes "resolved ul cat q" "s \<in> set (query_names q)"
  shows "known_name cat q s"
proof -
  from subsetD [OF query_names_from assms(2)] consider
      ref where "ref \<in> set (query_refs q)" "s \<in> set (ref_names ref)"
    | x where "x \<in> set (q_columns q)" "si_alias x \<noteq> []" "s = si_alias x"
    | c where "c \<in> set (strict_columns q)" "s \<in> set (col_names c)"
    | c where "c \<in> set (loose_columns q)" "s \<in> set (col_names c)"
    unfolding set_append by blast
  then show ?thesis
  proof cases
    case 1
    then show ?thesis using ref_name_known [OF assms(1)] by (auto simp: ref_names_def split: if_splits)
  next
    case 2
    then show ?thesis by (auto simp: known_name_def query_aliases_def)
  qed (use strict_known loose_known assms(1) in blast)+
qed

section \<open>Statements a client may cause to run\<close>

definition safe_statement ::
  "(string \<Rightarrow> 64 word option) \<Rightarrow> engine \<Rightarrow> 'e catalog \<Rightarrow> string \<Rightarrow> select_stmt \<Rightarrow> bool" where
  "safe_statement pf eng cat src stmt \<longleftrightarrow>
     (\<exists>q. parse pf src = Inr q \<and> ss_prepared stmt \<and> ss_dialect stmt = engine_dialect eng \<and>
       (\<exists>n. ss_limit stmt = Some n \<and> uint n = fst (snd (apply_row_limit q)) \<and> uint n \<le> 100000) \<and>
       stmt_values stmt = map v_go (query_values q) \<and>
       (\<forall>s\<in>set (stmt_names stmt). schema_name cat s \<or> s \<in> set (query_aliases q) \<and> valid_ident s))"

lemma resolved_statement_safe:
  assumes q: "parse pf src = Inr q" and l: "apply_row_limit q = (q1, n, imposed)"
    and r: "resolve ul cat q1 = Inr q2"
  shows "safe_statement pf eng cat src (recorded_stmt gen q2 eng)"
proof -
  have wf: "wf_query q" using q by (rule parse_wf)
  from apply_row_limit_facts [OF l wf] have n: "q_limit q1 = Some n" "0 \<le> n" "n \<le> 100000" "wf_query q1"
    and q1: "q1 = q\<lparr>q_limit := Some n\<rparr>" by blast+
  note same = blank_same [OF resolve_blank [OF r]]
  have al: "query_aliases q2 = query_aliases q" and vals: "query_values q2 = query_values q"
    using same by (simp_all add: q1 limit_keeps)
  have st: "stars_ok q2" using same wf_stars_ok [OF n(4)] by simp
  have "schema_name cat s \<or> s \<in> set (query_aliases q) \<and> valid_ident s"
    if "s \<in> set (stmt_names (recorded_stmt gen q2 eng))" for s
  proof -
    from that have "s \<in> set (query_names q2)" using recorded_names [OF st] by metis
    then have "known_name cat q2 s" by (rule resolved_names_known [OF resolve_resolved [OF r]])
    then show ?thesis using wf_aliases [OF wf] by (auto simp: known_name_def al)
  qed
  moreover have "ss_limit (recorded_stmt gen q2 eng) = Some (word_of_int n)"
    using same n by (simp add: recorded_stmt_def build_ds_recorded)
  moreover have "uint (word_of_int n :: 64 word) = n"
    using n by (simp add: uint_word_of_int take_bit_int_eq_self)
  ultimately show ?thesis
    unfolding safe_statement_def
    using q n l vals by (intro exI [of _ q]) (simp add: recorded_values, simp add: recorded_stmt_def build_ds_recorded)
qed

lemma bind_res_cong_Inr:
  "(\<And>x. m = Inr x \<Longrightarrow> f x = g x) \<Longrightarrow> bind_res m f = bind_res m g"
  by (cases m) simp_all

lemma bind_lift_cong: "m = m' \<Longrightarrow> bind_res (lift_err f m) g = bind_res (lift_err f m') g"
  by simp

lemma sql_remote_safe_runs:
  assumes "\<And>args conn tx stmt sql params. decode_args unmarshal no_sql_args raw = Inr args \<Longrightarrow>
      db_lookup (go_lower ul) db (sq_db args) = Inr conn \<Longrightarrow>
      safe_statement pf (c_engine conn) (db_catalog (tx_querier tx) (c_engine conn)) (sq_query args) stmt \<Longrightarrow>
      gen stmt = Inr (sql, params) \<Longrightarrow> run tx sql params = run' tx sql params"
  shows "sql_remote unmarshal ul pf (recorder gen) begin_tx exec tx_querier run env db raw =
    sql_remote unmarshal ul pf (recorder gen) begin_tx exec tx_querier run' env db raw"
proof -
  have "run tx sql params = run' tx sql params"
    if "decode_args unmarshal no_sql_args raw = Inr args"
      "db_lookup (go_lower ul) db (sq_db args) = Inr conn" "parse pf (sq_query args) = Inr q"
      "apply_row_limit q = (q1, n, imposed)"
      "resolve ul (db_catalog (tx_querier tx) (c_engine conn)) q1 = Inr q2"
      "translate (recorder gen) q2 (c_engine conn) = Inr (sql, params)"
    for args conn q q1 n imposed tx q2 sql params
    using assms [OF that(1,2) resolved_statement_safe [OF that(3-5)]] that(6)
    by (simp add: translate_recorded)
  then show ?thesis
    unfolding sql_remote_def
    by (intro bind_res_cong_Inr)
      (auto simp: Let_def lift_err_eq_Inr split: prod.split intro!: bind_res_cong_Inr bind_lift_cong)
qed

section \<open>Properties\<close>

text \<open>
  C2: Whatever a client sends, the only statements the \<open>sql\<close> tool runs are safe ones: the tool
  cannot tell two databases apart that answer alike every prepared statement of the connection's
  dialect that carries a row limit of at most 100000, binds exactly the literals of the client's
  query, and quotes only tables and columns the catalog lists and identifiers the query
  introduces as aliases. No text of the client reaches the database any other way.
\<close>

theorem sql_runs_safe_statements:
  assumes "\<And>args conn tx stmt sql params. decode_args unmarshal no_sql_args raw = Inr args \<Longrightarrow>
      db_lookup (go_lower ul) db (sq_db args) = Inr conn \<Longrightarrow>
      safe_statement pf (c_engine conn) (db_catalog (tx_querier tx) (c_engine conn)) (sq_query args) stmt \<Longrightarrow>
      gen stmt = Inr (sql, params) \<Longrightarrow> run tx sql params = run' tx sql params"
  shows "sql_remote unmarshal ul pf (recorder gen) begin_tx exec tx_querier run env db raw =
    sql_remote unmarshal ul pf (recorder gen) begin_tx exec tx_querier run' env db raw"
  by (rule sql_remote_safe_runs) (rule assms)

text \<open>
  C36: A result that is not marked truncated is the whole table of the rows the database returned,
  and these rows are fewer than the limit the server imposed, unless the limit was the client's
  own.
\<close>

theorem sql_untruncated_complete:
  fixes run :: "'t \<Rightarrow> string \<Rightarrow> go_value list \<Rightarrow> 'e + 'e sql_rows"
  assumes "sql_remote unmarshal ul pf G begin_tx exec tx_querier run env db raw = Inr res"
    and "\<not> truncated res" and "0 \<le> max_output (env_limits env)"
  shows "\<exists>args q tx sql params rows cols data. decode_args unmarshal no_sql_args raw = Inr args \<and>
    parse pf (sq_query args) = Inr q \<and> run tx sql params = Inr rows \<and> scan_cells rows = Inr (cols, data) \<and>
    render_table cols data = Some (out_text res) \<and>
    (int (length data) < fst (snd (apply_row_limit q)) \<or> q_limit q = Some (fst (snd (apply_row_limit q))))"
proof -
  from assms(1) obtain args conn q where
    p: "decode_args unmarshal no_sql_args raw = Inr args" "parse pf (sq_query args) = Inr q"
    and rest: "(case apply_row_limit q of (q, n, capped) \<Rightarrow>
      bind_res (lift_err (SqlDb \<circ> DbBegin) (begin_read_only begin_tx exec conn (timeout (env_limits env)))) (\<lambda>tx.
      bind_res (lift_err SqlResolve (resolve ul (db_catalog (tx_querier tx) (c_engine conn)) q)) (\<lambda>q.
      bind_res (lift_err SqlBuild (translate G q (c_engine conn))) (\<lambda>(sql_str, sql_params).
      bind_res (lift_err SqlRun (run tx sql_str sql_params)) (\<lambda>rows.
      bind_res (lift_err SqlRun (scan_cells rows)) (\<lambda>(cols, data).
      bind_res (lift_err SqlDb (capped_table env (render_table cols data))) (\<lambda>res.
        Inr (res\<lparr>truncated := (capped \<and> int (length data) \<ge> n) \<or> truncated res\<rparr>)))))))) = Inr res"
    by (auto simp: sql_remote_def lift_err_eq_Inr bind_res_eq_Inr Let_def)
  obtain q1 n imposed where l: "apply_row_limit q = (q1, n, imposed)"
    by (cases "apply_row_limit q") auto
  from rest [unfolded l] obtain tx sql params rows cols data r where
    d: "run tx sql params = Inr rows" "scan_cells rows = Inr (cols, data)"
    and t: "(capped_table env (render_table cols data) :: 'e db_tool_error + tool_result) = Inr r"
      "r\<lparr>truncated := (imposed \<and> int (length data) \<ge> n) \<or> truncated r\<rparr> = res"
    by (simp add: res_simps) blast
  have "imposed \<longleftrightarrow> q_limit q \<noteq> Some n"
    using apply_row_limit_facts [OF l] parse_wf [OF p(2)] by blast
  with t(2) assms(2) have n: "int (length data) < fst (snd (apply_row_limit q)) \<or>
      q_limit q = Some (fst (snd (apply_row_limit q)))"
    by (auto simp: l)
  from t assms(2,3) have "render_table cols data = Some (out_text res)"
    by (auto simp: capped_table_def cap_output_def Let_def split: option.splits if_splits)
  with p d n show ?thesis by blast
qed

section \<open>Witnesses\<close>

definition sql_env :: env where
  "sql_env = \<lparr>env_jail = \<lparr>roots = []\<rparr>, env_limits = \<lparr>max_output = 100, timeout = 0\<rparr>, env_journalctl = []\<rparr>"

text \<open>A database that answers only statements binding the single value \<open>x\<close>, and one that answers all.\<close>

definition sample_run :: "unit \<Rightarrow> string \<Rightarrow> go_value list \<Rightarrow> unit + unit sql_rows" where
  "sample_run tx sql params = Inr \<lparr>rr_columns = Inr [''a''], rr_rows = [Inr [OtherCell ''1'']], rr_err = None\<rparr>"

definition picky_run :: "unit \<Rightarrow> string \<Rightarrow> go_value list \<Rightarrow> unit + unit sql_rows" where
  "picky_run tx sql params = (if params = [GoString ''x''] then sample_run tx sql params else Inl ())"

definition sample_text :: string where
  "sample_text = ''SELECT A FROM T WHERE a='' @ [CHR 0x27, CHR ''x'', CHR 0x27]"

definition run_sample ::
  "(unit \<Rightarrow> string \<Rightarrow> go_value list \<Rightarrow> unit + unit sql_rows) \<Rightarrow> unit sql_error + tool_result" where
  "run_sample run = sql_remote (\<lambda>raw. Inr \<lparr>sq_db = ''app'', sq_query = raw\<rparr>) id (\<lambda>_. None)
     (recorder sample_gen) (\<lambda>_ _. Inr ()) (\<lambda>_ _. None) (\<lambda>_. sample_querier) run sql_env
     (Some \<lparr>dr_conns = [''app'' \<mapsto> \<lparr>c_db = (), c_engine = EnginePostgres, c_host = ''x''\<rparr>], dr_aliases = [''app'']\<rparr>)
     sample_text"

lemma sample_parses: "\<exists>q. parse (\<lambda>_. None) sample_text = Inr q \<and> map v_go (query_values q) = [GoString ''x'']"
proof -
  have "(case parse (\<lambda>_. None) sample_text of Inl _ \<Rightarrow> False | Inr q \<Rightarrow> map v_go (query_values q) = [GoString ''x''])"
    by code_simp
  then show ?thesis by (auto split: sum.splits)
qed

theorem sql_runs_safe_statements_witness: "run_sample sample_run = run_sample picky_run"
proof -
  obtain q where "parse (\<lambda>_. None) sample_text = Inr q \<and> map v_go (query_values q) = [GoString ''x'']"
    using sample_parses ..
  then have q: "parse (\<lambda>_. None) sample_text = Inr q" "map v_go (query_values q) = [GoString ''x'']"
    by simp_all
  show ?thesis
    unfolding run_sample_def
  proof (rule sql_runs_safe_statements)
    fix args tx stmt sql params and conn :: "unit conn"
    assume "decode_args (\<lambda>raw. Inr \<lparr>sq_db = ''app'', sq_query = raw\<rparr>) no_sql_args sample_text = Inr args"
    then have "sq_query args = sample_text" by (auto simp: decode_args_def sample_text_def)
    moreover assume "safe_statement (\<lambda>_. None) (c_engine conn) (db_catalog sample_querier (c_engine conn)) (sq_query args) stmt"
    ultimately have "stmt_values stmt = [GoString ''x'']" using q by (auto simp: safe_statement_def)
    moreover assume "sample_gen stmt = Inr (sql, params)"
    ultimately have "params = [GoString ''x'']" by (simp add: sample_gen_def)
    then show "sample_run tx sql params = picky_run tx sql params" by (simp add: picky_run_def)
  qed
qed

lemma sample_result:
  "run_sample sample_run =
     Inr \<lparr>out_text = [CHR ''a'', newline, CHR ''-'', newline, CHR ''1'', newline], truncated = False\<rparr>"
  by code_simp

theorem sql_untruncated_complete_witness:
  "\<exists>cols data. render_table cols data = Some [CHR ''a'', newline, CHR ''-'', newline, CHR ''1'', newline]
     \<and> int (length data) < 1000"
proof -
  have "0 \<le> max_output (env_limits sql_env)" by (simp add: sql_env_def)
  from sql_untruncated_complete [OF sample_result [unfolded run_sample_def] _ this] obtain rows cols data where
    "sample_run () [] [] = Inr rows" "scan_cells rows = Inr (cols, data)"
    "render_table cols data = Some [CHR ''a'', newline, CHR ''-'', newline, CHR ''1'', newline]"
    by (auto simp: sample_run_def)
  moreover from this have "length data = 1" by (auto simp: sample_run_def scan_cells_def)
  ultimately show ?thesis by (intro exI [of _ cols] exI [of _ data]) simp
qed

end
