(* ===== verification/Tool_Disk.thy ===== *)
theory Tool_Disk
  imports Tool_Env Go_Bufio Go_Strings Go_Utf8 "HOL-Library.Word"
begin

text \<open>
  The \<open>disk\<close> tool (\<open>internal/tools/tool_disk.go\<close>): the mount table, unescaped, and a line of
  sizes per filesystem. The text of \<open>/proc/mounts\<close> and \<open>statfs\<close> are parameters. Sizes are 64-bit
  words, as the code computes them; the conversion to \<open>float64\<close> and the verb \<open>%.1f\<close> are written out.
\<close>

section \<open>One decimal of a quotient\<close>

definition round_half_even :: "nat \<Rightarrow> nat \<Rightarrow> nat" where
  "round_half_even num den =
     (let q = num div den; r = num mod den
      in if 2 * r < den then q else if 2 * r > den then Suc q else if even q then q else Suc q)"

text \<open>\<open>float64(n)\<close>: 53 bits of precision, rounding half to even.\<close>

function float64_of :: "nat \<Rightarrow> nat \<Rightarrow> nat" where
  "float64_of unit n = (if n < 2 ^ 53 * unit \<or> unit = 0 then round_half_even n unit * unit else float64_of (2 * unit) n)"
  by pat_completeness auto
termination by (relation "measure (\<lambda>(unit, n). n - unit)") auto

declare float64_of.simps [simp del]

text \<open>\<open>Sprintf("%.1f", float64(n)/float64(div))\<close>, where \<open>div\<close> is a power of two: the division is exact.\<close>

definition one_decimal :: "nat \<Rightarrow> nat \<Rightarrow> string" where
  "one_decimal n divisor =
     (let tenths = round_half_even (10 * float64_of 1 n) divisor
      in digits (tenths div 10) @ ''.'' @ digits (tenths mod 10))"

section \<open>The tool\<close>

function magnitude :: "64 word \<Rightarrow> 64 word \<Rightarrow> nat \<Rightarrow> 64 word \<times> nat" where
  "magnitude v dv ex = (if v \<ge> 1024 then magnitude (v div 1024) (dv * 1024) (Suc ex) else (dv, ex))"
  by pat_completeness auto
termination
proof (relation "measure (\<lambda>(v, _, _). unat v)")
  fix v dv :: "64 word" and ex :: nat
  assume "1024 \<le> v"
  then have "1024 \<le> unat v" by (simp add: word_le_nat_alt)
  then show "((v div 1024, dv * 1024, Suc ex), v, dv, ex) \<in> measure (\<lambda>(v, _, _). unat v)"
    by (simp add: unat_div)
qed simp

declare magnitude.simps [simp del]

text \<open>\<open>humanBytes\<close>; an index past the suffixes would panic.\<close>

definition human_bytes :: "64 word \<Rightarrow> string option" where
  "human_bytes n =
     (if n < 1024 then Some (digits (unat n) @ ''B'')
      else
        let (dv, ex) = magnitude (n div 1024) 1024 0
        in if ex < length ''KMGTPE'' then Some (one_decimal (unat n) (unat dv) @ [''KMGTPE'' ! ex]) else None)"

text \<open>\<open>strconv.ParseUint(s, 8, 8)\<close> of three bytes.\<close>

definition octal_char :: "char \<Rightarrow> bool" where
  "octal_char c \<longleftrightarrow> 48 \<le> (of_char c :: nat) \<and> (of_char c :: nat) \<le> 55"

definition parse_octal :: "string \<Rightarrow> nat option" where
  "parse_octal s =
     (if s \<noteq> [] \<and> list_all octal_char s then
        let v = foldl (\<lambda>v c. 8 * v + (of_char c - 48)) 0 s in if v < 256 then Some v else None
      else None)"

fun unescape_loop :: "string \<Rightarrow> string" where
  "unescape_loop [] = []"
| "unescape_loop (c # s) =
     (case (if c = CHR 0x5C \<and> 3 \<le> length s then parse_octal (take 3 s) else None) of
        Some v \<Rightarrow> char_of v # unescape_loop (drop 3 s)
      | None \<Rightarrow> c # unescape_loop s)"

definition unescape_mount :: "string \<Rightarrow> string" where
  "unescape_mount s = (if CHR 0x5C \<notin> set s then s else unescape_loop s)"

definition pseudo_fs :: "string list" where
  "pseudo_fs = [''proc'', ''sysfs'', ''cgroup'', ''cgroup2'', ''devtmpfs'', ''devpts'', ''mqueue'', ''hugetlbfs'',
     ''debugfs'', ''tracefs'', ''securityfs'', ''pstore'', ''bpf'', ''configfs'', ''fusectl'', ''autofs'',
     ''binfmt_misc'', ''ramfs'', ''nsfs'']"

record statfs =
  sf_bsize :: "64 word"
  sf_blocks :: "64 word"
  sf_bfree :: "64 word"
  sf_bavail :: "64 word"

definition use_pct :: "64 word \<Rightarrow> 64 word \<Rightarrow> int" where
  "use_pct used avail =
     (if used + avail > 0 then sint ((used * 100 + (used + avail) div 2) div (used + avail)) else 0)"

definition disk_row :: "string \<Rightarrow> string \<Rightarrow> string \<Rightarrow> string \<Rightarrow> string \<Rightarrow> string \<Rightarrow> string" where
  "disk_row device size_col used_col avail_col pct_col mountpoint =
     pad_right 24 device @ '' '' @ pad_runes_left 8 size_col @ '' '' @ pad_runes_left 8 used_col @ '' '' @
     pad_runes_left 8 avail_col @ '' '' @ pct_col @ ''  '' @ mountpoint @ [newline]"

datatype disk_line = Skipped | Line string | LinePanic

definition disk_line_of :: "statfs \<Rightarrow> string \<Rightarrow> string \<Rightarrow> disk_line" where
  "disk_line_of st device mountpoint =
     (let total = sf_blocks st * sf_bsize st;
          avail = sf_bavail st * sf_bsize st;
          used = (sf_blocks st - sf_bfree st) * sf_bsize st
      in if total = 0 then Skipped
         else case (human_bytes total, human_bytes used, human_bytes avail) of
           (Some t, Some u, Some a) \<Rightarrow>
             Line (disk_row device t u a (pad_left 4 (itoa (use_pct used avail)) @ ''%'') mountpoint)
         | _ \<Rightarrow> LinePanic)"

datatype 'e disk_error = DiskTool "'e tool_error" | DiskPanic

fun disk_loop ::
  "(nat \<Rightarrow> 'e option) \<Rightarrow> (string \<Rightarrow> statfs option) \<Rightarrow> nat \<Rightarrow> string list \<Rightarrow> string \<Rightarrow> string list \<Rightarrow>
   'e disk_error + string" where
  "disk_loop ctx statfs k seen b [] = Inr b"
| "disk_loop ctx statfs k seen b (l # ls) =
     (case ctx k of
        Some e \<Rightarrow> Inl (DiskTool (ContextDone e))
      | None \<Rightarrow>
          (case go_fields l of
             dev # mnt # fstype # _ \<Rightarrow>
               let device = unescape_mount dev; mountpoint = unescape_mount mnt
               in if fstype \<in> set pseudo_fs \<or> mountpoint \<in> set seen then disk_loop ctx statfs (Suc k) seen b ls
                  else (case statfs mountpoint of
                    None \<Rightarrow> disk_loop ctx statfs (Suc k) (mountpoint # seen) b ls
                  | Some st \<Rightarrow>
                      (case disk_line_of st device mountpoint of
                         Skipped \<Rightarrow> disk_loop ctx statfs (Suc k) (mountpoint # seen) b ls
                       | Line t \<Rightarrow> disk_loop ctx statfs (Suc k) (mountpoint # seen) (b @ t) ls
                       | LinePanic \<Rightarrow> Inl DiskPanic))
           | _ \<Rightarrow> disk_loop ctx statfs (Suc k) seen b ls))"

definition disk_header :: string where
  "disk_header = disk_row ''Filesystem'' ''Size'' ''Used'' ''Avail'' (pad_left 5 ''Use%'') ''Mounted on''"

definition disk_remote ::
  "(string \<Rightarrow> 'e + unit) \<Rightarrow> 'e os_error + string \<Rightarrow> (string \<Rightarrow> statfs option) \<Rightarrow> (nat \<Rightarrow> 'e option) \<Rightarrow> env \<Rightarrow>
   string \<Rightarrow> 'e disk_error + tool_result" where
  "disk_remote unmarshal mounts statfs ctx env raw =
     bind_res (lift_err DiskTool (decode_args unmarshal () raw)) (\<lambda>_.
     bind_res (lift_err (DiskTool \<circ> OsCallFailed) mounts) (\<lambda>text.
     bind_res (disk_loop ctx statfs 0 [] disk_header (fst (scan_lines 65536 text))) (\<lambda>out.
       let (out, cap_trunc) = cap_output out (max_output (env_limits env))
       in Inr \<lparr>out_text = out, truncated = cap_trunc\<rparr>)))"

section \<open>Unescaping\<close>

text \<open>
  How the kernel writes a name: every byte of a set that has the backslash in it as three octal
  digits after a backslash.
\<close>

definition octal_escape :: "char \<Rightarrow> string" where
  "octal_escape c =
     (let n = of_char c :: nat
      in [CHR 0x5C, char_of (48 + n div 64), char_of (48 + n div 8 mod 8), char_of (48 + n mod 8)])"

definition mangle :: "(char \<Rightarrow> bool) \<Rightarrow> string \<Rightarrow> string" where
  "mangle special s = concat (map (\<lambda>c. if special c then octal_escape c else [c]) s)"

lemma octal_digit: "d \<le> 7 \<Longrightarrow> of_char (char_of (48 + d :: nat) :: char) = 48 + d"
  by simp

lemma parse_octal_escape: "parse_octal (tl (octal_escape c)) = Some (of_char c)"
proof -
  define n where "n = (of_char c :: nat)"
  have n: "n < 256" by (simp add: n_def)
  have d: "n div 64 \<le> 7" "n div 8 mod 8 \<le> 7" "n mod 8 \<le> 7" using n by arith+
  have "8 * (8 * (n div 64) + n div 8 mod 8) + n mod 8 = n"
  proof -
    have "n div 64 = n div 8 div 8" by (simp add: div_mult2_eq [symmetric])
    then show ?thesis by simp
  qed
  then show ?thesis
    using d n by (simp add: octal_escape_def Let_def parse_octal_def octal_char_def flip: n_def)
qed

lemma unescape_octal: "unescape_loop (octal_escape c @ s) = c # unescape_loop s"
proof -
  have e: "octal_escape c = CHR 0x5C # tl (octal_escape c)" "length (tl (octal_escape c)) = 3"
    by (simp_all add: octal_escape_def Let_def)
  have "unescape_loop (CHR 0x5C # tl (octal_escape c) @ s) = char_of (of_char c :: nat) # unescape_loop s"
    using e(2) by (simp add: parse_octal_escape)
  then show ?thesis using e(1) by (metis append_Cons char_of_char)
qed

lemma unescape_plain: "c \<noteq> CHR 0x5C \<Longrightarrow> unescape_loop (c # s) = c # unescape_loop s"
  by simp

lemma unescape_loop_mangle:
  "special (CHR 0x5C) \<Longrightarrow> unescape_loop (mangle special s) = s"
proof (induction s)
  case (Cons c s)
  then show ?case
    by (cases "special c") (auto simp: mangle_def unescape_octal simp del: unescape_loop.simps(2) intro!: unescape_plain [THEN trans])
qed (simp add: mangle_def)

lemma unescape_loop_id: "CHR 0x5C \<notin> set s \<Longrightarrow> unescape_loop s = s"
  by (induction s) auto

lemma unescape_mount_loop: "unescape_mount s = unescape_loop s"
  by (simp add: unescape_mount_def unescape_loop_id)

section \<open>Sizes\<close>

lemma unat_less_2p64: "unat (n :: 64 word) < 2 ^ 64"
  using unsigned_less [of n] by simp

lemma magnitude_ok:
  assumes "unat v = n div 1024 ^ Suc ex" "unat dv = 1024 ^ Suc ex" "1024 ^ Suc ex \<le> n" "n < 2 ^ 64"
  shows "\<exists>dv' ex'. magnitude v dv ex = (dv', ex') \<and> unat dv' = 1024 ^ Suc ex' \<and> 1024 ^ Suc ex' \<le> n \<and>
    n < 1024 ^ Suc (Suc ex') \<and> ex' < 6"
  using assms
proof (induction v dv ex rule: magnitude.induct)
  case (1 v dv ex)
  show ?case
  proof (cases "v \<ge> 1024")
    case True
    then have "1024 \<le> n div 1024 ^ Suc ex" using "1.prems"(1) by (simp add: word_le_nat_alt)
    then have le: "1024 ^ Suc (Suc ex) \<le> n"
      by (simp add: less_eq_div_iff_mult_less_eq mult.commute)
    have "unat (dv * 1024) = 1024 ^ Suc (Suc ex)"
    proof -
      have "unat dv * unat (1024 :: 64 word) < 2 ^ LENGTH(64)" using le "1.prems"(2,4) by simp
      then have "unat (dv * 1024) = unat dv * unat (1024 :: 64 word)" by (rule unat_mult_lem [THEN iffD1])
      then show ?thesis using "1.prems"(2) by simp
    qed
    moreover have "unat (v div 1024) = n div 1024 ^ Suc (Suc ex)"
      using "1.prems"(1) by (simp add: unat_div div_mult2_eq [symmetric] mult.commute)
    ultimately show ?thesis
      using "1.IH" [OF True] le "1.prems"(4) True by (subst magnitude.simps) simp
  next
    case False
    then have "n div 1024 ^ Suc ex < 1024" using "1.prems"(1) by (simp add: word_le_nat_alt)
    then have lt: "n < 1024 ^ Suc (Suc ex)" by (simp add: div_less_iff_less_mult)
    have "(1024::nat) ^ Suc ex < 1024 ^ 7" using "1.prems"(3,4) by simp
    then have "Suc ex < 7" by (rule power_less_imp_less_exp [rotated]) simp
    then have "ex < 6" by simp
    moreover have "magnitude v dv ex = (dv, ex)" using False by (subst magnitude.simps) simp
    ultimately show ?thesis using lt "1.prems"(2,3) by blast
  qed
qed

lemma human_bytes_cases:
  "n < 1024 \<and> human_bytes n = Some (digits (unat n) @ ''B'') \<or>
    (\<exists>ex<6. human_bytes n = Some (one_decimal (unat n) (1024 ^ Suc ex) @ [''KMGTPE'' ! ex]) \<and>
      1024 ^ Suc ex \<le> unat n \<and> unat n < 1024 ^ Suc (Suc ex))"
proof (cases "n < 1024")
  case False
  then have "1024 \<le> unat n" by (simp add: word_less_nat_alt)
  moreover have "unat (n div 1024) = unat n div 1024 ^ Suc 0" by (simp add: unat_div)
  ultimately obtain dv ex where m: "magnitude (n div 1024) 1024 0 = (dv, ex)" "unat dv = 1024 ^ Suc ex"
    "1024 ^ Suc ex \<le> unat n" "unat n < 1024 ^ Suc (Suc ex)" "ex < 6"
    using magnitude_ok [of "n div 1024" "unat n" 0 1024] unat_less_2p64 [of n] by auto
  then show ?thesis using False by (intro disjI2 exI [of _ ex]) (simp add: human_bytes_def)
qed (simp add: human_bytes_def)

lemma human_bytes_total: "human_bytes n \<noteq> None"
  using human_bytes_cases [of n] by auto

section \<open>The percentage\<close>

lemma sint_small:
  assumes "unat (w :: 64 word) < 2 ^ 63"
  shows "sint w = int (unat w)"
proof -
  have "uint w < 2 ^ 63" using assms by transfer simp
  moreover have "- (2 ^ 63) \<le> uint w" by (rule order_trans [OF _ uint_ge_0]) simp
  ultimately have "signed_take_bit 63 (uint w) = uint w" by (rule signed_take_bit_int_eq_self [rotated])
  then have "sint w = uint w" by (simp add: sint_uint)
  then show ?thesis by simp
qed

definition fits :: "64 word \<Rightarrow> 64 word \<Rightarrow> bool" where
  "fits used avail \<longleftrightarrow> unat used * 100 + (unat used + unat avail) div 2 < 2 ^ 64 \<and> unat used + unat avail < 2 ^ 64"

lemma nearest_arith:
  fixes X u r h t :: int
  assumes "X + r = 100 * u + h" "0 \<le> r" "r < t" "2 * h \<le> t" "t \<le> 2 * h + 1"
  shows "2 * \<bar>100 * u - X\<bar> \<le> t"
proof -
  have e: "100 * u - X = r - h" using assms(1) by (simp add: algebra_simps)
  have "2 * r - 2 * h \<le> t" "2 * h - 2 * r \<le> t" using assms(2-5) by linarith+
  then show ?thesis unfolding e by (simp add: abs_if)
qed

lemma percent_arith:
  assumes "0 < t" "u \<le> (t :: nat)" "P = (u * 100 + t div 2) div t"
  shows "P \<le> 100" "2 * \<bar>100 * int u - int P * int t\<bar> \<le> int t"
proof -
  define h where "h = t div 2"
  have h: "2 * h \<le> t" "t \<le> 2 * h + 1" unfolding h_def by arith+
  define r where "r = (u * 100 + h) mod t"
  have r: "r < t" using assms(1) by (simp add: r_def)
  have "P * t + r = u * 100 + h" by (simp add: assms(3) r_def h_def)
  then have "int (P * t + r) = int (u * 100 + h)" by (rule arg_cong)
  then have eq: "int P * int t + int r = 100 * int u + int h" by simp
  show "2 * \<bar>100 * int u - int P * int t\<bar> \<le> int t"
    by (rule nearest_arith [OF eq]) (use r h in simp_all)
  have "u * 100 + h < 101 * t" using assms(1,2) h by linarith
  then have "P < 101" by (simp add: assms(3) h_def less_mult_imp_div_less)
  then show "P \<le> 100" by simp
qed

lemma use_pct_unat:
  assumes "fits used avail" "0 < unat used + unat avail"
  shows "use_pct used avail = int ((unat used * 100 + (unat used + unat avail) div 2) div (unat used + unat avail))"
proof -
  let ?t = "unat used + unat avail"
  have t: "unat (used + avail) = ?t"
    using assms(1) by (intro unat_add_lem [THEN iffD1]) (simp add: fits_def)
  have m: "unat (used * 100) = unat used * 100"
  proof -
    have "unat used * unat (100 :: 64 word) < 2 ^ LENGTH(64)" using assms(1) by (simp add: fits_def)
    then have "unat (used * 100) = unat used * unat (100 :: 64 word)" by (rule unat_mult_lem [THEN iffD1])
    then show ?thesis by simp
  qed
  have h: "unat ((used + avail) div 2) = ?t div 2" by (simp add: unat_div t)
  have "unat (used * 100 + (used + avail) div 2) = unat used * 100 + ?t div 2"
    using assms(1) by (subst unat_add_lem [THEN iffD1]) (simp_all add: m h fits_def)
  then have w: "unat ((used * 100 + (used + avail) div 2) div (used + avail)) = (unat used * 100 + ?t div 2) div ?t"
    by (simp add: unat_div t)
  have "(unat used * 100 + ?t div 2) div ?t \<le> 100"
    using percent_arith(1) [OF assms(2) le_add1 refl] .
  moreover have "0 < used + avail" using t assms(2) by (simp add: word_gt_0 unat_eq_zero [symmetric])
  ultimately show ?thesis using w by (simp add: use_pct_def sint_small)
qed

text \<open>With 256 PiB used and as much available the product wraps: 18 per cent, not 50.\<close>

lemma use_pct_wraps: "use_pct (2 ^ 58) (2 ^ 58) = 18"
  by (simp add: use_pct_def)

section \<open>The table of mounts\<close>

definition mount_entry :: "string \<Rightarrow> (string \<times> string) option" where
  "mount_entry l =
     (case go_fields l of
        dev # mnt # fstype # _ \<Rightarrow>
          if fstype \<in> set pseudo_fs then None else Some (unescape_mount dev, unescape_mount mnt)
      | _ \<Rightarrow> None)"

fun first_mounts :: "string list \<Rightarrow> (string \<times> string) list \<Rightarrow> (string \<times> string) list" where
  "first_mounts seen [] = []"
| "first_mounts seen ((d, m) # es) =
     (if m \<in> set seen then first_mounts seen es else (d, m) # first_mounts (m # seen) es)"

definition mount_row :: "(string \<Rightarrow> statfs option) \<Rightarrow> string \<times> string \<Rightarrow> string" where
  "mount_row statfs = (\<lambda>(d, m).
     case statfs m of None \<Rightarrow> [] | Some st \<Rightarrow> (case disk_line_of st d m of Line t \<Rightarrow> t | _ \<Rightarrow> []))"

lemma no_panic: "disk_line_of st d m \<noteq> LinePanic"
proof -
  obtain t u a where "human_bytes (sf_blocks st * sf_bsize st) = Some t"
    "human_bytes ((sf_blocks st - sf_bfree st) * sf_bsize st) = Some u"
    "human_bytes (sf_bavail st * sf_bsize st) = Some a"
    using human_bytes_total by (meson not_None_eq)
  then show ?thesis by (simp add: disk_line_of_def Let_def)
qed

lemma disk_loop_step:
  "disk_loop ctx statfs k seen b (l # ls) =
     (case ctx k of
        Some e \<Rightarrow> Inl (DiskTool (ContextDone e))
      | None \<Rightarrow>
          (case mount_entry l of
             None \<Rightarrow> disk_loop ctx statfs (Suc k) seen b ls
           | Some (d, m) \<Rightarrow>
               if m \<in> set seen then disk_loop ctx statfs (Suc k) seen b ls
               else disk_loop ctx statfs (Suc k) (m # seen) (b @ mount_row statfs (d, m)) ls))"
  using no_panic
  by (auto simp: mount_entry_def mount_row_def Let_def split: option.splits list.splits disk_line.splits)

lemma disk_loop_rows:
  "disk_loop (\<lambda>_. None) statfs k seen b ls =
     Inr (b @ concat (map (mount_row statfs) (first_mounts seen (List.map_filter mount_entry ls))))"
proof (induction ls arbitrary: k seen b)
  case (Cons l ls)
  then show ?case
    unfolding disk_loop_step by (cases "mount_entry l") (auto simp: map_filter_simps simp del: disk_loop.simps)
qed (simp add: map_filter_simps)

lemma first_mounts_distinct:
  "distinct (map snd (first_mounts seen es)) \<and> snd ` set (first_mounts seen es) = snd ` set es - set seen"
  by (induction seen es rule: first_mounts.induct) auto

lemma disk_loop_no_panic: "disk_loop ctx statfs k seen b ls \<noteq> Inl DiskPanic"
proof (induction ls arbitrary: k seen b)
  case (Cons l ls)
  then show ?case unfolding disk_loop_step by (simp split: option.split)
qed simp

section \<open>Properties\<close>

text \<open>
  C37: The table \<open>disk\<close> prints is the header and a row for every mount point of the mount table that
  has a real file system type and that \<open>statfs\<close> finds nonempty, in the order of the mount table; a
  mount point named twice is printed once, under its first device.
\<close>

theorem disk_table:
  assumes "decode_args unmarshal () raw = Inr ()"
  shows "let mounts = first_mounts [] (List.map_filter mount_entry (fst (scan_lines 65536 text)));
      (out, cut) = cap_output (disk_header @ concat (map (mount_row statfs) mounts)) (max_output (env_limits env))
    in disk_remote unmarshal (Inr text) statfs (\<lambda>_. None) env raw = Inr \<lparr>out_text = out, truncated = cut\<rparr> \<and>
       distinct (map snd mounts)"
  using assms first_mounts_distinct [of "[]"]
  by (simp add: disk_remote_def disk_loop_rows split: prod.split)

text \<open>
  C38: The size formatting is in bounds for all 64-bit sizes: the index into the suffixes is below
  six and the divisor is the power of 1024 the size lies at or above, computed without
  wrap-around; so \<open>disk\<close> does not panic, whatever \<open>statfs\<close> reports and whenever it is cancelled.
\<close>

theorem disk_sizes_in_range:
  "(n < 1024 \<and> human_bytes n = Some (digits (unat n) @ ''B'') \<or>
    (\<exists>ex<6. human_bytes n = Some (one_decimal (unat n) (1024 ^ Suc ex) @ [''KMGTPE'' ! ex]) \<and>
      1024 ^ Suc ex \<le> unat n \<and> unat n < 1024 ^ Suc (Suc ex))) \<and>
   disk_remote unmarshal mounts statfs ctx env raw \<noteq> Inl DiskPanic"
proof
  show "disk_remote unmarshal mounts statfs ctx env raw \<noteq> Inl DiskPanic"
    using disk_loop_no_panic [of ctx statfs 0 "[]" disk_header]
    by (auto simp: disk_remote_def bind_res_eq_Inl lift_err_def split: sum.splits prod.splits)
qed (rule human_bytes_cases)

text \<open>
  Where the products fit in 64 bits, the percentage is between 0 and 100 and is the share of
  used space in used and available space, rounded to the nearest whole number.
\<close>

theorem disk_percent_nearest:
  assumes "fits used avail" "0 < unat used + unat avail"
  shows "0 \<le> use_pct used avail \<and> use_pct used avail \<le> 100 \<and>
    2 * \<bar>100 * int (unat used) - use_pct used avail * int (unat used + unat avail)\<bar> \<le> int (unat used + unat avail)"
  using percent_arith [OF assms(2) le_add1 refl] use_pct_unat [OF assms] by simp

text \<open>
  C39: Unescaping a field of the mount table undoes the kernel's escaping: whatever set of bytes is
  written as octal escapes, as long as the backslash is one of them, every name comes back as it
  was.
\<close>

theorem unescape_inverts_mangling:
  assumes "special (CHR 0x5C)"
  shows "unescape_mount (mangle special s) = s"
  using assms by (simp add: unescape_mount_loop unescape_loop_mangle)

section \<open>Witnesses\<close>

definition disk_env :: env where
  "disk_env = \<lparr>env_jail = \<lparr>roots = []\<rparr>, env_limits = \<lparr>max_output = - 1, timeout = 0\<rparr>, env_journalctl = []\<rparr>"

definition sample_mounts :: string where
  "sample_mounts = ''/dev/a / ext4 rw'' @ [newline] @ ''proc /proc proc rw'' @ [newline] @ ''/dev/b / ext4 rw'' @ [newline]"

definition sample_statfs :: "string \<Rightarrow> statfs option" where
  "sample_statfs m = Some \<lparr>sf_bsize = 1024, sf_blocks = 4, sf_bfree = 3, sf_bavail = 3\<rparr>"

lemma sample_mounts_scan:
  "fst (scan_lines 65536 sample_mounts) = [''/dev/a / ext4 rw'', ''proc /proc proc rw'', ''/dev/b / ext4 rw'']"
proof -
  have ls: "raw_lines sample_mounts = [''/dev/a / ext4 rw'', ''proc /proc proc rw'', ''/dev/b / ext4 rw'']"
    by code_simp
  have "scan_lines 65536 sample_mounts = (lines_of sample_mounts, False)"
    by (rule scan_lines_short) (simp add: ls)
  then show ?thesis by (simp add: lines_of_def ls drop_cr_def)
qed

lemma digits_small: "n < 10 \<Longrightarrow> digits n = [digit_char n]"
  by (subst digits.simps) simp

lemma float64_small: "n < 2 ^ 53 \<Longrightarrow> float64_of (Suc 0) n = n"
  by (subst float64_of.simps) (simp add: round_half_even_def)

lemma sample_digits: "char_of (48 :: nat) = CHR ''0''" "char_of (49 :: nat) = CHR ''1''"
  "char_of (51 :: nat) = CHR ''3''" "char_of (52 :: nat) = CHR ''4''"
  by code_simp+

lemma sample_sizes:
  "human_bytes 4096 = Some ''4.0K''" "human_bytes 3072 = Some ''3.0K''" "human_bytes 1024 = Some ''1.0K''"
  by (simp_all add: human_bytes_def magnitude.simps one_decimal_def float64_small round_half_even_def
      digits_small digit_char_def word_le_nat_alt sample_digits)

theorem disk_table_witness:
  "\<exists>out. disk_remote (\<lambda>_. Inl ()) (Inr sample_mounts) sample_statfs (\<lambda>_. None) disk_env [] =
     Inr \<lparr>out_text = disk_header @ out, truncated = False\<rparr> \<and>
     out = disk_row ''/dev/a'' ''4.0K'' ''1.0K'' ''3.0K'' (pad_left 4 ''25'' @ ''%'') ''/''"
proof -
  have m: "first_mounts [] (List.map_filter mount_entry
      [''/dev/a / ext4 rw'', ''proc /proc proc rw'', ''/dev/b / ext4 rw'']) = [(''/dev/a'', ''/'')]" by code_simp
  have r: "mount_row sample_statfs (''/dev/a'', ''/'') =
      disk_row ''/dev/a'' ''4.0K'' ''1.0K'' ''3.0K'' (pad_left 4 ''25'' @ ''%'') ''/''"
  proof -
    have "use_pct 1024 3072 = 25" by (simp add: use_pct_def)
    moreover have "itoa 25 = ''25''" by code_simp
    ultimately show ?thesis
      by (simp add: mount_row_def sample_statfs_def disk_line_of_def Let_def sample_sizes)
  qed
  have "decode_args (\<lambda>_. Inl ()) () [] = Inr ()" by (simp add: decode_args_def)
  from disk_table [OF this, of sample_mounts sample_statfs disk_env] show ?thesis
    unfolding sample_mounts_scan m Let_def by (simp add: r cap_output_def disk_env_def)
qed

theorem disk_percent_nearest_witness: "0 \<le> use_pct 1024 3072 \<and> use_pct 1024 3072 \<le> 100"
proof -
  have "fits 1024 3072" "0 < unat (1024 :: 64 word) + unat (3072 :: 64 word)" by (simp_all add: fits_def)
  from disk_percent_nearest [OF this] show ?thesis by blast
qed

theorem unescape_inverts_mangling_witness:
  "unescape_mount (mangle (\<lambda>c. c \<in> set '' ('' \<or> c = CHR 0x5C) (''a b'' @ [CHR 0x5C] @ ''040'')) =
     ''a b'' @ [CHR 0x5C] @ ''040''"
  by (rule unescape_inverts_mangling) simp

end
