(* ===== verification/Tool_Ps.thy ===== *)
theory Tool_Ps
  imports Tool_Env Go_Bufio Go_Strings Go_Utf8
begin

text \<open>
  The \<open>ps\<close> tool (\<open>internal/tools/tool_ps.go\<close>): reading a process out of \<open>/proc\<close>, and the table. The
  files of \<open>/proc\<close>, the user database and the process id and program name of the server itself are
  parameters; a file that cannot be read is \<open>None\<close>. The cache of user names is threaded through.
\<close>

section \<open>Numbers\<close>

text \<open>\<open>strconv.Atoi\<close> and \<open>ParseInt\<close> in base ten: the value, clamped to the range, and whether there was
  an error; a syntax error gives zero.\<close>

definition atoi :: "string \<Rightarrow> int \<times> bool" where
  "atoi s =
     (let (neg, ds) = (case s of [] \<Rightarrow> (False, []) | c # r \<Rightarrow>
            if c = CHR ''-'' then (True, r) else if c = CHR ''+'' then (False, r) else (False, s))
      in if ds = [] \<or> \<not> list_all is_digit ds then (0, True)
         else let v = (if neg then - digits_val ds else digits_val ds)
              in if v \<ge> 2 ^ 63 then (2 ^ 63 - 1, True)
                 else if v < - (2 ^ 63) then (- (2 ^ 63), True) else (v, False))"

text \<open>\<open>strconv.ParseUint(s, 10, 32)\<close>.\<close>

definition parse_uint32 :: "string \<Rightarrow> nat option" where
  "parse_uint32 s =
     (if s = [] \<or> \<not> list_all is_digit s then None
      else if digits_val s < 2 ^ 32 then Some (nat (digits_val s)) else None)"

section \<open>One process\<close>

record ps_row =
  ps_pid :: int
  ps_ppid :: int
  ps_user :: string
  ps_rss :: int
  ps_cmd :: string

record proc_fs =
  pf_stat :: "int \<Rightarrow> string option"
  pf_status :: "int \<Rightarrow> string option"
  pf_cmdline :: "int \<Rightarrow> string option"

text \<open>\<open>lookupUser\<close> with its cache; \<open>user_of\<close> is \<open>user.LookupId\<close>.\<close>

definition lookup_user ::
  "(string \<Rightarrow> string option) \<Rightarrow> (nat \<rightharpoonup> string) \<Rightarrow> nat \<Rightarrow> string \<times> (nat \<rightharpoonup> string)" where
  "lookup_user user_of cache uid =
     (case cache uid of
        Some name \<Rightarrow> (name, cache)
      | None \<Rightarrow>
          let name = digits uid;
              name = (case user_of name of Some u \<Rightarrow> u | None \<Rightarrow> name)
          in (name, cache(uid \<mapsto> name)))"

text \<open>One line of the status file.\<close>

definition status_line ::
  "(string \<Rightarrow> string option) \<Rightarrow> ps_row \<times> (nat \<rightharpoonup> string) \<Rightarrow> string \<Rightarrow> ps_row \<times> (nat \<rightharpoonup> string)" where
  "status_line user_of = (\<lambda>(row, cache) line.
     if has_prefix line ''Uid:'' then
       (case go_fields line of
          _ # u # _ \<Rightarrow>
            (case parse_uint32 u of
               Some uid \<Rightarrow> let (name, cache) = lookup_user user_of cache uid in (row\<lparr>ps_user := name\<rparr>, cache)
             | None \<Rightarrow> (row, cache))
        | _ \<Rightarrow> (row, cache))
     else if has_prefix line ''VmRSS:'' then
       (case go_fields line of _ # r # _ \<Rightarrow> (row\<lparr>ps_rss := fst (atoi r)\<rparr>, cache) | _ \<Rightarrow> (row, cache))
     else (row, cache))"

text \<open>\<open>strings.TrimRight(s, "\x00")\<close>.\<close>

definition trim_nuls :: "string \<Rightarrow> string" where
  "trim_nuls s = rev (dropWhile (\<lambda>c. c = CHR 0x00) (rev s))"

definition read_cmd :: "string option \<Rightarrow> string \<Rightarrow> string" where
  "read_cmd cmdline comm =
     (let cmd = (case cmdline of None \<Rightarrow> [] | Some cl \<Rightarrow> replace_byte CHR 0x00 CHR '' '' (trim_nuls cl))
      in if cmd = [] then ''['' @ comm @ '']'' else cmd)"

text \<open>The row before its command is filled in: the owner and the size are read out of the status file.\<close>

definition status_row ::
  "proc_fs \<Rightarrow> (string \<Rightarrow> string option) \<Rightarrow> (nat \<rightharpoonup> string) \<Rightarrow> int \<Rightarrow> int \<Rightarrow> ps_row \<times> (nat \<rightharpoonup> string)" where
  "status_row fs user_of cache pid ppid =
     (let row = \<lparr>ps_pid = pid, ps_ppid = ppid, ps_user = [], ps_rss = 0, ps_cmd = []\<rparr>;
          (row, cache) = (case pf_status fs pid of
             None \<Rightarrow> (row, cache)
           | Some st \<Rightarrow> foldl (status_line user_of) (row, cache) (fst (scan_lines 65536 st)))
      in (if ps_user row = [] then row\<lparr>ps_user := ''?''\<rparr> else row, cache))"

text \<open>
  The expression \<open>s[i:j]\<close> of Go, which panics when the bounds are not \<open>0 \<le> i \<le> j \<le> len(s)\<close>. Reading a
  process ends with a row, with none (it is gone, or its line makes no sense), or with such a panic.
\<close>

definition go_slice :: "string \<Rightarrow> nat \<Rightarrow> nat \<Rightarrow> string option" where
  "go_slice s i j = (if i \<le> j \<and> j \<le> length s then Some (take (j - i) (drop i s)) else None)"

datatype proc_read = NoRow | Row ps_row | RowPanic

definition read_proc ::
  "proc_fs \<Rightarrow> (string \<Rightarrow> string option) \<Rightarrow> (nat \<rightharpoonup> string) \<Rightarrow> int \<Rightarrow> proc_read \<times> (nat \<rightharpoonup> string)" where
  "read_proc fs user_of cache pid =
     (case pf_stat fs pid of
        None \<Rightarrow> (NoRow, cache)
      | Some s \<Rightarrow>
          (case (index_byte s CHR ''('', last_index_byte s CHR '')'') of
             (Some opn, Some close_p) \<Rightarrow>
               if close_p < opn then (NoRow, cache)
               else
                 (case (go_slice s (opn + 1) close_p, go_slice s (close_p + 1) (length s)) of
                    (Some comm, Some after) \<Rightarrow>
                      (case go_fields after of
                         _ # pp # _ \<Rightarrow>
                           let (row, cache) = status_row fs user_of cache pid (fst (atoi pp))
                           in (Row (row\<lparr>ps_cmd := read_cmd (pf_cmdline fs pid) comm\<rparr>), cache)
                       | _ \<Rightarrow> (NoRow, cache))
                  | _ \<Rightarrow> (RowPanic, cache))
           | _ \<Rightarrow> (NoRow, cache)))"

section \<open>The tool\<close>

definition ps_max_procs :: nat where
  "ps_max_procs = 5000"

datatype 'e ps_error = PsTool "'e tool_error" | PsPanic

text \<open>The loop over the entries of \<open>/proc\<close>, each with its name and whether it is a directory.\<close>

fun ps_loop ::
  "(nat \<Rightarrow> 'e option) \<Rightarrow> proc_fs \<Rightarrow> (string \<Rightarrow> string option) \<Rightarrow> int \<Rightarrow> string \<Rightarrow> nat \<Rightarrow> (nat \<rightharpoonup> string) \<Rightarrow>
   ps_row list \<Rightarrow> (string \<times> bool) list \<Rightarrow> 'e ps_error + ps_row list \<times> bool" where
  "ps_loop ctx fs user_of self arg0 k cache rows [] = Inr (rows, False)"
| "ps_loop ctx fs user_of self arg0 k cache rows ((name, is_dir) # es) =
     (case ctx k of
        Some e \<Rightarrow> Inl (PsTool (ContextDone e))
      | None \<Rightarrow>
          if \<not> is_dir \<or> snd (atoi name) then ps_loop ctx fs user_of self arg0 (Suc k) cache rows es
          else if length rows \<ge> ps_max_procs then Inr (rows, True)
          else (case read_proc fs user_of cache (fst (atoi name)) of
                  (RowPanic, cache) \<Rightarrow> Inl PsPanic
                | (NoRow, cache) \<Rightarrow> ps_loop ctx fs user_of self arg0 (Suc k) cache rows es
                | (Row row, cache) \<Rightarrow>
                    let row = (if ps_pid row = self then row\<lparr>ps_cmd := arg0\<rparr> else row)
                    in ps_loop ctx fs user_of self arg0 (Suc k) cache (rows @ [row]) es))"

definition ps_line :: "ps_row \<Rightarrow> string" where
  "ps_line r =
     pad_right 8 (itoa (ps_pid r)) @ '' '' @ pad_right 8 (itoa (ps_ppid r)) @ '' '' @ pad_right 12 (ps_user r) @
     '' '' @ pad_left 10 (itoa (ps_rss r)) @ ''  '' @ ps_cmd r @ [newline]"

definition ps_header :: string where
  "ps_header =
     pad_right 8 ''PID'' @ '' '' @ pad_right 8 ''PPID'' @ '' '' @ pad_right 12 ''USER'' @ '' '' @
     pad_left 10 ''RSS(kB)'' @ ''  '' @ ''CMD'' @ [newline]"

text \<open>\<open>sort.Slice\<close> sorts by process id; the ids of the entries of one directory are distinct.\<close>

definition ps_remote ::
  "(string \<Rightarrow> 'e + unit) \<Rightarrow> 'e os_error + (string \<times> bool) list \<Rightarrow> proc_fs \<Rightarrow> (string \<Rightarrow> string option) \<Rightarrow>
   int \<Rightarrow> string \<Rightarrow> (nat \<Rightarrow> 'e option) \<Rightarrow> env \<Rightarrow> string \<Rightarrow> 'e ps_error + tool_result" where
  "ps_remote unmarshal entries fs user_of self arg0 ctx env raw =
     bind_res (lift_err PsTool (decode_args unmarshal () raw)) (\<lambda>_.
     bind_res (lift_err (PsTool \<circ> OsCallFailed) entries) (\<lambda>es.
     bind_res (ps_loop ctx fs user_of self arg0 0 Map.empty [] es) (\<lambda>(rows, trunc).
       let text = ps_header @ concat (map ps_line (sort_key ps_pid rows));
           (out, cap_trunc) = cap_output text (max_output (env_limits env))
       in Inr \<lparr>out_text = out, truncated = trunc \<or> cap_trunc\<rparr>)))"

section \<open>Reading a process\<close>

lemma index_byte_first_paren:
  "CHR ''('' \<notin> set a \<Longrightarrow> index_byte (a @ CHR ''('' # b) CHR ''('' = Some (length a)"
  by simp

lemma last_index_byte_split:
  "c \<notin> set b \<Longrightarrow> last_index_byte (a @ c # b) c = Some (length a)"
  using index_byte_first [of c "rev b" "rev a"] by (simp add: last_index_byte_def)

lemma itoa_plain: "plain_word (itoa i)"
proof -
  have "list_all (\<lambda>c. 32 < (of_char c :: nat) \<and> (of_char c :: nat) < 127) (digits n)" for n
    using digits_are_digits [of n] by (auto simp: list_all_iff is_digit_code)
  then show ?thesis by (auto simp: plain_word_def itoa_def)
qed

lemma itoa_no_paren: "CHR ''('' \<notin> set (itoa i)" "CHR '')'' \<notin> set (itoa i)"
  using digits_no_char [of "CHR ''(''"] digits_no_char [of "CHR '')''"]
  by (auto simp: itoa_def is_digit_code)

lemma atoi_itoa:
  assumes "- (2 ^ 63) \<le> i" "i < 2 ^ 63"
  shows "atoi (itoa i) = (i, False)"
proof (cases "i < 0")
  case True
  then have "itoa i = CHR ''-'' # digits (nat (- i))" by (simp add: itoa_def)
  then show ?thesis using True assms by (simp add: atoi_def digits_are_digits digits_val_digits)
next
  case False
  then obtain c r where d: "digits (nat i) = c # r" "is_digit c"
    using digits_are_digits [of "nat i"] digits_not_Nil [of "nat i"] by (cases "digits (nat i)") auto
  then have "c \<noteq> CHR ''-''" "c \<noteq> CHR ''+''" by (auto simp: is_digit_code)
  moreover have "itoa i = c # r" using False d by (simp add: itoa_def)
  moreover have "list_all is_digit (c # r)" "digits_val (c # r) = i"
    using d(1) digits_are_digits [of "nat i"] digits_val_digits [of "nat i"] False by simp_all
  ultimately show ?thesis using assms by (simp add: atoi_def)
qed

lemma status_line_keeps:
  "ps_pid (fst (status_line u (row, cache) l)) = ps_pid row \<and>
   ps_ppid (fst (status_line u (row, cache) l)) = ps_ppid row"
  by (auto simp: status_line_def Let_def split: list.split option.split prod.split)

lemma status_lines_keep:
  "ps_pid (fst (foldl (status_line u) rc ls)) = ps_pid (fst rc) \<and>
   ps_ppid (fst (foldl (status_line u) rc ls)) = ps_ppid (fst rc)"
  using status_line_keeps by (induction ls arbitrary: rc) (simp, metis foldl_Cons prod.collapse)

lemma status_row_keeps:
  "ps_pid (fst (status_row fs u cache pid ppid)) = pid" "ps_ppid (fst (status_row fs u cache pid ppid)) = ppid"
  "ps_user (fst (status_row fs u cache pid ppid)) \<noteq> []"
  using status_lines_keep
  by (auto simp: status_row_def Let_def split: option.split prod.split) (metis fst_conv ps_row.select_convs)+

definition stat_text :: "int \<Rightarrow> string \<Rightarrow> string \<Rightarrow> int \<Rightarrow> string \<Rightarrow> string" where
  "stat_text pid comm st ppid rest =
     itoa pid @ '' ('' @ comm @ '') '' @ st @ '' '' @ itoa ppid @ '' '' @ rest"

lemma drop_append_len_Suc: "drop (length a + 1) (a @ c # b) = b"
  by simp

lemma index_byte_less: "index_byte s c = Some i \<Longrightarrow> i < length s \<and> s ! i = c"
  by (rule index_byte_cases [of c s]) (auto simp: nth_append)

lemma last_index_byte_less: "last_index_byte s c = Some i \<Longrightarrow> i < length s \<and> s ! i = c"
  by (auto simp: last_index_byte_def rev_nth dest!: index_byte_less split: option.splits)

text \<open>
  The two parentheses are different bytes, so when the second is not before the first it is after it, and
  both slices are in bounds.
\<close>

lemma comm_slices:
  assumes "index_byte s CHR ''('' = Some opn" "last_index_byte s CHR '')'' = Some cls" "\<not> cls < opn"
  shows "go_slice s (opn + 1) cls = Some (take (cls - (opn + 1)) (drop (opn + 1) s))"
    "go_slice s (cls + 1) (length s) = Some (drop (cls + 1) s)"
proof -
  have "opn \<noteq> cls" using index_byte_less [OF assms(1)] last_index_byte_less [OF assms(2)] by auto
  then show "go_slice s (opn + 1) cls = Some (take (cls - (opn + 1)) (drop (opn + 1) s))"
    "go_slice s (cls + 1) (length s) = Some (drop (cls + 1) s)"
    using last_index_byte_less [OF assms(2)] assms(3) by (auto simp: go_slice_def)
qed

lemma read_proc_slices:
  "read_proc fs u cache pid =
     (case pf_stat fs pid of
        None \<Rightarrow> (NoRow, cache)
      | Some s \<Rightarrow>
          (case (index_byte s CHR ''('', last_index_byte s CHR '')'') of
             (Some opn, Some cls) \<Rightarrow>
               if cls < opn then (NoRow, cache)
               else (case go_fields (drop (cls + 1) s) of
                       _ # pp # _ \<Rightarrow>
                         let (row, cache) = status_row fs u cache pid (fst (atoi pp))
                         in (Row (row\<lparr>ps_cmd := read_cmd (pf_cmdline fs pid) (take (cls - (opn + 1)) (drop (opn + 1) s))\<rparr>),
                             cache)
                     | _ \<Rightarrow> (NoRow, cache))
           | _ \<Rightarrow> (NoRow, cache)))"
  unfolding read_proc_def using comm_slices by (auto simp del: One_nat_def add_Suc_right split: option.split)

lemma read_proc_in_bounds: "fst (read_proc fs u cache pid) \<noteq> RowPanic"
  by (auto simp: read_proc_slices split: option.split list.split prod.split)

lemma ps_loop_no_panic: "ps_loop ctx fs u self arg0 k cache rows es \<noteq> Inl PsPanic"
proof (induction es arbitrary: k cache rows)
  case (Cons e es)
  obtain name is_dir where e: "e = (name, is_dir)" by (cases e)
  obtain r c where o: "read_proc fs u cache (fst (atoi name)) = (r, c)" by fastforce
  moreover have "r \<noteq> RowPanic" using read_proc_in_bounds [of fs u cache "fst (atoi name)"] o by simp
  ultimately show ?case using Cons.IH by (cases r) (auto simp: e Let_def split: option.split)
qed simp

lemma ps_no_panic: "ps_remote unmarshal entries fs u self arg0 ctx env raw \<noteq> Inl PsPanic"
proof
  assume "ps_remote unmarshal entries fs u self arg0 ctx env raw = Inl PsPanic"
  then obtain es where "ps_loop ctx fs u self arg0 0 Map.empty [] es = Inl PsPanic"
    by (auto simp: ps_remote_def lift_err_def res_simps split: sum.splits prod.splits)
  then show False using ps_loop_no_panic by metis
qed

lemma read_proc_split:
  assumes "pf_stat fs pid = Some s" "index_byte s CHR ''('' = Some opn" "last_index_byte s CHR '')'' = Some cls"
    and "opn \<le> cls" "take (cls - (opn + 1)) (drop (opn + 1) s) = comm"
    and "go_fields (drop (cls + 1) s) = x # pp # flds" "atoi pp = (ppid, bad)"
  shows "read_proc fs u cache pid =
    (let (row, cache) = status_row fs u cache pid ppid
     in (Row (row\<lparr>ps_cmd := read_cmd (pf_cmdline fs pid) comm\<rparr>), cache))"
  using assms read_proc_slices [of fs u cache pid] by simp

lemma read_proc_stat:
  assumes "pf_stat fs pid = Some (stat_text pid comm st ppid rest)" "plain_word st"
    and "CHR '')'' \<notin> set st \<union> set rest" "- (2 ^ 63) \<le> ppid" "ppid < 2 ^ 63"
  shows "read_proc fs u cache pid =
    (let (row, cache) = status_row fs u cache pid ppid
     in (Row (row\<lparr>ps_cmd := read_cmd (pf_cmdline fs pid) comm\<rparr>), cache))"
proof (rule read_proc_split [OF assms(1)])
  let ?s = "stat_text pid comm st ppid rest"
  let ?a = "itoa pid @ '' ''" and ?b = "CHR '' '' # st @ CHR '' '' # itoa ppid @ CHR '' '' # rest"
  have s1: "?s = ?a @ CHR ''('' # comm @ CHR '')'' # ?b" by (simp add: stat_text_def)
  have s2: "?s = (?a @ CHR ''('' # comm) @ CHR '')'' # ?b" by (simp add: stat_text_def)
  show "index_byte ?s CHR ''('' = Some (length ?a)"
    unfolding s1 using itoa_no_paren by (intro index_byte_first_paren) auto
  show "last_index_byte ?s CHR '')'' = Some (length (?a @ CHR ''('' # comm))"
    unfolding s2 using itoa_no_paren assms(3) by (intro last_index_byte_split) auto
  show "length ?a \<le> length (?a @ CHR ''('' # comm)" by simp
  show "take (length (?a @ CHR ''('' # comm) - (length ?a + 1)) (drop (length ?a + 1) ?s) = comm"
    unfolding s1 by simp
  have "drop (length (?a @ CHR ''('' # comm) + 1) ?s = ?b" unfolding s2 by (simp only: drop_append_len_Suc)
  then show "go_fields (drop (length (?a @ CHR ''('' # comm) + 1) ?s) = st # itoa ppid # go_fields rest"
    using fields_word [OF assms(2)] fields_word [OF itoa_plain] by simp
  show "atoi (itoa ppid) = (ppid, False)" using atoi_itoa [OF assms(4,5)] .
qed

section \<open>Command lines\<close>

lemma trim_nuls_snoc: "c \<noteq> CHR 0x00 \<Longrightarrow> trim_nuls (xs @ [c, CHR 0x00]) = xs @ [c]"
  by (simp add: trim_nuls_def)

lemma args_joined:
  "args \<noteq> [] \<Longrightarrow> concat (map (\<lambda>x. x @ [CHR 0x00]) args) = join_with [CHR 0x00] args @ [CHR 0x00]"
  by (induction "[CHR 0x00]" args rule: join_with.induct) auto

lemma join_with_last:
  "args \<noteq> [] \<Longrightarrow> last args \<noteq> [] \<Longrightarrow> \<exists>ys. join_with sep args = ys @ [last (last args)]"
proof (induction sep args rule: join_with.induct)
  case (2 sep x)
  then show ?case by (auto intro: exI [of _ "butlast x"])
next
  case (3 sep x y ys)
  then obtain zs where "join_with sep (y # ys) = zs @ [last (last (y # ys))]" by auto
  then have "join_with sep (x # y # ys) = (x @ sep @ zs) @ [last (last (x # y # ys))]" by simp
  then show ?case by blast
qed simp

lemma replace_byte_join:
  "list_all (\<lambda>a. c \<notin> set a) args \<Longrightarrow> replace_byte c d (join_with [c] args) = join_with [d] args"
  by (induction "[c]" args rule: join_with.induct) (auto simp: replace_byte_def intro!: map_idI)

lemma read_cmd_args:
  assumes "list_all (\<lambda>a. CHR 0x00 \<notin> set a) args" "args \<noteq> []" "last args \<noteq> []"
  shows "read_cmd (Some (concat (map (\<lambda>x. x @ [CHR 0x00]) args))) comm = join_with '' '' args"
proof -
  obtain ys where ys: "join_with [CHR 0x00] args = ys @ [last (last args)]"
    using join_with_last [OF assms(2,3)] by blast
  have "last (last args) \<noteq> CHR 0x00" using assms by (metis last_in_set list_all_iff)
  then have "trim_nuls (join_with [CHR 0x00] args @ [CHR 0x00]) = join_with [CHR 0x00] args"
    using trim_nuls_snoc by (simp add: ys)
  moreover have "join_with '' '' args \<noteq> []" using join_with_last [OF assms(2,3), of "'' ''"] by auto
  ultimately show ?thesis
    using replace_byte_join [OF assms(1)] by (simp add: read_cmd_def args_joined [OF assms(2)])
qed

section \<open>The loop\<close>

lemma read_proc_pid: "read_proc fs u cache pid = (Row row, cache') \<Longrightarrow> ps_pid row = pid"
  by (auto simp: read_proc_slices split: option.splits list.splits prod.splits if_splits)
    (metis fst_conv status_row_keeps(1))

text \<open>Which command line a process has only shows in the command of its own row.\<close>

lemma read_proc_cmdline:
  assumes "pf_stat fs = pf_stat fs'" "pf_status fs = pf_status fs'"
  shows "(\<exists>c. read_proc fs u cache pid = (NoRow, c) \<and> read_proc fs' u cache pid = (NoRow, c)) \<or>
    (\<exists>row comm c. ps_pid row = pid \<and>
       read_proc fs u cache pid = (Row (row\<lparr>ps_cmd := read_cmd (pf_cmdline fs pid) comm\<rparr>), c) \<and>
       read_proc fs' u cache pid = (Row (row\<lparr>ps_cmd := read_cmd (pf_cmdline fs' pid) comm\<rparr>), c))"
proof (cases "\<exists>c. read_proc fs u cache pid = (NoRow, c)")
  case True
  then show ?thesis
    using assms by (auto simp: read_proc_slices split: option.splits list.splits prod.splits if_splits)
next
  case False
  then obtain s opn cls x pp flds where s: "pf_stat fs pid = Some s" "index_byte s CHR ''('' = Some opn"
      "last_index_byte s CHR '')'' = Some cls" "opn \<le> cls" "go_fields (drop (cls + 1) s) = x # pp # flds"
    by (auto simp: read_proc_slices split: option.splits list.splits if_splits)
  have "pf_stat fs' pid = Some s" using s(1) assms by simp
  note r = read_proc_split [OF this s(2-4) refl s(5) prod.collapse [symmetric], of u cache]
    read_proc_split [OF s(1-4) refl s(5) prod.collapse [symmetric], of u cache]
  let ?r = "status_row fs u cache pid (fst (atoi pp))"
  have "status_row fs' u cache pid (fst (atoi pp)) = ?r" using assms by (simp add: status_row_def)
  then show ?thesis
    using r status_row_keeps(1) [of fs u cache pid "fst (atoi pp)"] by (cases ?r) auto
qed

lemma ps_loop_cmdline:
  assumes "pf_stat fs = pf_stat fs'" "pf_status fs = pf_status fs'"
    and "\<And>pid. pid \<noteq> self \<Longrightarrow> pf_cmdline fs pid = pf_cmdline fs' pid"
  shows "ps_loop ctx fs u self arg0 k cache rows es = ps_loop ctx fs' u self arg0 k cache rows es"
proof (induction es arbitrary: k cache rows)
  case (Cons e es)
  obtain name is_dir where e: "e = (name, is_dir)" by (cases e)
  let ?p = "fst (atoi name)"
  from read_proc_cmdline [OF assms(1,2), of u cache ?p] show ?case
  proof (elim disjE exE conjE)
    fix c assume "read_proc fs u cache ?p = (NoRow, c)" "read_proc fs' u cache ?p = (NoRow, c)"
    then show ?thesis using Cons.IH by (auto simp: e split: option.split)
  next
    fix row comm c
    assume r: "ps_pid row = ?p"
      "read_proc fs u cache ?p = (Row (row\<lparr>ps_cmd := read_cmd (pf_cmdline fs ?p) comm\<rparr>), c)"
      "read_proc fs' u cache ?p = (Row (row\<lparr>ps_cmd := read_cmd (pf_cmdline fs' ?p) comm\<rparr>), c)"
    show ?thesis
      using Cons.IH r assms(3) [of ?p] by (cases "?p = self") (auto simp: e split: option.split)
  qed
qed simp

lemma ps_loop_rows:
  assumes "ps_loop ctx fs u self arg0 k cache rows es = Inr (rows', trunc)" "length rows \<le> ps_max_procs"
  shows "length rows' \<le> ps_max_procs \<and> (trunc \<longrightarrow> length rows' = ps_max_procs) \<and>
    (\<exists>more. rows' = rows @ more \<and>
      set (map ps_pid more) \<subseteq> {fst (atoi name) |name. (name, True) \<in> set es \<and> \<not> snd (atoi name)})"
  using assms
proof (induction es arbitrary: k cache rows)
  case (Cons e es)
  obtain name is_dir where e: "e = (name, is_dir)" by (cases e)
  let ?P = "\<lambda>es. {fst (atoi name) |name. (name, True) \<in> set es \<and> \<not> snd (atoi name)}"
  have sub: "?P es \<subseteq> ?P (e # es)" by auto
  have ctx: "ctx k = None" using Cons.prems by (simp add: e split: option.splits)
  consider (skip) k cache where "ps_loop ctx fs u self arg0 k cache rows es = Inr (rows', trunc)"
    | (full) "length rows \<ge> ps_max_procs" "rows' = rows" "trunc"
    | (row) k cache row where "is_dir" "\<not> snd (atoi name)" "ps_pid row = fst (atoi name)"
        "length rows < ps_max_procs"
        "ps_loop ctx fs u self arg0 k cache (rows @ [row]) es = Inr (rows', trunc)"
  proof (cases "\<not> is_dir \<or> snd (atoi name) \<or> length rows \<ge> ps_max_procs")
    case True
    then have "ps_loop ctx fs u self arg0 (Suc k) cache rows es = Inr (rows', trunc) \<or>
        (length rows \<ge> ps_max_procs \<and> rows' = rows \<and> trunc)"
      using Cons.prems(1) ctx by (simp add: e split: if_splits)
    then show ?thesis using that(1,2) by blast
  next
    case False
    then have d: "is_dir" "\<not> snd (atoi name)" "length rows < ps_max_procs" by auto
    obtain res c where o: "read_proc fs u cache (fst (atoi name)) = (res, c)" by fastforce
    show ?thesis
    proof (cases res)
      case RowPanic
      then show ?thesis using read_proc_in_bounds [of fs u cache "fst (atoi name)"] o by simp
    next
      case NoRow
      then have "ps_loop ctx fs u self arg0 (Suc k) c rows es = Inr (rows', trunc)"
        using Cons.prems(1) ctx d o by (simp add: e)
      then show ?thesis by (rule that(1))
    next
      case (Row r)
      let ?r = "if ps_pid r = self then r\<lparr>ps_cmd := arg0\<rparr> else r"
      have "ps_loop ctx fs u self arg0 (Suc k) c (rows @ [?r]) es = Inr (rows', trunc)"
        using Cons.prems(1) ctx d o Row by (simp add: e Let_def)
      moreover have "ps_pid ?r = fst (atoi name)" using read_proc_pid o Row by simp
      ultimately show ?thesis using that(3) d by blast
    qed
  qed
  then show ?case
  proof cases
    case skip
    from Cons.IH [OF this Cons.prems(2)] show ?thesis by (elim conjE exE) (intro conjI exI, auto)
  next
    case full
    then show ?thesis using Cons.prems(2) by auto
  next
    case row
    have "length (rows @ [row]) \<le> ps_max_procs" using row(4) by simp
    from Cons.IH [OF row(5) this] obtain more where "length rows' \<le> ps_max_procs"
        "trunc \<longrightarrow> length rows' = ps_max_procs" "rows' = (rows @ [row]) @ more" "set (map ps_pid more) \<subseteq> ?P es"
      by blast
    moreover have "ps_pid row \<in> ?P (e # es)" using row(1-3) e by auto
    ultimately show ?thesis by (intro conjI exI [of _ "row # more"]) auto
  qed
qed simp

section \<open>Properties\<close>

text \<open>
  The arguments the server was started with cannot show in the table. Two machines that differ in
  nothing but the command line of the server's own process give the same output, error or truncation, so
  the output carries no information about it (it may hold a database password).
\<close>

lemma ps_hides_own_args:
  assumes "pf_stat fs = pf_stat fs'" "pf_status fs = pf_status fs'"
    and "\<forall>pid. pid \<noteq> self \<longrightarrow> pf_cmdline fs pid = pf_cmdline fs' pid"
  shows "ps_remote unmarshal entries fs user_of self arg0 ctx env raw =
         ps_remote unmarshal entries fs' user_of self arg0 ctx env raw"
proof -
  have "ps_loop ctx fs user_of self arg0 0 Map.empty [] es =
      ps_loop ctx fs' user_of self arg0 0 Map.empty [] es" for es
    using assms by (intro ps_loop_cmdline) auto
  then show ?thesis by (simp add: ps_remote_def)
qed

text \<open>
  C40: A process is read out of its stat line whatever its name is. For any \<open>comm\<close>, closing parentheses
  and spaces included, the row has the id of the process, the parent named after the state, an owner, and as
  command its arguments with spaces between them, or the name in brackets when it has no arguments.
\<close>

theorem ps_parses_any_comm:
  assumes "pf_stat fs pid = Some (stat_text pid comm st ppid rest)"
    and "plain_word st" "CHR '')'' \<notin> set st \<union> set rest" "- (2 ^ 63) \<le> ppid" "ppid < 2 ^ 63"
    and "pf_cmdline fs pid = Some (concat (map (\<lambda>a. a @ [CHR 0x00]) args))"
    and "list_all (\<lambda>a. CHR 0x00 \<notin> set a) args" "args \<noteq> [] \<longrightarrow> last args \<noteq> []"
  shows "\<exists>row cache'. read_proc fs user_of cache pid = (Row row, cache') \<and> ps_pid row = pid \<and>
    ps_ppid row = ppid \<and> ps_user row \<noteq> [] \<and>
    ps_cmd row = (if args = [] then ''['' @ comm @ '']'' else join_with '' '' args)"
proof -
  have "read_cmd (pf_cmdline fs pid) comm =
      (if args = [] then ''['' @ comm @ '']'' else join_with '' '' args)"
  proof (cases "args = []")
    case True
    then show ?thesis using assms(6) by (simp add: read_cmd_def trim_nuls_def replace_byte_def)
  next
    case False
    then show ?thesis using read_cmd_args [OF assms(7) False] assms(6,8) by simp
  qed
  then show ?thesis
    using read_proc_stat [OF assms(1-5), of user_of cache] status_row_keeps [of fs user_of cache pid ppid]
    by (cases "status_row fs user_of cache pid ppid") simp
qed

definition demo_fs :: "string list \<Rightarrow> proc_fs" where
  "demo_fs args = \<lparr>pf_stat = (\<lambda>p. if p \<in> {7, 12} then Some (stat_text p ''a) b'' ''S'' 1 ''0 0'') else None),
     pf_status = (\<lambda>_. None),
     pf_cmdline = (\<lambda>p. if p = 12 then Some (concat (map (\<lambda>a. a @ [CHR 0x00]) args)) else Some [])\<rparr>"

definition ps_env :: env where
  "ps_env = \<lparr>env_jail = \<lparr>roots = []\<rparr>, env_limits = \<lparr>max_output = - 1, timeout = 0\<rparr>, env_journalctl = []\<rparr>"

lemma ps_hides_own_args_witness:
  "ps_remote (\<lambda>_. Inr ()) (Inr [(''12'', True)] :: unit os_error + _) (demo_fs [''rpeek'', ''--db'', ''secret'']) Map.empty 12
     ''rpeek'' (\<lambda>_. None) ps_env [] =
   ps_remote (\<lambda>_. Inr ()) (Inr [(''12'', True)]) (demo_fs []) Map.empty 12 ''rpeek'' (\<lambda>_. None) ps_env []"
  by (rule ps_hides_own_args) (simp_all add: demo_fs_def)

lemma ps_parses_any_comm_witness:
  "\<exists>row cache'. read_proc (demo_fs [''sh'', ''-c'']) Map.empty Map.empty 12 = (Row row, cache') \<and> ps_pid row = 12 \<and>
    ps_ppid row = 1 \<and> ps_user row \<noteq> [] \<and> ps_cmd row = ''sh -c''"
  using ps_parses_any_comm [of "demo_fs [''sh'', ''-c'']" 12 "''a) b''" "''S''" 1 "''0 0''" "[''sh'', ''-c'']" Map.empty Map.empty]
  by (simp add: demo_fs_def plain_word_def)

end
