(* ===== verification/Tool_Info.thy ===== *)
theory Tool_Info
  imports Tool_List Registry Go_Utf8 Go_Bufio
begin

text \<open>
  The tools that read next to nothing: \<open>stat\<close>, \<open>hostname\<close>, \<open>version\<close> and \<open>help\<close>
  (\<open>internal/tools/tool_stat.go\<close>, \<open>tool_hostname.go\<close>, \<open>tool_version.go\<close>, \<open>tool_help.go\<close>) and the version of
  the build (\<open>internal/version/version.go\<close>). The metadata of a file is a parameter, with the mode
  and the time as the strings the code prints, as are the kernel's hostname and the build info.
\<close>

section \<open>stat\<close>

record stat_info =
  st_file :: file_info
  st_owner :: "(nat \<times> nat) option"

definition stat_text_of :: "string \<Rightarrow> stat_info \<Rightarrow> string" where
  "stat_text_of real info =
     ''name:    '' @ base_path real @ [newline] @
     ''path:    '' @ real @ [newline] @
     ''size:    '' @ itoa (fi_size (st_file info)) @ [newline] @
     ''mode:    '' @ fi_mode (st_file info) @ [newline] @
     ''modtime: '' @ fi_time (st_file info) @ [newline] @
     (case st_owner info of
        None \<Rightarrow> []
      | Some (uid, gid) \<Rightarrow> ''uid:     '' @ digits uid @ [newline] @ ''gid:     '' @ digits gid @ [newline])"

definition stat_remote ::
  "(string \<Rightarrow> 'e + string) \<Rightarrow> 'e os \<Rightarrow> (string \<Rightarrow> 'e os_error + stat_info) \<Rightarrow> env \<Rightarrow> string \<Rightarrow>
   'e tool_error + tool_result" where
  "stat_remote unmarshal os stat env raw =
     bind_res (decode_args unmarshal [] raw) (\<lambda>path.
     bind_res (lift_err JailFailed (resolve_path os (env_jail env) path)) (\<lambda>real.
     bind_res (lift_err OsCallFailed (stat real)) (\<lambda>info.
       let (out, cap_trunc) = cap_output (stat_text_of real info) (max_output (env_limits env))
       in Inr \<lparr>out_text = out, truncated = cap_trunc\<rparr>)))"

section \<open>hostname and version\<close>

definition hostname_remote ::
  "(string \<Rightarrow> 'e + unit) \<Rightarrow> 'e os_error + string \<Rightarrow> env \<Rightarrow> string \<Rightarrow> 'e tool_error + tool_result" where
  "hostname_remote unmarshal host env raw =
     bind_res (decode_args unmarshal () raw) (\<lambda>_.
     bind_res (lift_err OsCallFailed host) (\<lambda>name.
       let (out, cap_trunc) = cap_output (name @ [newline]) (max_output (env_limits env))
       in Inr \<lparr>out_text = out, truncated = cap_trunc\<rparr>))"

text \<open>The value of \<open>Version\<close> after the package's \<open>init\<close>: what the linker stamped, or else the version of
  the main module, if the binary has build info.\<close>

definition version_init :: "string \<Rightarrow> string option \<Rightarrow> string" where
  "version_init stamped build_info =
     (if stamped \<noteq> ''dev'' then stamped
      else case build_info of
        None \<Rightarrow> stamped
      | Some v \<Rightarrow> if v \<noteq> [] \<and> v \<noteq> ''(devel)'' then v else stamped)"

definition version_remote ::
  "(string \<Rightarrow> 'e + unit) \<Rightarrow> string \<Rightarrow> env \<Rightarrow> string \<Rightarrow> 'e tool_error + tool_result" where
  "version_remote unmarshal version env raw =
     bind_res (decode_args unmarshal () raw) (\<lambda>_.
       let (out, cap_trunc) = cap_output (version @ [newline]) (max_output (env_limits env))
       in Inr \<lparr>out_text = out, truncated = cap_trunc\<rparr>)"

definition version_local ::
  "(string \<Rightarrow> 'e + unit) \<Rightarrow> string \<Rightarrow> env \<Rightarrow> string \<Rightarrow> 'e tool_error + tool_result" where
  "version_local unmarshal version env raw = version_remote unmarshal version env raw"

section \<open>help\<close>

text \<open>An em dash in UTF-8.\<close>

definition em_dash :: string where
  "em_dash = [CHR 0xE2, CHR 0x80, CHR 0x94]"

definition help_line :: "('c, 'e) tool \<Rightarrow> string" where
  "help_line t = ''  '' @ pad_right 8 (t_name t) @ '' '' @ t_summary t @ [newline]"

definition general_help :: "('c, 'e) registry \<Rightarrow> string" where
  "general_help r =
     ''rpeek '' @ em_dash @ '' read-only remote diagnostic tool (server + one-shot client)'' @ [newline, newline] @
     ''Usage:'' @ [newline] @
     ''  rpeek [--host HOST[:PORT]] [--token TOKEN] serve [flags] [roots...]'' @ [newline] @
     ''  rpeek [--host HOST[:PORT]] [--token TOKEN] <tool> [args]'' @ [newline] @
     ''  rpeek help [tool]'' @ [newline, newline] @
     ''Server:'' @ [newline] @
     concat (map help_line (filter t_serves (registered r))) @
     [newline] @ ''Tools (all READ-ONLY):'' @ [newline] @
     concat (map help_line (filter (\<lambda>t. \<not> t_serves t) (registered r))) @
     [newline] @ ''Run 'rpeek help <tool>' for a tool's arguments.'' @ [newline]"

definition trim_newlines :: "string \<Rightarrow> string" where
  "trim_newlines s = rev (dropWhile (\<lambda>c. c = newline) (rev s))"

text \<open>A tool has flags when its flag set has a name.\<close>

definition tool_help :: "('c, 'e) tool \<Rightarrow> string" where
  "tool_help t =
     ''Usage: rpeek [--host HOST[:PORT]] [--token TOKEN] '' @ t_usage t @ [newline, newline] @
     ''  '' @ t_summary t @ [newline] @
     (if t_flags t \<noteq> Map.empty then [newline] @ ''Flags:'' @ [newline] @ t_flag_help t else []) @
     (case t_detail t of None \<Rightarrow> [] | Some h \<Rightarrow> [newline] @ trim_newlines h @ [newline]) @
     (if t_serves t then
        [newline] @ ''Roots are the directories file tools may read within; with none given,'' @ [newline] @
        ''serve jails to the current working directory.'' @ [newline]
      else
        [newline] @ ''Global: --host, --token (or RPEEK_HOST, RPEEK_TOKEN) may appear before or after'' @ [newline] @
        ''the tool name. Paths are the host's real paths and must fall within a jail'' @ [newline] @
        ''root the server granted.'' @ [newline])"

definition help_local ::
  "(string \<Rightarrow> 'e + string) \<Rightarrow> ('c, 'f) registry \<Rightarrow> string \<Rightarrow> 'e tool_error + tool_result" where
  "help_local unmarshal r raw =
     bind_res (decode_args unmarshal [] raw) (\<lambda>topic.
       if topic = [] then Inr \<lparr>out_text = general_help r, truncated = False\<rparr>
       else case lookup_tool r topic of
         None \<Rightarrow> Inl (UnknownTool topic)
       | Some t \<Rightarrow> Inr \<lparr>out_text = tool_help t, truncated = False\<rparr>)"

end
