(* ===== verification/Cli_Args.thy ===== *)
theory Cli_Args
  imports Tool_Files Tool_List Tool_Grep Tool_Journal Tool_Sql Tool_Info Dbconn
begin

text \<open>
  The \<open>NewFlags\<close> method of every tool (\<open>internal/tools/tool_*.go\<close>): the flag set it declares, and the
  builder that turns the parsed values and the positional arguments into the tool's wire arguments or
  an error of usage.
\<close>

section \<open>Flag values\<close>

text \<open>Reading a flag through the pointer \<open>String\<close>, \<open>Bool\<close>, \<open>Int\<close>, \<open>Duration\<close> or \<open>Var\<close> returned.\<close>

definition flag_string :: "flag_set \<Rightarrow> string \<Rightarrow> string" where
  "flag_string fs n = (case fs n of Some (StringFlag s) \<Rightarrow> s | _ \<Rightarrow> [])"

definition flag_bool :: "flag_set \<Rightarrow> string \<Rightarrow> bool" where
  "flag_bool fs n = (case fs n of Some (BoolFlag b) \<Rightarrow> b | _ \<Rightarrow> False)"

definition flag_int :: "flag_set \<Rightarrow> string \<Rightarrow> int" where
  "flag_int fs n = (case fs n of Some (IntFlag i) \<Rightarrow> i | _ \<Rightarrow> 0)"

definition flag_duration :: "flag_set \<Rightarrow> string \<Rightarrow> int" where
  "flag_duration fs n = (case fs n of Some (DurationFlag i) \<Rightarrow> i | _ \<Rightarrow> 0)"

definition flag_list :: "flag_set \<Rightarrow> string \<Rightarrow> string list" where
  "flag_list fs n = (case fs n of Some (ListFlag ss) \<Rightarrow> ss | _ \<Rightarrow> [])"

datatype usage_error =
    BadArg arg_error
  | PatternMissing
  | TooManyTopics
  | BadDbFlag flag_error

section \<open>The file tools\<close>

definition list_flags :: flag_set where
  "list_flags = [''all'' \<mapsto> BoolFlag False]"

definition list_build :: "flag_set \<Rightarrow> string list \<Rightarrow> usage_error + list_args" where
  "list_build fs pos =
     bind_res (lift_err BadArg (single_path ''list'' pos)) (\<lambda>path.
       Inr \<lparr>la_path = path, la_all = flag_bool fs ''all''\<rparr>)"

definition tail_flags :: flag_set where
  "tail_flags = [''lines'' \<mapsto> IntFlag 0]"

definition tail_build :: "flag_set \<Rightarrow> string list \<Rightarrow> usage_error + tail_args" where
  "tail_build fs pos =
     bind_res (lift_err BadArg (single_path ''tail'' pos)) (\<lambda>path.
       Inr \<lparr>ta_path = path, ta_lines = flag_int fs ''lines''\<rparr>)"

definition read_flags :: flag_set where
  "read_flags = [''max-bytes'' \<mapsto> IntFlag 0, ''offset'' \<mapsto> IntFlag 0]"

definition read_build :: "flag_set \<Rightarrow> string list \<Rightarrow> usage_error + read_args" where
  "read_build fs pos =
     bind_res (lift_err BadArg (single_path ''read'' pos)) (\<lambda>path.
       Inr \<lparr>ra_path = path, ra_max_bytes = flag_int fs ''max-bytes'', ra_offset = flag_int fs ''offset''\<rparr>)"

definition grep_flags :: flag_set where
  "grep_flags = [''pattern'' \<mapsto> StringFlag [], ''ignore-case'' \<mapsto> BoolFlag False, ''max-matches'' \<mapsto> IntFlag 0]"

definition grep_build :: "flag_set \<Rightarrow> string list \<Rightarrow> usage_error + grep_args" where
  "grep_build fs pos =
     bind_res (lift_err BadArg (single_path ''grep'' pos)) (\<lambda>path.
       if flag_string fs ''pattern'' = [] then Inl PatternMissing
       else Inr \<lparr>ga_path = path, ga_pattern = flag_string fs ''pattern'',
                 ga_ignore_case = flag_bool fs ''ignore-case'', ga_max_matches = flag_int fs ''max-matches''\<rparr>)"

text \<open>\<open>stat\<close> declares no flags; its arguments are a path.\<close>

definition stat_build :: "flag_set \<Rightarrow> string list \<Rightarrow> usage_error + string" where
  "stat_build fs pos = lift_err BadArg (single_path ''stat'' pos)"

section \<open>The system tools\<close>

definition journal_flags :: flag_set where
  "journal_flags = [''unit'' \<mapsto> StringFlag [], ''lines'' \<mapsto> IntFlag 0]"

definition journal_build :: "flag_set \<Rightarrow> string list \<Rightarrow> usage_error + journal_args" where
  "journal_build fs pos =
     bind_res (lift_err BadArg (no_positionals ''journal'' pos)) (\<lambda>_.
       Inr \<lparr>jn_unit = flag_string fs ''unit'', jn_lines = flag_int fs ''lines''\<rparr>)"

text \<open>The tools without arguments.\<close>

definition disk_build :: "flag_set \<Rightarrow> string list \<Rightarrow> usage_error + unit" where
  "disk_build fs pos = lift_err BadArg (no_positionals ''disk'' pos)"

definition ps_build :: "flag_set \<Rightarrow> string list \<Rightarrow> usage_error + unit" where
  "ps_build fs pos = lift_err BadArg (no_positionals ''ps'' pos)"

definition hostname_build :: "flag_set \<Rightarrow> string list \<Rightarrow> usage_error + unit" where
  "hostname_build fs pos = lift_err BadArg (no_positionals ''hostname'' pos)"

definition version_build :: "flag_set \<Rightarrow> string list \<Rightarrow> usage_error + unit" where
  "version_build fs pos = lift_err BadArg (no_positionals ''version'' pos)"

definition help_build :: "flag_set \<Rightarrow> string list \<Rightarrow> usage_error + string" where
  "help_build fs pos = (case pos of [] \<Rightarrow> Inr [] | [topic] \<Rightarrow> Inr topic | _ \<Rightarrow> Inl TooManyTopics)"

section \<open>The database tools\<close>

text \<open>\<open>db-tables\<close>, \<open>db-schema\<close> and \<open>sql\<close> declare the same flag.\<close>

definition db_flags :: flag_set where
  "db_flags = [''db'' \<mapsto> StringFlag []]"

definition db_list_build :: "flag_set \<Rightarrow> string list \<Rightarrow> usage_error + unit" where
  "db_list_build fs pos = lift_err BadArg (no_positionals ''db-list'' pos)"

definition db_tables_build :: "flag_set \<Rightarrow> string list \<Rightarrow> usage_error + db_args" where
  "db_tables_build fs pos =
     bind_res (lift_err BadArg (no_positionals ''db-tables'' pos)) (\<lambda>_.
       Inr \<lparr>da_db = flag_string fs ''db'', da_table = []\<rparr>)"

definition db_schema_build :: "flag_set \<Rightarrow> string list \<Rightarrow> usage_error + db_args" where
  "db_schema_build fs pos =
     bind_res (lift_err BadArg (one_arg ''db-schema'' ''table name'' pos)) (\<lambda>table.
       Inr \<lparr>da_db = flag_string fs ''db'', da_table = table\<rparr>)"

definition sql_build :: "flag_set \<Rightarrow> string list \<Rightarrow> usage_error + sql_args" where
  "sql_build fs pos =
     bind_res (lift_err BadArg (one_arg ''sql'' ''quoted query'' pos)) (\<lambda>query.
       Inr \<lparr>sq_db = flag_string fs ''db'', sq_query = query\<rparr>)"

section \<open>serve\<close>

record serve_args =
  sa_host :: string
  sa_token :: string
  sa_ttl :: int
  sa_max_output :: int
  sa_timeout :: int
  sa_roots :: "string list"
  sa_dbs :: "string \<rightharpoonup> string"

text \<open>Durations are in nanoseconds.\<close>

definition serve_flags :: flag_set where
  "serve_flags =
     [''host'' \<mapsto> StringFlag [], ''token'' \<mapsto> StringFlag [], ''ttl'' \<mapsto> DurationFlag (30 * 60 * 10 ^ 9),
      ''max-output'' \<mapsto> IntFlag (2 ^ 20), ''timeout'' \<mapsto> DurationFlag (15 * 10 ^ 9), ''db'' \<mapsto> ListFlag []]"

definition serve_build :: "(string \<Rightarrow> string) \<Rightarrow> flag_set \<Rightarrow> string list \<Rightarrow> usage_error + serve_args" where
  "serve_build lower fs pos =
     bind_res (lift_err BadDbFlag (kv_pairs lower (flag_list fs ''db''))) (\<lambda>dbs.
       Inr \<lparr>sa_host = flag_string fs ''host'', sa_token = flag_string fs ''token'', sa_ttl = flag_duration fs ''ttl'',
            sa_max_output = flag_int fs ''max-output'', sa_timeout = flag_duration fs ''timeout'',
            sa_roots = pos, sa_dbs = dbs\<rparr>)"

text \<open>The builder as the client uses it: its error as text, its value as JSON.\<close>

definition json_build ::
  "(usage_error \<Rightarrow> string) \<Rightarrow> ('a \<Rightarrow> string + string) \<Rightarrow> (flag_set \<Rightarrow> string list \<Rightarrow> usage_error + 'a) \<Rightarrow>
   flag_set \<Rightarrow> string list \<Rightarrow> build_fault + string" where
  "json_build text marshal build fs pos =
     bind_res (lift_err (UsageFault \<circ> text) (build fs pos)) (\<lambda>args. lift_err MarshalFault (marshal args))"

text \<open>
  No tool a client runs declares \<open>host\<close> or \<open>token\<close>, which the command adds to its flag set: adding them
  would panic. \<open>serve\<close> has its own.
\<close>

lemma tool_flags_free:
  "list_all (\<lambda>fs. fs ''host'' = None \<and> fs ''token'' = None)
     [list_flags, tail_flags, read_flags, grep_flags, journal_flags, db_flags, Map.empty]"
  by (simp add: list_flags_def tail_flags_def read_flags_def grep_flags_def journal_flags_def db_flags_def)

text \<open>A query reaches the server with a pattern: \<open>grep\<close> is refused on the client without one.\<close>

lemma grep_build_pattern: "grep_build fs pos = Inr args \<Longrightarrow> ga_pattern args \<noteq> []"
  by (auto simp: grep_build_def res_simps split: if_splits)

end
