(* ===== verification/Tls_Config.thy ===== *)
theory Tls_Config
  imports Prelude
begin

text \<open>
  The TLS configurations (\<open>internal/tlsutil/tlsutil.go\<close>): the throw-away certificate a server makes for
  itself, and the configuration of a client, which checks none. The key, the random number, the clock and
  the encoder of certificates come from the standard library's \<open>crypto\<close> packages and \<open>time\<close>: they are the
  record \<open>crypto\<close>, whose \<open>rand_below m\<close> is \<open>rand.Int(rand.Reader, m)\<close> and whose \<open>clock\<close> is
  \<open>time.Now()\<close> in nanoseconds.
\<close>

record ecdsa_key =
  key_public :: "int \<times> int"
  key_private :: int

record cert_template =
  ct_serial :: int
  ct_common_name :: string
  ct_not_before :: int
  ct_not_after :: int
  ct_digital_signature :: bool
  ct_server_auth :: bool
  ct_dns_names :: "string list"

record 'e crypto =
  generate_key :: "'e + ecdsa_key"
  rand_below :: "int \<Rightarrow> 'e + int"
  clock :: int
  create_certificate :: "cert_template \<Rightarrow> cert_template \<Rightarrow> int \<times> int \<Rightarrow> ecdsa_key \<Rightarrow> 'e + string"

record tls_config =
  tc_certificates :: "(string list \<times> ecdsa_key) list"
  tc_skip_verify :: bool
  tc_min_version :: nat

definition one_second :: int where
  "one_second = 10 ^ 9"

definition cert_ttl :: int where
  "cert_ttl = 24 * 60 * 60 * one_second"

definition version_tls12 :: nat where
  "version_tls12 = 0x0303"

definition server_template :: "int \<Rightarrow> int \<Rightarrow> cert_template" where
  "server_template serial now =
     \<lparr>ct_serial = serial, ct_common_name = ''rpeek'', ct_not_before = now - 60 * one_second,
      ct_not_after = now + cert_ttl, ct_digital_signature = True, ct_server_auth = True,
      ct_dns_names = [''rpeek'']\<rparr>"

definition server_tls_config :: "'e crypto \<Rightarrow> 'e + tls_config" where
  "server_tls_config C =
     bind_res (generate_key C) (\<lambda>key.
     bind_res (rand_below C (2 ^ 128)) (\<lambda>serial.
       let template = server_template serial (clock C)
       in bind_res (create_certificate C template template (key_public key) key) (\<lambda>der.
            Inr \<lparr>tc_certificates = [([der], key)], tc_skip_verify = False, tc_min_version = version_tls12\<rparr>)))"

definition client_tls_config :: tls_config where
  "client_tls_config = \<lparr>tc_certificates = [], tc_skip_verify = True, tc_min_version = version_tls12\<rparr>"

section \<open>The certificate\<close>

text \<open>The window a certificate is accepted in.\<close>

definition valid_at :: "cert_template \<Rightarrow> int \<Rightarrow> bool" where
  "valid_at t now \<longleftrightarrow> ct_not_before t \<le> now \<and> now \<le> ct_not_after t"

lemma valid_at_server_template:
  "valid_at (server_template serial now) t \<longleftrightarrow> now - 60 * one_second \<le> t \<and> t \<le> now + cert_ttl"
  by (simp add: valid_at_def server_template_def)

text \<open>
  What a server presents: one certificate, made by the key it is presented with out of a template for that
  key's public half, and accepted from a minute before it was made until a day after.
\<close>

lemma server_tls_config_self_signed:
  assumes "server_tls_config C = Inr cfg"
  obtains key serial der where
    "generate_key C = Inr key" "rand_below C (2 ^ 128) = Inr serial"
    "create_certificate C (server_template serial (clock C)) (server_template serial (clock C)) (key_public key) key = Inr der"
    "cfg = \<lparr>tc_certificates = [([der], key)], tc_skip_verify = False, tc_min_version = version_tls12\<rparr>"
    "\<And>d. 0 \<le> d \<Longrightarrow> d \<le> cert_ttl \<Longrightarrow> valid_at (server_template serial (clock C)) (clock C + d)"
  using assms
  by (auto simp: server_tls_config_def Let_def bind_res_eq_Inr valid_at_server_template one_second_def)

text \<open>The two sides agree on the lowest version of the protocol, and only the client skips verification.\<close>

lemma tls_sides_agree:
  "server_tls_config C = Inr cfg \<Longrightarrow> tc_min_version cfg = tc_min_version client_tls_config \<and>
     \<not> tc_skip_verify cfg \<and> tc_skip_verify client_tls_config"
  by (erule server_tls_config_self_signed) (simp add: client_tls_config_def)

end
