(* ===== verification/Client_Cmd.thy ===== *)
theory Client_Cmd
  imports Cli_Args Server Tls_Config
begin

text \<open>
  The command (\<open>cmd/rpeek/main.go\<close>, \<open>tool.go\<close>, \<open>serve.go\<close>) and the client's round trip
  (\<open>internal/client/client.go\<close>). A run of the command is its outcome: what it wrote to its two
  streams, the requests it asked \<open>client.Call\<close> to make, and how it ended. A request is among \<open>calls\<close> once it is
  attempted, also when it cannot be marshalled or the server cannot be reached. What lies outside is the record \<open>world\<close>: the
  environment, the JSON codec, the texts of errors, the verb \<open>%q\<close>, and \<open>exchange\<close>, which is \<open>tls.Dial\<close> with its configuration, the write of
  the payload, and the bytes the connection then yields with the error after them.
\<close>

section \<open>The round trip\<close>

datatype 'e call_error =
    RequestNotMarshalled 'e
  | DialFailed 'e
  | ResponseTooLong
  | ReadBroken 'e
  | NoResponse
  | InvalidResponse 'e

record 'e wire =
  exchange :: "tls_config \<Rightarrow> string \<Rightarrow> string \<Rightarrow> 'e + string \<times> 'e option"
  marshal_request :: "request \<Rightarrow> 'e + string"
  unmarshal_response :: "string \<Rightarrow> 'e + response"

definition max_response_line :: nat where
  "max_response_line = 2 ^ 24"

definition client_call ::
  "'e wire \<Rightarrow> string \<Rightarrow> string \<Rightarrow> string \<Rightarrow> string \<Rightarrow> 'e call_error + response" where
  "client_call W host token tool raw =
     bind_res (lift_err RequestNotMarshalled (marshal_request W \<lparr>rq_token = token, rq_tool = tool, rq_args = raw\<rparr>))
       (\<lambda>payload.
     bind_res (lift_err DialFailed (exchange W client_tls_config host (payload @ [newline]))) (\<lambda>(bytes, read_err).
       case scan_lines max_response_line bytes of
         ([], too_long) \<Rightarrow>
           Inl (if too_long then ResponseTooLong
                else case read_err of Some e \<Rightarrow> ReadBroken e | None \<Rightarrow> NoResponse)
       | (line # _, _) \<Rightarrow> lift_err InvalidResponse (unmarshal_response W line)))"

section \<open>Outcomes\<close>

datatype exit_status = Exit nat | FlagPanic

record outcome =
  stdout :: string
  stderr :: string
  calls :: "(string \<times> string \<times> string \<times> string) list"
  status :: exit_status

definition exit_ok :: nat where "exit_ok = 0"
definition exit_error :: nat where "exit_error = 1"
definition exit_server :: nat where "exit_server = 2"
definition exit_usage :: nat where "exit_usage = 3"

definition complaint :: "string \<Rightarrow> string" where
  "complaint msg = ''rpeek: '' @ msg @ [newline]"

definition usage_err :: "string \<Rightarrow> outcome" where
  "usage_err msg = \<lparr>stdout = [], stderr = complaint msg, calls = [], status = Exit exit_usage\<rparr>"

definition fatalf :: "string \<Rightarrow> outcome" where
  "fatalf msg = \<lparr>stdout = [], stderr = complaint msg, calls = [], status = Exit exit_error\<rparr>"

definition warn_truncated :: "bool \<Rightarrow> string" where
  "warn_truncated trunc = (if trunc then ''... (truncated)'' @ [newline] else [])"

definition print_output :: "string \<Rightarrow> bool \<Rightarrow> outcome" where
  "print_output out trunc = \<lparr>stdout = out, stderr = warn_truncated trunc, calls = [], status = Exit exit_ok\<rparr>"

definition print_help :: "string \<Rightarrow> outcome" where
  "print_help help = \<lparr>stdout = help, stderr = [], calls = [], status = Exit exit_ok\<rparr>"

definition sent :: "string \<times> string \<times> string \<times> string \<Rightarrow> outcome \<Rightarrow> outcome" where
  "sent c res = res\<lparr>calls := c # calls res\<rparr>"

section \<open>Host and token\<close>

record ('c, 'e) world =
  w_getenv :: "string \<Rightarrow> string"
  w_wire :: "'e wire"
  w_context :: 'c
  w_duration :: "string \<Rightarrow> int option"
  w_fault_text :: "flag_fault \<Rightarrow> string"
  w_addr_text :: "normalize_error \<Rightarrow> string"
  w_err_text :: "'e \<Rightarrow> string"
  w_quote :: "string \<Rightarrow> string"
  w_call_text :: "'e call_error \<Rightarrow> string"
  w_serve :: "string \<Rightarrow> string \<times> string \<times> 'e option"

definition host_token :: "('c, 'e) world \<Rightarrow> string \<Rightarrow> string \<Rightarrow> string \<times> string" where
  "host_token W host_flag token_flag =
     (resolve_setting (w_getenv W) host_flag ''RPEEK_HOST'' [],
      resolve_setting (w_getenv W) token_flag ''RPEEK_TOKEN'' [])"

definition resolve_host_token :: "('c, 'e) world \<Rightarrow> string \<Rightarrow> string \<Rightarrow> outcome + string \<times> string" where
  "resolve_host_token W host_flag token_flag =
     (let (host, token) = host_token W host_flag token_flag
      in if host = [] then Inl (usage_err ''no server address: set --host or RPEEK_HOST'')
         else if token = [] then Inl (usage_err ''no token: set --token or RPEEK_TOKEN'')
         else case normalize_addr host of
           Inl e \<Rightarrow> Inl (usage_err (w_addr_text W e))
         | Inr addr \<Rightarrow> Inr (addr, token))"

section \<open>Running a tool\<close>

text \<open>\<open>callRemote\<close>: the response, or the outcome of a failed call.\<close>

definition call_remote ::
  "('c, 'e) world \<Rightarrow> string \<Rightarrow> string \<Rightarrow> string \<Rightarrow> string \<Rightarrow> outcome + response" where
  "call_remote W addr token name raw =
     (case client_call (w_wire W) addr token name raw of
        Inl e \<Rightarrow> Inl (fatalf (w_call_text W e))
      | Inr resp \<Rightarrow>
          if \<not> rs_ok resp then
            Inl \<lparr>stdout = [], stderr = complaint (rs_error resp), calls = [], status = Exit exit_server\<rparr>
          else Inr resp)"

text \<open>The outcome of a fallible step, or of what follows it.\<close>

definition or_outcome :: "outcome + 'a \<Rightarrow> ('a \<Rightarrow> outcome) \<Rightarrow> outcome" where
  "or_outcome r f = (case r of Inl res \<Rightarrow> res | Inr x \<Rightarrow> f x)"

definition local_env :: env where
  "local_env = \<lparr>env_jail = \<lparr>roots = []\<rparr>, env_limits = \<lparr>max_output = 2 ^ 20, timeout = 0\<rparr>, env_journalctl = []\<rparr>"

definition run_local_only ::
  "('c, 'e) world \<Rightarrow> ('c \<Rightarrow> env \<Rightarrow> string \<Rightarrow> 'e + tool_result) \<Rightarrow> string \<Rightarrow> outcome" where
  "run_local_only W local raw =
     (case local (w_context W) local_env raw of
        Inl e \<Rightarrow> fatalf (w_err_text W e)
      | Inr res \<Rightarrow> print_output (out_text res) (truncated res))"

definition run_remote_only :: "('c, 'e) world \<Rightarrow> string \<Rightarrow> string \<Rightarrow> string \<Rightarrow> string \<Rightarrow> outcome" where
  "run_remote_only W name raw host_flag token_flag =
     or_outcome (resolve_host_token W host_flag token_flag) (\<lambda>(addr, token).
       sent (addr, token, name, raw) (or_outcome (call_remote W addr token name raw) (\<lambda>resp.
         print_output (rs_output resp) (rs_truncated resp))))"

definition both_blocks :: "string \<Rightarrow> string \<Rightarrow> string \<Rightarrow> string" where
  "both_blocks local_out addr remote_out =
     ''local:'' @ [newline] @ trim_newlines local_out @ [newline, newline] @
     ''remote ('' @ addr @ ''):'' @ [newline] @ trim_newlines remote_out @ [newline]"

definition run_local_remote ::
  "('c, 'e) world \<Rightarrow> ('c \<Rightarrow> env \<Rightarrow> string \<Rightarrow> 'e + tool_result) \<Rightarrow> string \<Rightarrow> string \<Rightarrow> string \<Rightarrow> string \<Rightarrow> outcome" where
  "run_local_remote W local name raw host_flag token_flag =
     (case local (w_context W) local_env raw of
        Inl e \<Rightarrow> fatalf (w_err_text W e)
      | Inr res \<Rightarrow>
          (let (host, token) = host_token W host_flag token_flag
           in if host = [] \<or> token = [] then print_output (out_text res) (truncated res)
              else case normalize_addr host of
                Inl e \<Rightarrow> usage_err (w_addr_text W e)
              | Inr addr \<Rightarrow>
                  sent (addr, token, name, raw) (or_outcome (call_remote W addr token name raw) (\<lambda>resp.
                    \<lparr>stdout = both_blocks (out_text res) addr (rs_output resp),
                     stderr = warn_truncated (rs_truncated resp), calls = [], status = Exit exit_ok\<rparr>))))"

text \<open>The halves a tool implements decide how it runs.\<close>

definition run_halves ::
  "('c, 'e) world \<Rightarrow> ('c, 'e) tool \<Rightarrow> string \<Rightarrow> string \<Rightarrow> string \<Rightarrow> outcome" where
  "run_halves W t raw host_flag token_flag =
     (case (t_local t, t_remote t) of
        (Some local, Some _) \<Rightarrow> run_local_remote W local (t_name t) raw host_flag token_flag
      | (Some local, None) \<Rightarrow> run_local_only W local raw
      | (None, Some _) \<Rightarrow> run_remote_only W (t_name t) raw host_flag token_flag
      | (None, None) \<Rightarrow> fatalf (''tool '' @ w_quote W (t_name t) @ '' has no local or remote implementation''))"

text \<open>
  Parsing and building, shared by \<open>runTool\<close> and \<open>runServer\<close>: the flag set already holds the values given
  before the name.
\<close>

definition with_args ::
  "('c, 'e) world \<Rightarrow> ('c, 'e) tool \<Rightarrow> flag_set \<Rightarrow> string list \<Rightarrow> (flag_set \<Rightarrow> string \<Rightarrow> outcome) \<Rightarrow> outcome" where
  "with_args W t fs args run =
     (case parse_any_order (w_duration W) fs [] args of
        Inl HelpWanted \<Rightarrow> print_help (tool_help t)
      | Inl fault \<Rightarrow> usage_err (w_fault_text W fault)
      | Inr (fs, positionals) \<Rightarrow>
          (case t_build t fs positionals of
             Inl (UsageFault msg) \<Rightarrow> usage_err msg
           | Inl (MarshalFault msg) \<Rightarrow> fatalf msg
           | Inr raw \<Rightarrow> run fs raw))"

text \<open>\<open>FlagSet.String\<close> panics on a name the tool has declared itself.\<close>

definition client_flags :: "('c, 'e) tool \<Rightarrow> string \<Rightarrow> string \<Rightarrow> flag_set" where
  "client_flags t g_host g_token = (t_flags t)(''host'' \<mapsto> StringFlag g_host, ''token'' \<mapsto> StringFlag g_token)"

definition run_tool :: "('c, 'e) world \<Rightarrow> ('c, 'e) tool \<Rightarrow> string list \<Rightarrow> string \<Rightarrow> string \<Rightarrow> outcome" where
  "run_tool W t args g_host g_token =
     (if t_flags t ''host'' \<noteq> None \<or> t_flags t ''token'' \<noteq> None then
        \<lparr>stdout = [], stderr = [], calls = [], status = FlagPanic\<rparr>
      else with_args W t (client_flags t g_host g_token) args (\<lambda>fs raw.
        run_halves W t raw (flag_string fs ''host'') (flag_string fs ''token'')))"

section \<open>The server's command line\<close>

text \<open>\<open>fs.Set\<close> with its error ignored.\<close>

definition seed_flag :: "('c, 'e) world \<Rightarrow> string \<Rightarrow> string \<Rightarrow> flag_set \<Rightarrow> flag_set" where
  "seed_flag W name value fs =
     (if value = [] then fs
      else case set_by_name (w_duration W) fs name value of Inl _ \<Rightarrow> fs | Inr fs \<Rightarrow> fs)"

text \<open>
  \<open>Serve\<close> gives what it wrote to the standard output, what its logger wrote to the standard error, and its
  error.
\<close>

definition run_server :: "('c, 'e) world \<Rightarrow> ('c, 'e) tool \<Rightarrow> string list \<Rightarrow> string \<Rightarrow> string \<Rightarrow> outcome" where
  "run_server W t args g_host g_token =
     with_args W t (seed_flag W ''token'' g_token (seed_flag W ''host'' g_host (t_flags t))) args (\<lambda>_ raw.
       case w_serve W raw of
         (banner, log, Some e) \<Rightarrow>
           \<lparr>stdout = banner, stderr = log @ complaint (w_err_text W e), calls = [], status = Exit exit_error\<rparr>
       | (banner, log, None) \<Rightarrow> \<lparr>stdout = banner, stderr = log, calls = [], status = Exit exit_ok\<rparr>)"

section \<open>Dispatch\<close>

definition global_flags :: flag_set where
  "global_flags = [''host'' \<mapsto> StringFlag [], ''token'' \<mapsto> StringFlag []]"

definition run :: "('c, 'e) world \<Rightarrow> ('c, 'e) registry \<Rightarrow> string list \<Rightarrow> outcome" where
  "run W reg args =
     (case parse_flags (w_duration W) global_flags args of
        Inl HelpWanted \<Rightarrow> print_help (general_help reg)
      | Inl fault \<Rightarrow> usage_err (w_fault_text W fault)
      | Inr (gfs, []) \<Rightarrow> \<lparr>stdout = [], stderr = general_help reg, calls = [], status = Exit exit_usage\<rparr>
      | Inr (gfs, name # rest) \<Rightarrow>
          (case lookup_tool reg name of
             None \<Rightarrow>
               usage_err (''unknown command '' @ w_quote W name @ '' (run 'rpeek help' for the list)'')
           | Some t \<Rightarrow>
               if t_serves t then run_server W t rest (flag_string gfs ''host'') (flag_string gfs ''token'')
               else run_tool W t rest (flag_string gfs ''host'') (flag_string gfs ''token'')))"

section \<open>How a run ends\<close>

text \<open>
  What the status says: without a request the status is never the one of a server's refusal, and with a
  usage error nothing is on the standard output; a run makes at most one request, with a token and a
  normalised address, and its status tells how that request went.
\<close>

definition explained :: "('c, 'e) world \<Rightarrow> outcome \<Rightarrow> bool" where
  "explained W res \<longleftrightarrow>
     (case calls res of
        [] \<Rightarrow> status res \<in> {Exit exit_ok, Exit exit_error, Exit exit_usage, FlagPanic} \<and>
          (status res = Exit exit_usage \<longrightarrow> stdout res = [])
      | [(addr, token, name, raw)] \<Rightarrow>
          token \<noteq> [] \<and> (\<exists>host. host \<noteq> [] \<and> normalize_addr host = Inr addr) \<and>
          (case client_call (w_wire W) addr token name raw of
             Inl e \<Rightarrow> status res = Exit exit_error \<and> stdout res = [] \<and> stderr res = complaint (w_call_text W e)
           | Inr resp \<Rightarrow>
               if rs_ok resp then status res = Exit exit_ok
               else status res = Exit exit_server \<and> stdout res = [] \<and> stderr res = complaint (rs_error resp))
      | _ \<Rightarrow> False)"

named_theorems explain \<open>outcomes that are explained\<close>

lemma explained_quiet [explain]:
  "explained W (usage_err m)" "explained W (fatalf m)" "explained W (print_output out tr)" "explained W (print_help h)"
  "explained W \<lparr>stdout = [], stderr = e, calls = [], status = Exit exit_usage\<rparr>"
  "explained W \<lparr>stdout = s, stderr = e, calls = [], status = Exit exit_ok\<rparr>"
  "explained W \<lparr>stdout = s, stderr = e, calls = [], status = FlagPanic\<rparr>"
  "explained W \<lparr>stdout = s, stderr = e, calls = [], status = Exit exit_error\<rparr>"
  by (simp_all add: explained_def usage_err_def fatalf_def print_output_def print_help_def exit_ok_def
      exit_error_def exit_usage_def)

lemma explained_call [explain]:
  assumes "token \<noteq> []" "host \<noteq> []" "normalize_addr host = Inr addr"
    and "\<And>resp. calls (f resp) = [] \<and> status (f resp) = Exit exit_ok"
  shows "explained W (sent (addr, token, name, raw) (or_outcome (call_remote W addr token name raw) f))"
proof -
  let ?c = "client_call (w_wire W) addr token name raw"
  have ex: "\<exists>host. host \<noteq> [] \<and> normalize_addr host = Inr addr" using assms(2,3) by blast
  consider e where "?c = Inl e" | resp where "?c = Inr resp" "rs_ok resp"
    | resp where "?c = Inr resp" "\<not> rs_ok resp" by (cases ?c) auto
  then show ?thesis
    using assms(1,4) ex
    by cases (simp_all add: explained_def sent_def or_outcome_def call_remote_def fatalf_def exit_ok_def)
qed

lemma explained_remote_only [explain]: "explained W (run_remote_only W name raw h k)"
proof -
  obtain host token where ht: "host_token W h k = (host, token)" by (cases "host_token W h k")
  show ?thesis
  proof (cases "host = [] \<or> token = []")
    case True
    then show ?thesis
      by (auto simp: run_remote_only_def resolve_host_token_def ht or_outcome_def explain)
  next
    case False
    then show ?thesis
      by (cases "normalize_addr host")
        (auto simp: run_remote_only_def resolve_host_token_def ht or_outcome_def [of "Inl _"] or_outcome_def [of "Inr _"]
          explain print_output_def intro!: explained_call)
  qed
qed

lemma explained_local_remote [explain]: "explained W (run_local_remote W local name raw h k)"
proof -
  obtain host token where ht: "host_token W h k = (host, token)" by (cases "host_token W h k")
  show ?thesis
  proof (cases "host = [] \<or> token = []")
    case True
    then show ?thesis by (auto simp: run_local_remote_def ht explain split: sum.split)
  next
    case False
    then show ?thesis
      by (cases "normalize_addr host")
        (auto simp: run_local_remote_def ht explain intro!: explained_call split: sum.split)
  qed
qed

lemma explained_halves [explain]: "explained W (run_halves W t raw h k)"
  by (auto simp: run_halves_def run_local_only_def explain split: option.split sum.split)

lemma explained_with_args [explain]:
  "(\<And>fs raw. explained W (go fs raw)) \<Longrightarrow> explained W (with_args W t fs args go)"
  by (auto simp: with_args_def explain split: sum.split flag_fault.split build_fault.split)

lemma explained_run_tool [explain]: "explained W (run_tool W t args h k)"
  by (auto simp: run_tool_def explain)

lemma explained_run_server [explain]: "explained W (run_server W t args h k)"
  by (auto simp: run_server_def explain intro!: explained_with_args split: option.split prod.split)

section \<open>From the command line to the request\<close>

lemma set_flag_string: "set_flag dur (StringFlag s) v = Some (StringFlag v)"
  by (simp add: set_flag_def)

lemma global_flags_parse:
  assumes "flag_token name = NoFlag"
  shows "parse_flags dur global_flags ((''--host='' @ h) # (''--token='' @ k) # name # rest) =
    Inr (global_flags(''host'' \<mapsto> StringFlag h, ''token'' \<mapsto> StringFlag k), name # rest)"
proof -
  have tok: "flag_token (''--host='' @ h) = FlagToken ''host'' (Some h)"
    "flag_token (''--token='' @ k) = FlagToken ''token'' (Some k)"
    using flag_token_value [of "''host''" h] flag_token_value [of "''token''" k] by (simp_all add: flag_name_def)
  let ?a = "global_flags(''host'' \<mapsto> StringFlag h)"
  have "parse_one dur global_flags ((''--host='' @ h) # (''--token='' @ k) # name # rest) =
      Inr (?a, (''--token='' @ k) # name # rest, True)"
    by (simp only: parse_one_def tok list.case flag_token.case)
      (simp add: global_flags_def set_named_def set_flag_string)
  moreover have "parse_one dur ?a ((''--token='' @ k) # name # rest) =
      Inr (?a(''token'' \<mapsto> StringFlag k), name # rest, True)"
    by (simp only: parse_one_def tok list.case flag_token.case)
      (simp add: global_flags_def set_named_def set_flag_string)
  moreover have "parse_one dur (?a(''token'' \<mapsto> StringFlag k)) (name # rest) =
      Inr (?a(''token'' \<mapsto> StringFlag k), name # rest, False)"
    using assms by (simp add: parse_one_def)
  ultimately show ?thesis by (simp add: parse_flags.simps)
qed

text \<open>A client tool run with global flags and a well-formed command line behind its name.\<close>

lemma run_items:
  assumes "lookup_tool reg name = Some t" "\<not> t_serves t" "flag_token name = NoFlag"
    and "t_flags t ''host'' = None" "t_flags t ''token'' = None"
    and "list_all (item_ok (client_flags t h k)) items"
    and "apply_settings (w_duration W) (client_flags t h k) items = Inr fs"
    and "t_build t fs (plain_words items) = Inr raw"
  shows "run W reg ((''--host='' @ h) # (''--token='' @ k) # name # words_of items) =
    run_halves W t raw (flag_string fs ''host'') (flag_string fs ''token'')"
proof -
  let ?g = "global_flags(''host'' \<mapsto> StringFlag h, ''token'' \<mapsto> StringFlag k)"
  have "parse_any_order (w_duration W) (client_flags t h k) [] (words_of items) = Inr (fs, plain_words items)"
    using any_order_items [OF assms(6), of "w_duration W" "[]"] assms(7) by simp
  moreover have "flag_string ?g ''host'' = h" "flag_string ?g ''token'' = k"
    by (simp_all add: flag_string_def)
  ultimately show ?thesis
    unfolding run_def global_flags_parse [OF assms(3)]
    using assms(1,2,4,5,8) by (simp add: run_tool_def with_args_def)
qed

lemma calls_after_quiet:
  "(\<And>x. calls (f x) = []) \<Longrightarrow> calls (or_outcome (call_remote W a k n raw) f) = []"
  by (auto simp: or_outcome_def call_remote_def fatalf_def split: sum.split)

section \<open>Client and server\<close>

text \<open>A connection to the server: what \<open>handleConn\<close> writes comes back, and then the end.\<close>

definition written :: "effect list \<Rightarrow> string" where
  "written es = concat (List.map_filter (\<lambda>e. case e of Wrote d \<Rightarrow> Some d | _ \<Rightarrow> None) es)"

definition served_by :: "server \<Rightarrow> string \<Rightarrow> string \<Rightarrow> string \<Rightarrow> string \<Rightarrow> 'e + string \<times> 'e option" where
  "served_by sv remote dur host payload = Inr (written (handle_conn sv remote dur payload), None)"

text \<open>What the server answers to a request.\<close>

definition answer :: "server \<Rightarrow> request \<Rightarrow> response" where
  "answer sv req =
     (if rq_token req \<noteq> sv_token sv then error_response ''unauthorized''
      else case sv_run sv (rq_tool req) (rq_args req) of
        Returns out trunc (Some e) \<Rightarrow> error_response e
      | Returns out trunc None \<Rightarrow> \<lparr>rs_ok = True, rs_output = out, rs_truncated = trunc, rs_error = []\<rparr>
      | Panics v stack \<Rightarrow> error_response ''internal error'')"

text \<open>A message that fits one line of the wire.\<close>

definition one_line :: "nat \<Rightarrow> string \<Rightarrow> bool" where
  "one_line cap l \<longleftrightarrow> newline \<notin> set l \<and> l \<noteq> [] \<and> last l \<noteq> CHR 0x0D \<and> length l < cap"

lemma scan_one_line: "one_line cap l \<Longrightarrow> scan_lines cap (l @ [newline]) = ([l], False)"
  using raw_lines_line [of l "[]"] scan_lines_short [of cap "l @ [newline]"]
  by (simp add: one_line_def lines_of_def drop_cr_def)

lemma written_answer:
  assumes "one_line max_request_line line" "sv_unmarshal sv line = Some req"
    and "sv_marshal sv (answer sv req) = Some data"
  shows "written (handle_conn sv remote dur (line @ [newline])) = data @ [newline]"
proof -
  have h: "handle_conn sv remote dur (line @ [newline]) =
      (if rq_token req \<noteq> sv_token sv then
         [write_response sv (error_response ''unauthorized''), log_request remote (rq_tool req) False dur 0]
       else run_request sv remote dur req)"
    using scan_one_line [OF assms(1)] assms(2) by (simp add: handle_conn_def)
  show ?thesis
    using assms(3) unfolding h
    by (auto simp: answer_def written_def write_response_def run_request_def log_request_def
        List.map_filter_simps split: if_splits run_outcome.splits option.splits)
qed

text \<open>The server may read another request than was sent, and the client another answer: see \<open>json_request\<close>.\<close>

lemma call_answered:
  assumes "exchange W client_tls_config = served_by sv remote dur"
    and "marshal_request W \<lparr>rq_token = token, rq_tool = name, rq_args = raw\<rparr> = Inr line"
    and "one_line max_request_line line" "sv_unmarshal sv line = Some req"
    and "sv_marshal sv (answer sv req) = Some data"
    and "one_line max_response_line data" "unmarshal_response W data = Inr resp"
  shows "client_call W host token name raw = Inr resp"
  using written_answer [OF assms(3-5), of remote dur] scan_one_line [OF assms(6)] assms(1,2,7)
  by (simp add: client_call_def served_by_def)

section \<open>Properties\<close>

text \<open>
  C17: The exit status tells what happened. Whatever the arguments, the environment and the server, a run
  of the command attempts at most one request, and only with a token and an address that normalises; without
  a request the status is success, a runtime error or, with nothing on the standard output, a usage
  error; with one, it is success, a transport error or the server's refusal, as the round trip went.
\<close>

theorem exit_status_explained: "explained W (run W reg args)"
  by (auto simp: run_def explain split: sum.split flag_fault.split list.split option.split)


text \<open>
  C24: A flag behind the tool's name beats the same flag before it, which beats the environment, and the
  request carries what they give: for any tool that runs on the server, any values before its name and any
  arrangement of flags and arguments behind it, the run attempts exactly one request, to the normalised
  address, with the resolved token, the tool's name and the arguments its builder makes.
\<close>

theorem request_carries_settings:
  assumes "lookup_tool reg name = Some t" "\<not> t_serves t" "flag_token name = NoFlag"
    and "t_flags t ''host'' = None" "t_flags t ''token'' = None" "t_local t = None" "t_remote t = Some f"
    and "list_all (item_ok ((t_flags t)(''host'' \<mapsto> StringFlag h, ''token'' \<mapsto> StringFlag k))) items"
    and "apply_settings (w_duration W) ((t_flags t)(''host'' \<mapsto> StringFlag h, ''token'' \<mapsto> StringFlag k)) items = Inr fs"
    and "t_build t fs (plain_words items) = Inr raw"
    and "resolve_setting (w_getenv W) (flag_string fs ''host'') ''RPEEK_HOST'' [] = host" "host \<noteq> []"
    and "resolve_setting (w_getenv W) (flag_string fs ''token'') ''RPEEK_TOKEN'' [] = token" "token \<noteq> []"
    and "normalize_addr host = Inr addr"
  shows "calls (run W reg ((''--host='' @ h) # (''--token='' @ k) # name # words_of items)) =
    [(addr, token, t_name t, raw)]"
proof -
  have "resolve_host_token W (flag_string fs ''host'') (flag_string fs ''token'') = Inr (addr, token)"
    using assms(11-15) by (simp add: resolve_host_token_def host_token_def)
  then have "calls (run_remote_only W (t_name t) raw (flag_string fs ''host'') (flag_string fs ''token'')) =
      [(addr, token, t_name t, raw)]"
    using calls_after_quiet [of "\<lambda>resp. print_output (rs_output resp) (rs_truncated resp)" W addr token "t_name t" raw]
    by (simp add: run_remote_only_def or_outcome_def [of "Inr _"] sent_def print_output_def)
  then show ?thesis
    using run_items [OF assms(1-5) assms(8-10) [folded client_flags_def]] assms(6,7) by (simp add: run_halves_def)
qed

section \<open>Witnesses\<close>

definition ping_tool :: "(unit, unit) tool" where
  "ping_tool = \<lparr>t_name = ''ping'', t_summary = [], t_usage = ''ping'',
     t_remote = Some (\<lambda>_ _ _. Inr \<lparr>out_text = ''pong'', truncated = False\<rparr>), t_local = None, t_serves = False,
     t_flags = Map.empty, t_flag_help = [], t_build = (\<lambda>_ _. Inr ''{}''), t_detail = None\<rparr>"

definition ping_registry :: "(unit, unit) registry" where
  "ping_registry = \<lparr>registered = [ping_tool], by_name = [''ping'' \<mapsto> ping_tool]\<rparr>"

definition ping_wire :: "response \<Rightarrow> unit wire" where
  "ping_wire resp = \<lparr>exchange = (\<lambda>_ _ _. Inr (''r'' @ [newline], None)), marshal_request = (\<lambda>_. Inr ''q''),
     unmarshal_response = (\<lambda>_. Inr resp)\<rparr>"

definition ping_world :: "unit wire \<Rightarrow> (unit, unit) world" where
  "ping_world W = \<lparr>w_getenv = (\<lambda>n. if n = ''RPEEK_TOKEN'' then ''t0'' else []), w_wire = W, w_context = (),
     w_duration = (\<lambda>_. None), w_fault_text = (\<lambda>_. []), w_addr_text = (\<lambda>_. []), w_err_text = (\<lambda>_. []),
     w_quote = (\<lambda>s. s), w_call_text = (\<lambda>_. []), w_serve = (\<lambda>_. ([], [], None))\<rparr>"

theorem request_carries_settings_witness:
  "calls (run (ping_world (ping_wire (error_response []))) ping_registry
     [''--host=a'', ''--token='', ''ping'', ''--host=b'']) = [(''b:7017'', ''t0'', ''ping'', ''{}'')]"
proof -
  have n: "normalize_addr ''b'' = Inr ''b:7017''" by code_simp
  have e: "words_of [WithValue ''host'' ''b''] = [''--host=b'']" by (simp add: words_of_def)
  have "calls (run (ping_world (ping_wire (error_response []))) ping_registry
      ((''--host='' @ ''a'') # (''--token='' @ []) # ''ping'' # words_of [WithValue ''host'' ''b''])) =
      [(''b:7017'', ''t0'', t_name ping_tool, ''{}'')]"
    by (rule request_carries_settings [where fs = "client_flags ping_tool ''b'' []" and host = "''b''"
        and token = "''t0''" and addr = "''b:7017''"])
      (simp_all add: n ping_world_def ping_registry_def ping_tool_def lookup_tool_def client_flags_def flag_token_def
        flag_name_def flag_kind_def set_by_name_def set_named_def set_flag_def flag_string_def resolve_setting_def fun_upd_twist)
  then show ?thesis by (simp add: e ping_tool_def)
qed

end
