(* ===== verification/End_To_End.thy ===== *)
theory End_To_End
  imports Client_Cmd
begin

text \<open>
  The program as a whole: the command on one side (\<open>cmd/rpeek\<close>, \<open>internal/client\<close>), the connection
  handler, the runner and a tool on the other (\<open>internal/server\<close>, \<open>internal/tools\<close>).
\<close>

text \<open>The runner as the server has it: the error of \<open>RunRemote\<close> as its text.\<close>

definition server_runs ::
  "('c, 'e) registry \<Rightarrow> ('c \<Rightarrow> int \<Rightarrow> 'c) \<Rightarrow> env \<Rightarrow> 'c \<Rightarrow> ('e run_error \<Rightarrow> string) \<Rightarrow> string \<Rightarrow> string \<Rightarrow> run_outcome" where
  "server_runs reg with_timeout env ctx text name raw =
     (case run_remote reg with_timeout env ctx name raw of
        Inl e \<Rightarrow> Returns [] False (Some (text e))
      | Inr (out, trunc) \<Rightarrow> Returns out trunc None)"

text \<open>
  What a request and an answer are after their way through JSON: the texts in them are coerced to UTF-8. The
  arguments are JSON already, which is carried as it is.
\<close>

definition json_request :: "request \<Rightarrow> request" where
  "json_request r = r\<lparr>rq_token := json_text (rq_token r), rq_tool := json_text (rq_tool r)\<rparr>"

definition json_response :: "response \<Rightarrow> response" where
  "json_response r = r\<lparr>rs_output := json_text (rs_output r), rs_error := json_text (rs_error r)\<rparr>"

text \<open>
  The two JSON codecs carry a request and its answer, each on one line the reader's buffer holds.
\<close>

definition carries :: "'e wire \<Rightarrow> server \<Rightarrow> request \<Rightarrow> bool" where
  "carries W sv req \<longleftrightarrow>
     (\<exists>line data. marshal_request W req = Inr line \<and> one_line max_request_line line \<and>
        sv_unmarshal sv line = Some (json_request req) \<and> sv_marshal sv (answer sv (json_request req)) = Some data \<and>
        one_line max_response_line data \<and>
        unmarshal_response W data = Inr (json_response (answer sv (json_request req))))"

lemma call_carried:
  assumes "exchange W client_tls_config = served_by sv remote dur"
    and "carries W sv \<lparr>rq_token = token, rq_tool = name, rq_args = raw\<rparr>" "valid_utf8 name"
  shows "client_call W host token name raw =
    Inr (json_response (answer sv \<lparr>rq_token = json_text token, rq_tool = name, rq_args = raw\<rparr>))"
proof -
  let ?req = "\<lparr>rq_token = token, rq_tool = name, rq_args = raw\<rparr>"
  have q: "json_request ?req = \<lparr>rq_token = json_text token, rq_tool = name, rq_args = raw\<rparr>"
    by (simp add: json_request_def json_text_valid [OF assms(3)])
  from assms(2) obtain line data where c:
    "marshal_request W ?req = Inr line" "one_line max_request_line line" "sv_unmarshal sv line = Some (json_request ?req)"
    "sv_marshal sv (answer sv (json_request ?req)) = Some data" "one_line max_response_line data"
    "unmarshal_response W data = Inr (json_response (answer sv (json_request ?req)))"
    unfolding carries_def by blast
  show ?thesis unfolding q [symmetric] by (rule call_answered [OF assms(1) c])
qed

lemma json_unauthorized: "json_text ''unauthorized'' = ''unauthorized''"
  by (rule json_text_valid, rule ascii_valid_utf8) simp

lemma remote_only_outcome:
  assumes "resolve_host_token W host_flag token_flag = Inr (addr, token)"
    and "exchange (w_wire W) client_tls_config = served_by sv remote dur"
    and "carries (w_wire W) sv \<lparr>rq_token = token, rq_tool = name, rq_args = raw\<rparr>" "valid_utf8 name"
    and "sv_run sv = server_runs reg with_timeout env ctx text"
  shows "run_remote_only W name raw host_flag token_flag = sent (addr, token, name, raw)
    (if json_text token \<noteq> sv_token sv then
       \<lparr>stdout = [], stderr = complaint ''unauthorized'', calls = [], status = Exit exit_server\<rparr>
     else case run_remote reg with_timeout env ctx name raw of
       Inl e \<Rightarrow> \<lparr>stdout = [], stderr = complaint (json_text (text e)), calls = [], status = Exit exit_server\<rparr>
     | Inr (out, trunc) \<Rightarrow> print_output (json_text out) trunc)"
  using assms(1,5) call_carried [OF assms(2,3,4), of addr]
  by (auto simp: run_remote_only_def or_outcome_def call_remote_def answer_def error_response_def server_runs_def
      json_response_def json_unauthorized split: sum.split)

text \<open>
  End to end, a remote tool does on the client what it does on the server. For any arrangement of flags
  and arguments behind a tool's name, over a connection to the server, the command prints the output the
  server's runner gives for the built arguments in the server's environment, coerced to UTF-8, with success; a
  tool's error is the message on the standard error with the server's exit status; and with another token
  than the server's the tool's result shows in nothing.
\<close>

lemma command_runs_tool_remotely:
  assumes "lookup_tool creg name = Some t" "t_name t = name" "\<not> t_serves t" "flag_token name = NoFlag"
    and "t_flags t ''host'' = None" "t_flags t ''token'' = None" "t_local t = None" "t_remote t = Some f"
    and "list_all (item_ok ((t_flags t)(''host'' \<mapsto> StringFlag h, ''token'' \<mapsto> StringFlag k))) items"
    and "apply_settings (w_duration W) ((t_flags t)(''host'' \<mapsto> StringFlag h, ''token'' \<mapsto> StringFlag k)) items = Inr fs"
    and "t_build t fs (plain_words items) = Inr raw"
    and "resolve_host_token W (flag_string fs ''host'') (flag_string fs ''token'') = Inr (addr, token)"
    and "exchange (w_wire W) client_tls_config = served_by sv remote dur"
    and "carries (w_wire W) sv \<lparr>rq_token = token, rq_tool = name, rq_args = raw\<rparr>" "valid_utf8 name"
    and "sv_run sv = server_runs reg with_timeout env ctx text"
  shows "run W creg ((''--host='' @ h) # (''--token='' @ k) # name # words_of items) =
    sent (addr, token, name, raw)
      (if json_text token \<noteq> sv_token sv then
         \<lparr>stdout = [], stderr = complaint ''unauthorized'', calls = [], status = Exit exit_server\<rparr>
       else case run_remote reg with_timeout env ctx name raw of
         Inl e \<Rightarrow> \<lparr>stdout = [], stderr = complaint (json_text (text e)), calls = [], status = Exit exit_server\<rparr>
       | Inr (out, trunc) \<Rightarrow> print_output (json_text out) trunc)"
  using run_items [OF assms(1,3-6) assms(9-11) [folded client_flags_def]] assms(2,7,8)
    remote_only_outcome [OF assms(12-16)] by (simp add: run_halves_def)

definition pong :: response where
  "pong = \<lparr>rs_ok = True, rs_output = ''pong'', rs_truncated = False, rs_error = []\<rparr>"

definition ping_server :: server where
  "ping_server = \<lparr>sv_run = server_runs ping_registry (\<lambda>c _. c) local_env () (\<lambda>_. []), sv_token = ''t0'',
     sv_marshal = (\<lambda>_. Some ''r''),
     sv_unmarshal = (\<lambda>_. Some \<lparr>rq_token = ''t0'', rq_tool = ''ping'', rq_args = ''{}''\<rparr>)\<rparr>"

lemma command_runs_tool_remotely_witness:
  "run (ping_world ((ping_wire pong)\<lparr>exchange := \<lambda>_. served_by ping_server ''c'' ''1ms''\<rparr>)) ping_registry
     [''--host=a'', ''--token='', ''ping'', ''--host=b''] =
   sent (''b:7017'', ''t0'', ''ping'', ''{}'') (print_output ''pong'' False)"
proof -
  let ?W = "ping_world ((ping_wire pong)\<lparr>exchange := \<lambda>_. served_by ping_server ''c'' ''1ms''\<rparr>)"
  let ?fs = "(t_flags ping_tool)(''host'' \<mapsto> StringFlag ''b'', ''token'' \<mapsto> StringFlag [])"
  have n: "normalize_addr ''b'' = Inr ''b:7017''" by code_simp
  have r: "run_remote ping_registry w local_env () ''ping'' ''{}'' = Inr (''pong'', False)" for w
    by (simp add: run_remote_def lookup_tool_def ping_registry_def ping_tool_def local_env_def)
  have h: "resolve_host_token ?W (flag_string ?fs ''host'') (flag_string ?fs ''token'') = Inr (''b:7017'', ''t0'')"
    by (simp add: resolve_host_token_def host_token_def resolve_setting_def ping_world_def flag_string_def n)
  have j: "json_text ''t0'' = ''t0''" "json_text ''ping'' = ''ping''" "json_text ''pong'' = ''pong''" "json_text [] = []"
    and v: "valid_utf8 ''ping''"
    using json_text_valid [OF ascii_valid_utf8] ascii_valid_utf8 by simp_all
  have a: "answer ping_server \<lparr>rq_token = ''t0'', rq_tool = ''ping'', rq_args = ''{}''\<rparr> = pong"
    by (simp add: answer_def ping_server_def server_runs_def r pong_def)
  have c: "carries (w_wire ?W) ping_server \<lparr>rq_token = ''t0'', rq_tool = ''ping'', rq_args = ''{}''\<rparr>"
    unfolding carries_def
    by (rule exI [of _ "''q''"], rule exI [of _ "''r''"])
      (simp add: json_request_def json_response_def j a, simp add: pong_def ping_world_def ping_wire_def
        ping_server_def one_line_def max_request_line_def max_response_line_def j)
  have x: "exchange (w_wire ?W) client_tls_config = served_by ping_server ''c'' ''1ms''" by (simp add: ping_world_def)
  have s: "sv_run ping_server = server_runs ping_registry (\<lambda>c _. c) local_env () (\<lambda>_. [])"
    by (simp add: ping_server_def)
  have e: "words_of [WithValue ''host'' ''b''] = [''--host=b'']" by (simp add: words_of_def)
  have "run ?W ping_registry ((''--host='' @ ''a'') # (''--token='' @ []) # ''ping'' # words_of [WithValue ''host'' ''b'']) =
      sent (''b:7017'', ''t0'', ''ping'', ''{}'')
        (if json_text ''t0'' \<noteq> sv_token ping_server then
           \<lparr>stdout = [], stderr = complaint ''unauthorized'', calls = [], status = Exit exit_server\<rparr>
         else case run_remote ping_registry (\<lambda>c _. c) local_env () ''ping'' ''{}'' of
           Inl e \<Rightarrow> \<lparr>stdout = [], stderr = complaint (json_text []), calls = [],
             status = Exit exit_server\<rparr>
         | Inr (out, trunc) \<Rightarrow> print_output (json_text out) trunc)"
    by (rule command_runs_tool_remotely [where t = ping_tool, OF _ _ _ _ _ _ _ _ _ _ _ h x c v s])
      (simp_all add: ping_registry_def ping_tool_def lookup_tool_def flag_token_def flag_name_def flag_kind_def
        set_by_name_def set_named_def set_flag_def fun_upd_twist)
  then show ?thesis by (simp add: e r j ping_server_def)
qed

end
