(* ===== verification/Serve_Setup.thy ===== *)
theory Serve_Setup
  imports End_To_End
begin

text \<open>
  The \<open>serve\<close> subcommand (\<open>internal/tools/tool_serve.go\<close>): how it turns its arguments and the environment
  into a jail, a token, the databases and the server's environment, the banner, and what it closes on the
  way out. What lies outside is the record \<open>serve_world\<close>: the environment, the operating system of the
  jail, the random bytes of \<open>crypto/rand\<close>, the database drivers, the library behind the TLS configuration, \<open>tls.Listen\<close>,
  \<open>sw_log_line\<close>, which is what the logger makes of a message, and \<open>sw_serve\<close>, which is
  \<open>Serve\<close> of the server with its environment, token and databases: what it writes to the log, which is on
  the standard error, and its error. \<open>sw_order\<close> is the order in which Go ranges over a map, each entry once.
\<close>

record ('e, 'd) serve_world =
  sw_getenv :: "string \<Rightarrow> string"
  sw_environ :: "string list"
  sw_lower :: "string \<Rightarrow> string"
  sw_os :: "'e os"
  sw_rand :: "'e + 8 word list"
  sw_drivers :: "('e, 'd) drivers"
  sw_order :: "(string \<rightharpoonup> string) \<Rightarrow> (string \<times> string) list"
  sw_crypto :: "'e crypto"
  sw_listen :: "string \<Rightarrow> tls_config \<Rightarrow> 'e option"
  sw_journalctl :: string
  sw_version :: string
  sw_ttl_text :: "int \<Rightarrow> string \<times> string"
  sw_remote_names :: "string list"
  sw_log_line :: "string \<Rightarrow> string"
  sw_serve :: "env \<Rightarrow> string \<Rightarrow> 'd db_registry option \<Rightarrow> int \<Rightarrow> string \<times> 'e option"

datatype 'e serve_error =
    ServeArgs "'e tool_error"
  | BadBind normalize_error
  | NoWorkingDirectory "'e os_error"
  | ServeJail "'e jail_error"
  | NoToken 'e
  | BadDatabases "'e db_error"
  | NoTlsConfig 'e
  | CannotListen string 'e
  | ServerFailed 'e

section \<open>Token and databases\<close>

definition hex_digit :: "nat \<Rightarrow> char" where
  "hex_digit n = (if n < 10 then char_of (48 + n) else char_of (87 + n))"

definition hex_encode :: "8 word list \<Rightarrow> string" where
  "hex_encode bs = concat (map (\<lambda>b. [hex_digit (unat b div 16), hex_digit (unat b mod 16)]) bs)"

text \<open>\<open>generateToken\<close>; \<open>rand.Read\<close> fills the sixteen bytes or fails.\<close>

definition generate_token :: "'e + 8 word list \<Rightarrow> 'e + string" where
  "generate_token rand = bind_res rand (\<lambda>bs. Inr (hex_encode (take 16 bs)))"

definition serve_token :: "('e, 'd) serve_world \<Rightarrow> serve_args \<Rightarrow> 'e serve_error + string" where
  "serve_token W args =
     (let token = resolve_setting (sw_getenv W) (sa_token args) ''RPEEK_TOKEN'' []
      in if token = [] then lift_err NoToken (generate_token (sw_rand W)) else Inr token)"

definition serve_specs :: "('e, 'd) serve_world \<Rightarrow> serve_args \<Rightarrow> string \<rightharpoonup> string" where
  "serve_specs W args = merged_specs (db_specs (sw_lower W) (sw_environ W)) (sa_dbs args)"

text \<open>The databases, or the error and the handles \<open>dbconn.New\<close> closed.\<close>

definition serve_databases ::
  "('e, 'd) serve_world \<Rightarrow> serve_args \<Rightarrow> ('e serve_error \<times> 'd list) + 'd db_registry option" where
  "serve_databases W args =
     (let specs = sw_order W (serve_specs W args)
      in if specs = [] then Inr None
      else case db_new (sw_drivers W) specs of
        Inl (e, shut) \<Rightarrow> Inl (BadDatabases e, shut)
      | Inr reg \<Rightarrow> Inr (Some reg))"

section \<open>Setting up\<close>

record 'd serve_setup =
  ss_addr :: string
  ss_token :: string
  ss_env :: env
  ss_db :: "'d db_registry option"

definition serve_roots :: "('e, 'd) serve_world \<Rightarrow> serve_args \<Rightarrow> 'e serve_error + jail_set" where
  "serve_roots W args =
     bind_res (if sa_roots args = [] then
                 lift_err NoWorkingDirectory (bind_res (os_getwd (sw_os W)) (\<lambda>cwd. Inr [cwd]))
               else Inr (sa_roots args)) (\<lambda>roots.
       lift_err ServeJail (new_jail_set (sw_os W) roots))"

text \<open>Everything before the banner. An error comes with the handles closed on the way out: once the
  databases are open, their registry is closed by a deferred call.\<close>

definition closed_registry :: "('e, 'd) serve_world \<Rightarrow> 'd db_registry option \<Rightarrow> 'd list" where
  "closed_registry W db = (case db of None \<Rightarrow> [] | Some reg \<Rightarrow> fst (db_close (sw_drivers W) (db_conns reg)))"

definition serve_up ::
  "('e, 'd) serve_world \<Rightarrow> serve_args \<Rightarrow> ('e serve_error \<times> 'd list) + 'd serve_setup" where
  "serve_up W args =
     (let nothing = (\<lambda>e. (e, [])) in
      bind_res (lift_err (nothing \<circ> BadBind)
        (normalize_addr (resolve_setting (sw_getenv W) (sa_host args) ''RPEEK_HOST'' ''0.0.0.0''))) (\<lambda>addr.
      bind_res (lift_err nothing (serve_roots W args)) (\<lambda>jail.
      bind_res (lift_err nothing (serve_token W args)) (\<lambda>token.
      bind_res (serve_databases W args) (\<lambda>db.
        case server_tls_config (sw_crypto W) of
          Inl e \<Rightarrow> Inl (NoTlsConfig e, closed_registry W db)
        | Inr tls \<Rightarrow>
            (case sw_listen W addr tls of
               Some e \<Rightarrow> Inl (CannotListen addr e, closed_registry W db)
             | None \<Rightarrow>
                 Inr \<lparr>ss_addr = addr, ss_token = token,
                   ss_env = \<lparr>env_jail = jail,
                     env_limits = \<lparr>max_output = sa_max_output args, timeout = sa_timeout args\<rparr>,
                     env_journalctl = sw_journalctl W\<rparr>,
                   ss_db = db\<rparr>))))))"

section \<open>The banner\<close>

definition arrow :: string where
  "arrow = [CHR 0xE2, CHR 0x86, CHR 0x92]"

definition banner_dbs :: "'d db_registry \<Rightarrow> string" where
  "banner_dbs reg =
     join_with '', '' (List.map_filter (\<lambda>a. map_option (\<lambda>c.
       a @ '' '' @ arrow @ '' '' @ engine_string (c_engine c) @ ''@'' @ c_host c) (dr_conns reg a)) (dr_aliases reg))"

definition serve_banner :: "('e, 'd) serve_world \<Rightarrow> int \<Rightarrow> 'd serve_setup \<Rightarrow> string" where
  "serve_banner W ttl s =
     (let ttl_line = (if ttl > 0 then (let (dur, clock) = sw_ttl_text W ttl in dur @ '' (shuts down ~'' @ clock @ '')'')
                      else ''disabled (WARNING: server runs until stopped)'')
      in ''rpeek '' @ sw_version W @ '' serve '' @ em_dash @ '' read-only diagnostic server'' @ [newline] @
         ''listen : '' @ ss_addr s @ [newline] @
         ''jails  : '' @ join_with '', '' (roots (env_jail (ss_env s))) @ ''   (file tools may read within these)'' @ [newline] @
         ''token  : '' @ ss_token s @ ''   (pass to the client via --token or RPEEK_TOKEN)'' @ [newline] @
         ''ttl    : '' @ ttl_line @ [newline] @
         ''tls    : ad-hoc self-signed; client skips verification by design'' @ [newline] @
         (case ss_db s of
            Some reg \<Rightarrow>
              if dr_aliases reg \<noteq> [] then ''dbs    : '' @ banner_dbs reg @ ''   (passwords redacted)'' @ [newline] else []
          | None \<Rightarrow> []) @
         ''tools  : '' @ join_with '' '' (sw_remote_names W) @ ''   (READ-ONLY)'' @ [newline])"

text \<open>
  \<open>Serve\<close>: what it wrote to the standard output, what its logger wrote to the standard error, the error
  it returned, and the database handles it closed.
\<close>

definition serve_main ::
  "('e, 'd) serve_world \<Rightarrow> (string \<Rightarrow> 'e + serve_args) \<Rightarrow> string \<Rightarrow>
   string \<times> string \<times> 'e serve_error option \<times> 'd list" where
  "serve_main W unmarshal raw =
     (case decode_args unmarshal
        \<lparr>sa_host = [], sa_token = [], sa_ttl = 0, sa_max_output = 0, sa_timeout = 0, sa_roots = [], sa_dbs = Map.empty\<rparr> raw of
        Inl e \<Rightarrow> ([], [], Some (ServeArgs e), [])
      | Inr args \<Rightarrow>
          (case serve_up W args of
             Inl (e, shut) \<Rightarrow> ([], [], Some e, shut)
           | Inr s \<Rightarrow>
               (let banner = serve_banner W (sa_ttl args) s; shut = closed_registry W (ss_db s)
                in case sw_serve W (ss_env s) (ss_token s) (ss_db s) (sa_ttl args) of
                     (log, Some e) \<Rightarrow> (banner, log, Some (ServerFailed e), shut)
                   | (log, None) \<Rightarrow> (banner, log @ sw_log_line W ''shutting down'', None, shut))))"

section \<open>The token\<close>

lemma hex_digit_inject: "a < 16 \<Longrightarrow> b < 16 \<Longrightarrow> hex_digit a = hex_digit b \<Longrightarrow> a = b"
proof -
  assume ab: "a < 16" "b < 16" "hex_digit a = hex_digit b"
  have code: "x < 16 \<Longrightarrow> (of_char (hex_digit x) :: nat) = (if x < 10 then 48 + x else 87 + x)" for x
    by (auto simp: hex_digit_def)
  then have "(if a < 10 then 48 + a else 87 + a) = (if b < 10 then 48 + b else 87 + b)"
    using ab by metis
  then show "a = b" by (simp split: if_splits)
qed

lemma hex_encode_length: "length (hex_encode bs) = 2 * length bs"
  by (induction bs) (simp_all add: hex_encode_def)

lemma hex_encode_inject: "hex_encode bs = hex_encode cs \<Longrightarrow> length bs = length cs \<Longrightarrow> bs = cs"
proof (induction bs cs rule: list_induct2')
  case (4 b bs c cs)
  have "unat b div 16 < 16" "unat c div 16 < 16"
    using unsigned_less [where 'a = nat, of b] unsigned_less [where 'a = nat, of c]
    by (simp_all add: div_less_iff_less_mult)
  then have "unat b div 16 = unat c div 16" "unat b mod 16 = unat c mod 16"
    using "4.prems"(1) hex_digit_inject [of "unat b div 16" "unat c div 16"]
      hex_digit_inject [of "unat b mod 16" "unat c mod 16"] by (simp_all add: hex_encode_def)
  then have "b = c" by (metis div_mult_mod_eq word_unat_eq_iff)
  then show ?case using 4 by (simp add: hex_encode_def)
qed (simp_all add: hex_encode_def)

lemma serve_upE:
  assumes "serve_up W args = Inr s"
  obtains jail db where
    "serve_roots W args = Inr jail" "serve_token W args = Inr (ss_token s)" "serve_databases W args = Inr db"
    "env_jail (ss_env s) = jail" "ss_db s = db"
    "normalize_addr (resolve_setting (sw_getenv W) (sa_host args) ''RPEEK_HOST'' ''0.0.0.0'') = Inr (ss_addr s)"
    "ss_env s = \<lparr>env_jail = jail, env_limits = \<lparr>max_output = sa_max_output args, timeout = sa_timeout args\<rparr>,
       env_journalctl = sw_journalctl W\<rparr>"
  using assms
  by (cases "server_tls_config (sw_crypto W)") (auto simp: serve_up_def Let_def res_simps split: option.splits)

lemma serve_token_cases:
  assumes "serve_token W args = Inr token"
  obtains "resolve_setting (sw_getenv W) (sa_token args) ''RPEEK_TOKEN'' [] = token" "token \<noteq> []"
  | bs where "resolve_setting (sw_getenv W) (sa_token args) ''RPEEK_TOKEN'' [] = []" "sw_rand W = Inr bs"
      "token = hex_encode (take 16 bs)"
  using assms by (auto simp: serve_token_def generate_token_def Let_def res_simps split: if_splits)

section \<open>The file tools\<close>

text \<open>What the file tools see of the file system behind the jail.\<close>

record 'e file_world =
  fw_open :: "'e opener"
  fw_dir :: "'e dir_os"
  fw_stat :: "string \<Rightarrow> 'e os_error + stat_info"
  fw_walk :: "string \<Rightarrow> walk_entry list"

definition inside :: "jail_set \<Rightarrow> string \<Rightarrow> bool" where
  "inside j p \<longleftrightarrow> (\<exists>root\<in>set (roots j). below root p)"

text \<open>Two worlds that are the same at and below the roots of the jail.\<close>

definition same_inside :: "jail_set \<Rightarrow> 'e file_world \<Rightarrow> 'e file_world \<Rightarrow> bool" where
  "same_inside j F G \<longleftrightarrow>
     (\<forall>p. inside j p \<longrightarrow>
        fw_open F p = fw_open G p \<and> fw_stat F p = fw_stat G p \<and> fw_walk F p = fw_walk G p \<and>
        (\<forall>w\<in>set (fw_walk F p). fw_open F (w_path w) = fw_open G (w_path w)) \<and>
        open_dir (fw_dir F) p = open_dir (fw_dir G) p \<and>
        full_batches (fw_dir F) p = full_batches (fw_dir G) p \<and>
        last_batch (fw_dir F) p = last_batch (fw_dir G) p \<and>
        (\<forall>n. lstat_info (fw_dir F) (join_path [p, n]) = lstat_info (fw_dir G) (join_path [p, n])))"

lemma resolve_path_inside:
  "os_ok os \<Longrightarrow> jail_ok j \<Longrightarrow> resolve_path os j p = Inr r \<Longrightarrow> inside j r"
  using resolve_path_pieces [of os j p r] contains_below [of j r] by (auto simp: inside_def)

lemma list_lines_cong:
  "(\<And>n. lstat (join_path [dir, n]) = lstat' (join_path [dir, n])) \<Longrightarrow>
     list_lines ctx lstat dir k b names = list_lines ctx lstat' dir k b names"
  by (induction ctx lstat dir k b names rule: list_lines.induct) (simp_all split: option.split)

lemma scan_file_cong:
  "gc_open c path = opn path \<Longrightarrow> scan_file c s path = scan_file (c\<lparr>gc_open := opn\<rparr>) s path"
  by (simp add: scan_file_def grep_lines_opener split: sum.split)

lemma grep_walk_cong:
  "(\<And>w. w \<in> set ws \<Longrightarrow> gc_open c (w_path w) = opn (w_path w)) \<Longrightarrow>
     grep_walk c s ws = grep_walk (c\<lparr>gc_open := opn\<rparr>) s ws"
proof (induction ws arbitrary: s)
  case (Cons w ws)
  have "scan_file c s (w_path w) = scan_file (c\<lparr>gc_open := opn\<rparr>) s (w_path w)" for s
    by (rule scan_file_cong) (simp add: Cons.prems)
  moreover have "grep_walk c s ws = grep_walk (c\<lparr>gc_open := opn\<rparr>) s ws" for s
    using Cons by simp
  ultimately show ?case by (simp add: Let_def split: option.split prod.split scan_end.split)
qed simp

section \<open>What a tool sees is what its path resolves to\<close>

lemma read_confined:
  assumes "\<And>p r. resolve_file os (env_jail env) p = Inr r \<Longrightarrow> opn r = opn' r"
  shows "read_remote un os opn env raw = read_remote un os opn' env raw"
  unfolding read_remote_def Let_def by (intro bind_res_cong refl) (simp add: assms res_simps)

lemma tail_confined:
  assumes "\<And>p r. resolve_file os (env_jail env) p = Inr r \<Longrightarrow> opn r = opn' r"
  shows "tail_remote un os opn ctx env raw = tail_remote un os opn' ctx env raw"
  unfolding tail_remote_def Let_def by (intro bind_res_cong refl) (simp add: assms res_simps)

lemma stat_confined:
  assumes "\<And>p r. resolve_path os (env_jail env) p = Inr r \<Longrightarrow> st r = st' r"
  shows "stat_remote un os st env raw = stat_remote un os st' env raw"
  unfolding stat_remote_def Let_def by (intro bind_res_cong refl) (simp add: assms res_simps)

lemma list_confined:
  assumes "\<And>p r. resolve_path os (env_jail env) p = Inr r \<Longrightarrow>
      open_dir d r = open_dir d' r \<and> full_batches d r = full_batches d' r \<and> last_batch d r = last_batch d' r \<and>
      (\<forall>n. lstat_info d (join_path [r, n]) = lstat_info d' (join_path [r, n]))"
  shows "list_remote un os d ctx env raw = list_remote un os d' ctx env raw"
proof -
  have ll: "list_lines ctx (lstat_info d) r k b ns = list_lines ctx (lstat_info d') r k b ns"
    if "resolve_path os (env_jail env) p = Inr r" for p r k b ns
    using assms [OF that] by (intro list_lines_cong) auto
  show ?thesis
    unfolding list_remote_def Let_def
    by (intro bind_res_cong refl if_cong) (simp add: assms ll res_simps split: option.split)
qed

lemma grep_confined:
  assumes "\<And>p r. resolve_path os (env_jail env) p = Inr r \<Longrightarrow>
      opn r = opn' r \<and> walk r = walk' r \<and> (\<forall>w\<in>set (walk r). opn (w_path w) = opn' (w_path w))"
  shows "grep_remote un compile os walk opn ctx env raw = grep_remote un compile os walk' opn' ctx env raw"
proof -
  have scan: "scan_file \<lparr>gc_ctx = x, gc_re = re, gc_max = m, gc_out = z, gc_open = opn\<rparr> g r =
      scan_file \<lparr>gc_ctx = x, gc_re = re, gc_max = m, gc_out = z, gc_open = opn'\<rparr> g r"
    and wlk: "grep_walk \<lparr>gc_ctx = x, gc_re = re, gc_max = m, gc_out = z, gc_open = opn\<rparr> g (walk r) =
      grep_walk \<lparr>gc_ctx = x, gc_re = re, gc_max = m, gc_out = z, gc_open = opn'\<rparr> g (walk' r)"
    if "resolve_path os (env_jail env) p = Inr r" for p r x re m z g
    using assms [OF that]
      scan_file_cong [of "\<lparr>gc_ctx = x, gc_re = re, gc_max = m, gc_out = z, gc_open = opn\<rparr>" r opn' g]
      grep_walk_cong [of "walk r" "\<lparr>gc_ctx = x, gc_re = re, gc_max = m, gc_out = z, gc_open = opn\<rparr>" opn' g]
    by auto
  show ?thesis
    unfolding grep_remote_def Let_def
    by (intro bind_res_cong refl if_cong) (simp add: scan wlk res_simps cong: if_cong)
qed

text \<open>Of the file system's own calls the tools see how paths resolve, and the modes of what they resolve to.\<close>

lemma read_paths:
  assumes "\<And>p. resolve_file os (env_jail env) p = resolve_file os' (env_jail env) p"
  shows "read_remote un os opn env raw = read_remote un os' opn env raw"
  by (simp add: read_remote_def assms)

lemma tail_paths:
  assumes "\<And>p. resolve_file os (env_jail env) p = resolve_file os' (env_jail env) p"
  shows "tail_remote un os opn ctx env raw = tail_remote un os' opn ctx env raw"
  by (simp add: tail_remote_def assms)

lemma stat_paths:
  assumes "\<And>p. resolve_path os (env_jail env) p = resolve_path os' (env_jail env) p"
  shows "stat_remote un os st env raw = stat_remote un os' st env raw"
  by (simp add: stat_remote_def assms)

lemma list_paths:
  assumes "\<And>p. resolve_path os (env_jail env) p = resolve_path os' (env_jail env) p"
    and "\<And>p r. resolve_path os' (env_jail env) p = Inr r \<Longrightarrow> os_stat os r = os_stat os' r"
  shows "list_remote un os d ctx env raw = list_remote un os' d ctx env raw"
  unfolding list_remote_def assms(1) by (intro bind_res_cong refl) (simp add: assms(2) res_simps)

lemma grep_paths:
  assumes "\<And>p. resolve_path os (env_jail env) p = resolve_path os' (env_jail env) p"
    and "\<And>p r. resolve_path os' (env_jail env) p = Inr r \<Longrightarrow> os_stat os r = os_stat os' r"
  shows "grep_remote un compile os walk opn ctx env raw = grep_remote un compile os' walk opn ctx env raw"
  unfolding grep_remote_def Let_def assms(1) by (intro bind_res_cong refl if_cong) (simp add: assms(2) res_simps)

section \<open>The databases\<close>

text \<open>
  Two DSNs for the same database by different credentials: the same, or URLs for the same engine whose host, as
  the URL parser has it, is the same, or SQLite files on the same path. User, password, database and parameters
  are free.
\<close>

definition same_target :: "('e, 'd) drivers \<Rightarrow> string \<Rightarrow> string \<Rightarrow> bool" where
  "same_target D dsn dsn' \<longleftrightarrow>
     dsn = dsn' \<or>
     (\<exists>scheme u u'. scheme \<in> {''postgres://'', ''mysql://''} \<and> has_prefix dsn scheme \<and> has_prefix dsn' scheme \<and>
        dr_url_parse D dsn = Inr u \<and> dr_url_parse D dsn' = Inr u' \<and> u_host u = u_host u') \<or>
     (\<exists>path given given'. CHR ''?'' \<notin> set path \<and> dsn = ''sqlite://'' @ path @ given \<and> dsn' = ''sqlite://'' @ path @ given' \<and>
        (given = [] \<or> hd given = CHR ''?'') \<and> (given' = [] \<or> hd given' = CHR ''?''))"

lemma open_conn_shows:
  assumes "open_conn D dsn = Inr c"
  obtains drv o' where "resolve_dsn D dsn = Inr (c_engine c, drv, o', c_host c)"
proof -
  from assms obtain e d o' h where "resolve_dsn D dsn = Inr (e, d, o', h)"
    "(case dr_sql_open D d o' of Inl e \<Rightarrow> Inl (OpenFailed e)
      | Inr db \<Rightarrow> Inr \<lparr>c_db = db, c_engine = e, c_host = h\<rparr>) = Inr c"
    by (auto simp: open_conn_def res_simps)
  then show thesis using that by (cases "dr_sql_open D d o'") auto
qed

lemma sqlite_dsn_path:
  assumes "CHR ''?'' \<notin> set path" "given = [] \<or> hd given = CHR ''?''"
  shows "snd (sqlite_dsn (''sqlite://'' @ path @ given)) = path"
proof -
  have trim: "trim_prefix (''sqlite://'' @ path @ given) ''sqlite://'' = path @ given"
    by (simp add: trim_prefix_def has_prefix_iff)
  show ?thesis
  proof (cases given)
    case Nil
    then have "index_byte (path @ given) CHR ''?'' = None" using assms(1) by simp
    then show ?thesis using trim Nil by (simp add: sqlite_dsn_def Let_def)
  next
    case (Cons c r)
    then have "index_byte (path @ given) CHR ''?'' = Some (length path)" using assms by simp
    then show ?thesis using trim by (simp add: sqlite_dsn_def Let_def)
  qed
qed

lemma same_target_shows:
  assumes "same_target D dsn dsn'" "open_conn D dsn = Inr c" "open_conn D dsn' = Inr c'"
  shows "c_engine c = c_engine c' \<and> c_host c = c_host c'"
proof -
  obtain d o' d' o'' where r: "resolve_dsn D dsn = Inr (c_engine c, d, o', c_host c)"
    "resolve_dsn D dsn' = Inr (c_engine c', d', o'', c_host c')"
    using open_conn_shows [OF assms(2)] open_conn_shows [OF assms(3)] by metis
  from assms(1) consider "dsn = dsn'"
    | u u' where "has_prefix dsn ''postgres://''" "has_prefix dsn' ''postgres://''"
        "dr_url_parse D dsn = Inr u" "dr_url_parse D dsn' = Inr u'" "u_host u = u_host u'"
    | u u' where "has_prefix dsn ''mysql://''" "has_prefix dsn' ''mysql://''"
        "dr_url_parse D dsn = Inr u" "dr_url_parse D dsn' = Inr u'" "u_host u = u_host u'"
    | path g g' where "CHR ''?'' \<notin> set path" "dsn = ''sqlite://'' @ path @ g" "dsn' = ''sqlite://'' @ path @ g'"
        "g = [] \<or> hd g = CHR ''?''" "g' = [] \<or> hd g' = CHR ''?''"
    by (auto simp: same_target_def)
  then show ?thesis
  proof cases
    case 1
    then show ?thesis using r by simp
  next
    case 2
    then show ?thesis using r by (simp add: resolve_dsn_def url_host_def)
  next
    case 3
    then have "\<not> has_prefix dsn ''postgres://''" "\<not> has_prefix dsn' ''postgres://''" by (auto simp: has_prefix_iff)
    then show ?thesis using r 3 by (simp add: resolve_dsn_def mysql_url_to_dsn_def)
  next
    case (4 path g g')
    then have "\<not> has_prefix dsn ''postgres://''" "\<not> has_prefix dsn' ''postgres://''" "\<not> has_prefix dsn ''mysql://''"
      "\<not> has_prefix dsn' ''mysql://''" "has_prefix dsn ''sqlite://''" "has_prefix dsn' ''sqlite://''"
      by (auto simp: has_prefix_iff)
    moreover have "snd (sqlite_dsn dsn) = path" "snd (sqlite_dsn dsn') = path"
      using sqlite_dsn_path [OF 4(1,4)] sqlite_dsn_path [OF 4(1,5)] 4(2,3) by simp_all
    ultimately show ?thesis using r by (auto simp: resolve_dsn_def split: prod.splits)
  qed
qed

definition db_view :: "'d db_registry \<Rightarrow> string list \<times> (string \<Rightarrow> (engine \<times> string) option)" where
  "db_view reg = (dr_aliases reg, \<lambda>a. map_option (\<lambda>c. (c_engine c, c_host c)) (dr_conns reg a))"

definition shown_db :: "string \<Rightarrow> engine \<times> string \<Rightarrow> string" where
  "shown_db a = (\<lambda>(e, h). a @ '' '' @ arrow @ '' '' @ engine_string e @ ''@'' @ h)"

lemma banner_dbs_view:
  fixes reg reg' :: "'d db_registry"
  assumes "db_view reg = db_view reg'"
  shows "banner_dbs reg = banner_dbs reg'"
proof -
  have eq: "banner_dbs r = join_with '', '' (List.map_filter (\<lambda>a. map_option (shown_db a) (snd (db_view r) a))
      (fst (db_view r)))" for r :: "'d db_registry"
    by (simp add: banner_dbs_def db_view_def shown_db_def option.map_comp comp_def)
  show ?thesis by (simp only: eq assms)
qed

lemma db_new_view:
  assumes "db_new D specs = Inr reg" "db_new D specs' = Inr reg'"
    and "distinct (map fst specs)" "distinct (map fst specs')" "fst ` set specs = fst ` set specs'"
    and "\<And>a dsn dsn'. map_of specs a = Some dsn \<Longrightarrow> map_of specs' a = Some dsn' \<Longrightarrow> same_target D dsn dsn'"
  shows "db_view reg = db_view reg'"
proof -
  have al: "dr_aliases reg = dr_aliases reg'"
    using db_new_ok(1) [OF assms(1,3)] db_new_ok(1) [OF assms(2,4)] assms(3-5)
    by (metis distinct_sort list.set_map set_sort sorted_distinct_set_unique sorted_sort)
  have "map_option (\<lambda>c. (c_engine c, c_host c)) (dr_conns reg a) =
      map_option (\<lambda>c. (c_engine c, c_host c)) (dr_conns reg' a)" for a
  proof (cases "a \<in> fst ` set specs")
    case True
    obtain c where c: "dr_conns reg a = Some c" using db_new_ok(4) [OF assms(1,3) True] by blast
    obtain c' where c': "dr_conns reg' a = Some c'" using db_new_ok(4) [OF assms(2,4)] True assms(5) by blast
    obtain dsn where d: "map_of specs a = Some dsn" "open_conn D dsn = Inr c"
      using db_new_ok(3) [OF assms(1,3)] c by blast
    obtain dsn' where d': "map_of specs' a = Some dsn'" "open_conn D dsn' = Inr c'"
      using db_new_ok(3) [OF assms(2,4)] c' by blast
    show ?thesis using same_target_shows [OF assms(6) [OF d(1) d'(1)] d(2) d'(2)] c c' by simp
  next
    case False
    then have "map_of specs a = None" "map_of specs' a = None"
      using assms(5) by (simp_all add: map_of_eq_None_iff)
    then have "dr_conns reg a = None" "dr_conns reg' a = None"
      using db_new_ok(3) [OF assms(1,3), of a] db_new_ok(3) [OF assms(2,4), of a]
      by (auto intro: option.exhaust [of "dr_conns reg a"] option.exhaust [of "dr_conns reg' a"])
    then show ?thesis by simp
  qed
  then show ?thesis by (simp add: db_view_def al)
qed

text \<open>What \<open>db-list\<close> answers is a function of the view, too.\<close>

lemma db_list_view:
  fixes reg reg' :: "'d db_registry"
  assumes "db_view reg = db_view reg'"
  shows "db_list_remote unmarshal env (Some reg) raw = db_list_remote unmarshal env (Some reg') raw"
proof -
  have eq: "db_list_remote unmarshal env (Some r) raw =
     bind_res (lift_err DbArgs (decode_args unmarshal () raw)) (\<lambda>_.
       if fst (db_view r) = [] then
         Inr \<lparr>out_text = ''no databases are configured on this server\<newline>'', truncated = False\<rparr>
       else capped_table env (render_table [''ALIAS'', ''ENGINE'', ''HOST'']
         (List.map_filter (\<lambda>a. map_option (\<lambda>(e, h). [a, engine_string e, h]) (snd (db_view r) a))
           (fst (db_view r)))))" for r :: "'d db_registry"
    by (simp add: db_list_remote_def db_view_def option.map_comp comp_def)
  show ?thesis by (simp only: eq assms)
qed

lemma serve_databases_Some:
  "serve_databases W args = Inr db \<Longrightarrow> sw_order W (serve_specs W args) \<noteq> [] \<Longrightarrow>
     \<exists>reg. db = Some reg \<and> db_new (sw_drivers W) (sw_order W (serve_specs W args)) = Inr reg"
  by (auto simp: serve_databases_def Let_def split: sum.splits prod.splits)

section \<open>Properties\<close>

text \<open>
  C15: The server always has a token: whatever the configuration, the token it is set up with is not
  empty, so a request with an empty token runs nothing. It is the flag's or else the environment's, and when
  neither gives one it is the sixteen bytes of the random source in hexadecimal, thirty-two digits from which
  the bytes can be read back.
\<close>

theorem served_token_nonempty:
  assumes "serve_up W args = Inr s" "\<forall>bs. sw_rand W = Inr bs \<longrightarrow> length bs = 16"
  shows "ss_token s \<noteq> [] \<and>
    (sv_token sv = ss_token s \<and> request_of sv input = Some req \<and> rq_token req = [] \<longrightarrow>
       Ran t a \<notin> set (handle_conn sv remote dur input)) \<and>
    (if resolve_setting (sw_getenv W) (sa_token args) ''RPEEK_TOKEN'' [] \<noteq> [] then
       ss_token s = resolve_setting (sw_getenv W) (sa_token args) ''RPEEK_TOKEN'' []
     else length (ss_token s) = 32 \<and>
       (\<exists>bs. sw_rand W = Inr bs \<and> ss_token s = hex_encode bs \<and>
          (\<forall>cs. length cs = 16 \<longrightarrow> hex_encode cs = ss_token s \<longrightarrow> cs = bs)))"
proof -
  let ?set = "resolve_setting (sw_getenv W) (sa_token args) ''RPEEK_TOKEN'' []"
  let ?own = "if ?set \<noteq> [] then ss_token s = ?set
     else length (ss_token s) = 32 \<and>
       (\<exists>bs. sw_rand W = Inr bs \<and> ss_token s = hex_encode bs \<and>
          (\<forall>cs. length cs = 16 \<longrightarrow> hex_encode cs = ss_token s \<longrightarrow> cs = bs))"
  from assms(1) have tok: "serve_token W args = Inr (ss_token s)" by (rule serve_upE)
  then have t: "ss_token s \<noteq> [] \<and> ?own"
  proof (cases rule: serve_token_cases)
    case (2 bs)
    then have len: "length bs = 16" and enc: "ss_token s = hex_encode bs" using assms(2) by auto
    have l32: "length (ss_token s) = 32" using len by (simp add: enc hex_encode_length)
    moreover have "cs = bs" if "length cs = 16" "hex_encode cs = ss_token s" for cs
      using len enc hex_encode_inject that by simp
    ultimately show ?thesis using 2(1,2) enc by auto
  qed auto
  moreover have "Ran t a \<notin> set (handle_conn sv remote dur input)"
    if "sv_token sv = ss_token s" "request_of sv input = Some req" "rq_token req = []"
    using t that by (cases rule: handle_conn_cases [of sv input remote dur]) auto
  ultimately show ?thesis by blast
qed

text \<open>
  C14: Credentials do not show. Take two configurations, by the flags and by the environment, with the same
  aliases and, for each alias, two DSNs of the same engine and host or file: whatever else differs in them, user,
  password, database and parameters, the two servers print the same banner and give the same answers of \<open>db-list\<close>.
\<close>

theorem credentials_redacted:
  fixes W :: "('e, 'd) serve_world"
  assumes "serve_up W args = Inr s" "serve_up (W\<lparr>sw_environ := environ\<rparr>) (args\<lparr>sa_dbs := dbs\<rparr>) = Inr s'"
    and "\<forall>m\<in>{serve_specs W args, serve_specs (W\<lparr>sw_environ := environ\<rparr>) (args\<lparr>sa_dbs := dbs\<rparr>)}.
      map_of (sw_order W m) = m \<and> distinct (map fst (sw_order W m))"
    and "\<forall>a. rel_option (same_target (sw_drivers W)) (serve_specs W args a)
      (serve_specs (W\<lparr>sw_environ := environ\<rparr>) (args\<lparr>sa_dbs := dbs\<rparr>) a)"
  shows "serve_banner W ttl s = serve_banner (W\<lparr>sw_environ := environ\<rparr>) ttl s' \<and>
    db_list_remote unmarshal (ss_env s) (ss_db s) raw = db_list_remote unmarshal (ss_env s') (ss_db s') raw"
proof -
  let ?args' = "args\<lparr>sa_dbs := dbs\<rparr>" and ?W' = "W\<lparr>sw_environ := environ\<rparr>"
  let ?specs = "sw_order W (serve_specs W args)" and ?specs' = "sw_order W (serve_specs ?W' ?args')"
  have m: "map_of ?specs = serve_specs W args" "map_of ?specs' = serve_specs ?W' ?args'"
    and d: "distinct (map fst ?specs)" "distinct (map fst ?specs')" using assms(3) by auto
  have rel: "rel_option (same_target (sw_drivers W)) (map_of ?specs a) (map_of ?specs' a)" for a
    unfolding m using assms(4) by blast
  have "map_of ?specs a = None \<longleftrightarrow> map_of ?specs' a = None" for a using rel [of a] by (auto elim: option.rel_cases)
  then have dom: "fst ` set ?specs = fst ` set ?specs'" by (auto simp: map_of_eq_None_iff)
  have view: "same_target (sw_drivers W) dsn dsn'"
    if "map_of ?specs a = Some dsn" "map_of ?specs' a = Some dsn'" for a dsn dsn'
    using rel [of a] that by simp
  obtain jail db where s: "serve_roots W args = Inr jail" "serve_token W args = Inr (ss_token s)"
      "serve_databases W args = Inr db" "env_jail (ss_env s) = jail" "ss_db s = db"
      "normalize_addr (resolve_setting (sw_getenv W) (sa_host args) ''RPEEK_HOST'' ''0.0.0.0'') = Inr (ss_addr s)"
      "ss_env s = \<lparr>env_jail = jail, env_limits = \<lparr>max_output = sa_max_output args, timeout = sa_timeout args\<rparr>,
         env_journalctl = sw_journalctl W\<rparr>"
    by (rule serve_upE [OF assms(1)]) blast
  obtain jail' db' where s': "serve_roots ?W' ?args' = Inr jail'" "serve_token ?W' ?args' = Inr (ss_token s')"
      "serve_databases ?W' ?args' = Inr db'" "env_jail (ss_env s') = jail'" "ss_db s' = db'"
      "normalize_addr (resolve_setting (sw_getenv ?W') (sa_host ?args') ''RPEEK_HOST'' ''0.0.0.0'') = Inr (ss_addr s')"
      "ss_env s' = \<lparr>env_jail = jail', env_limits = \<lparr>max_output = sa_max_output ?args', timeout = sa_timeout ?args'\<rparr>,
         env_journalctl = sw_journalctl ?W'\<rparr>"
    by (rule serve_upE [OF assms(2)]) blast
  have "serve_roots ?W' ?args' = serve_roots W args" "serve_token ?W' ?args' = serve_token W args"
    by (simp_all add: serve_roots_def serve_token_def Let_def cong: if_cong)
  then have same: "jail' = jail" "ss_token s' = ss_token s" "ss_addr s' = ss_addr s"
    using s(1,2,6) s'(1,2,6) by simp_all
  have db': "sw_order ?W' (serve_specs ?W' ?args') = ?specs'" "sw_drivers ?W' = sw_drivers W" by simp_all
  have dbs: "(db = None \<and> db' = None) \<or> (\<exists>reg reg'. db = Some reg \<and> db' = Some reg' \<and> db_view reg = db_view reg')"
  proof (cases "?specs = []")
    case True
    then have "?specs' = []" using dom by simp
    then show ?thesis using True s(3) s'(3) by (simp add: serve_databases_def)
  next
    case False
    then have "?specs' \<noteq> []" using dom by auto
    with serve_databases_Some [OF s(3) False] serve_databases_Some [OF s'(3)]
    obtain reg reg' where r: "db = Some reg" "db_new (sw_drivers W) ?specs = Inr reg"
        "db' = Some reg'" "db_new (sw_drivers W) ?specs' = Inr reg'"
      unfolding db' by blast
    have "db_view reg = db_view reg'" by (rule db_new_view [OF r(2,4) d dom]) (rule view)
    then show ?thesis using r(1,3) by simp
  qed
  have env: "ss_env s' = ss_env s" using s(7) s'(7) same(1) by simp
  from dbs show ?thesis
  proof (elim disjE exE conjE)
    assume "db = None" "db' = None"
    then show ?thesis using s(5) s'(5) same env by (simp add: serve_banner_def)
  next
    fix reg reg' assume r: "db = Some reg" "db' = Some reg'" "db_view reg = db_view reg'"
    have "dr_aliases reg = dr_aliases reg'" using r(3) by (simp add: db_view_def)
    then show ?thesis
      using r(1,2) s(5) s'(5) same env
      by (simp add: serve_banner_def banner_dbs_view [OF r(3)] db_list_view [OF r(3)])
  qed
qed

text \<open>
  The file tools of a running server see nothing outside its jail. For the roots it was given, or the
  working directory alone if it was given none, two machines on which paths resolve the same way as far as it
  shows, and whose file systems agree on what is at and below the resolved roots, give the same answer to every
  \<open>read\<close>, \<open>tail\<close>, \<open>list\<close>, \<open>grep\<close> and \<open>stat\<close>, whatever the request.
\<close>

lemma file_tools_confined:
  assumes "os_ok (sw_os W)" "serve_up W args = Inr s" "same_paths (env_jail (ss_env s)) (sw_os W) os'"
    and "same_inside (env_jail (ss_env s)) F G"
  shows "read_remote unr (sw_os W) (fw_open F) (ss_env s) raw = read_remote unr os' (fw_open G) (ss_env s) raw \<and>
    tail_remote unt (sw_os W) (fw_open F) ctx (ss_env s) raw = tail_remote unt os' (fw_open G) ctx (ss_env s) raw \<and>
    list_remote unl (sw_os W) (fw_dir F) ctx (ss_env s) raw = list_remote unl os' (fw_dir G) ctx (ss_env s) raw \<and>
    grep_remote ung compile (sw_os W) (fw_walk F) (fw_open F) ctx (ss_env s) raw =
      grep_remote ung compile os' (fw_walk G) (fw_open G) ctx (ss_env s) raw \<and>
    stat_remote uns (sw_os W) (fw_stat F) (ss_env s) raw = stat_remote uns os' (fw_stat G) (ss_env s) raw"
proof -
  let ?j = "env_jail (ss_env s)"
  from assms(2) have "serve_roots W args = Inr ?j" by (rule serve_upE) simp
  then have "jail_ok ?j" using new_jail_ok [OF assms(1)] by (auto simp: serve_roots_def res_simps)
  then have rp: "inside ?j r" if "resolve_path (sw_os W) ?j p = Inr r" for p r
    using resolve_path_inside [OF assms(1) _ that] by blast
  have rf: "inside ?j r" if "resolve_file (sw_os W) ?j p = Inr r" for p r
    using rp that by (auto simp: resolve_file_def res_simps split: if_splits)
  note path = same_paths_resolve [OF assms(1,3)] and plain_file = same_paths_file [OF assms(1,3)]
  have mode: "os_stat (sw_os W) r = os_stat os' r" if "resolve_path os' ?j p = Inr r" for p r
    using that assms(3) by (auto simp: same_paths_def resolve_path_def res_simps split: if_splits prod.splits)
  note same = assms(4) [unfolded same_inside_def, rule_format]
  show ?thesis
  proof (intro conjI)
    show "read_remote unr (sw_os W) (fw_open F) (ss_env s) raw = read_remote unr os' (fw_open G) (ss_env s) raw"
      unfolding read_paths [OF plain_file, symmetric] by (rule read_confined) (use same rf in blast)
    show "tail_remote unt (sw_os W) (fw_open F) ctx (ss_env s) raw = tail_remote unt os' (fw_open G) ctx (ss_env s) raw"
      unfolding tail_paths [OF plain_file, symmetric] by (rule tail_confined) (use same rf in blast)
    show "stat_remote uns (sw_os W) (fw_stat F) (ss_env s) raw = stat_remote uns os' (fw_stat G) (ss_env s) raw"
      unfolding stat_paths [OF path, symmetric] by (rule stat_confined) (use same rp in blast)
    show "list_remote unl (sw_os W) (fw_dir F) ctx (ss_env s) raw = list_remote unl os' (fw_dir G) ctx (ss_env s) raw"
      by (rule trans [OF list_confined list_paths]) (use same rp path mode in blast)+
    show "grep_remote ung compile (sw_os W) (fw_walk F) (fw_open F) ctx (ss_env s) raw =
        grep_remote ung compile os' (fw_walk G) (fw_open G) ctx (ss_env s) raw"
      by (rule trans [OF grep_confined grep_paths]) (use same rp path mode in blast)+
  qed
qed

section \<open>Witnesses\<close>

definition demo_drivers :: "(unit, string) drivers" where
  "demo_drivers = sample_drivers\<lparr>dr_url_parse :=
     (\<lambda>_. Inr \<lparr>u_host = ''h'', u_user = [], u_password = None, u_path = [], u_query = []\<rparr>)\<rparr>"

definition demo_crypto :: "unit crypto" where
  "demo_crypto = \<lparr>generate_key = Inr \<lparr>key_public = (3, 5), key_private = 7\<rparr>, rand_below = (\<lambda>m. Inr (m - 1)), clock = 0,
     create_certificate = (\<lambda>_ _ _ _. Inr ''der'')\<rparr>"

lemma demo_tls: "server_tls_config demo_crypto =
    Inr \<lparr>tc_certificates = [([''der''], \<lparr>key_public = (3, 5), key_private = 7\<rparr>)], tc_skip_verify = False,
      tc_min_version = version_tls12\<rparr>"
  by (simp add: server_tls_config_def demo_crypto_def)

definition demo_serve :: "(unit, string) serve_world" where
  "demo_serve = \<lparr>sw_getenv = (\<lambda>_. []), sw_environ = [], sw_lower = to_lower, sw_os = sample_os,
     sw_rand = Inr (replicate 16 171), sw_drivers = demo_drivers,
     sw_order = (\<lambda>m. case m ''app'' of None \<Rightarrow> [] | Some d \<Rightarrow> [(''app'', d)]),
     sw_crypto = demo_crypto, sw_listen = (\<lambda>_ _. None), sw_journalctl = [], sw_version = ''dev'',
     sw_ttl_text = (\<lambda>_. ([], [])), sw_remote_names = [], sw_log_line = (\<lambda>m. m @ [newline]),
     sw_serve = (\<lambda>_ _ _ _. ([], None))\<rparr>"

definition demo_args :: "(string \<rightharpoonup> string) \<Rightarrow> serve_args" where
  "demo_args dbs = \<lparr>sa_host = [], sa_token = [], sa_ttl = 0, sa_max_output = 100, sa_timeout = 0,
     sa_roots = [''data''], sa_dbs = dbs\<rparr>"

definition demo_setup :: "string db_registry option \<Rightarrow> string serve_setup" where
  "demo_setup db = \<lparr>ss_addr = ''0.0.0.0:7017'', ss_token = hex_encode (replicate 16 171),
     ss_env = \<lparr>env_jail = sample_jail, env_limits = \<lparr>max_output = 100, timeout = 0\<rparr>, env_journalctl = []\<rparr>,
     ss_db = db\<rparr>"

text \<open>The databases of the environment take part in nothing but the specs.\<close>

lemma demo_up_env:
  "serve_databases (demo_serve\<lparr>sw_environ := environ\<rparr>) (demo_args dbs) = Inr db \<Longrightarrow>
     serve_up (demo_serve\<lparr>sw_environ := environ\<rparr>) (demo_args dbs) = Inr (demo_setup db)"
proof -
  let ?W = "demo_serve\<lparr>sw_environ := environ\<rparr>"
  have a: "normalize_addr ''0.0.0.0'' = Inr ''0.0.0.0:7017''" by code_simp
  have r: "serve_roots ?W (demo_args dbs) = Inr sample_jail"
    by (simp add: serve_roots_def demo_args_def demo_serve_def sample_jail_new)
  have k: "serve_token ?W (demo_args dbs) = Inr (hex_encode (replicate 16 171))"
    by (simp add: serve_token_def demo_args_def demo_serve_def resolve_setting_def generate_token_def)
  have h: "resolve_setting (sw_getenv demo_serve) (sa_host (demo_args dbs)) ''RPEEK_HOST'' ''0.0.0.0'' = ''0.0.0.0''"
    by (simp add: demo_serve_def demo_args_def resolve_setting_def)
  have w: "sw_crypto demo_serve = demo_crypto" "sw_listen demo_serve = (\<lambda>_ _. None)" "sw_journalctl demo_serve = []"
    by (simp_all add: demo_serve_def)
  assume "serve_databases ?W (demo_args dbs) = Inr db"
  then show ?thesis
    by (simp add: serve_up_def Let_def h a r k w demo_setup_def demo_tls) (simp add: demo_args_def)
qed

lemma demo_up:
  "serve_databases demo_serve (demo_args dbs) = Inr db \<Longrightarrow> serve_up demo_serve (demo_args dbs) = Inr (demo_setup db)"
  using demo_up_env [of "[]" dbs db] by (simp add: demo_serve_def)

lemma demo_no_dbs: "serve_databases demo_serve (demo_args Map.empty) = Inr None"
  by (simp add: serve_databases_def serve_specs_def demo_serve_def demo_args_def merged_specs_def db_specs_def)

definition anonymous_server :: server where
  "anonymous_server = \<lparr>sv_run = (\<lambda>_ _. Returns [] False None), sv_token = hex_encode (replicate 16 171),
     sv_marshal = (\<lambda>_. None), sv_unmarshal = (\<lambda>_. Some \<lparr>rq_token = [], rq_tool = ''ps'', rq_args = []\<rparr>)\<rparr>"

theorem served_token_nonempty_witness:
  "ss_token (demo_setup None) \<noteq> [] \<and> Ran ''ps'' [] \<notin> set (handle_conn anonymous_server ''c'' ''1ms'' (''q'' @ [newline]))"
proof -
  have "scan_lines max_request_line (''q'' @ [newline]) = ([''q''], False)"
    by (rule scan_one_line) (simp add: one_line_def max_request_line_def)
  then have r: "request_of anonymous_server (''q'' @ [newline]) = Some \<lparr>rq_token = [], rq_tool = ''ps'', rq_args = []\<rparr>"
    by (simp add: request_of_def anonymous_server_def)
  have b: "\<forall>bs. sw_rand demo_serve = Inr bs \<longrightarrow> length bs = 16" by (simp add: demo_serve_def)
  show ?thesis
    using served_token_nonempty [OF demo_up [OF demo_no_dbs] b, of anonymous_server "''q'' @ [newline]"
      "\<lparr>rq_token = [], rq_tool = ''ps'', rq_args = []\<rparr>" "''ps''" "[]" "''c''" "''1ms''"] r
    by (simp add: anonymous_server_def [THEN arg_cong [of _ _ sv_token]] demo_setup_def)
qed

definition demo_dsn :: "string \<Rightarrow> string" where
  "demo_dsn cred = ''postgres://'' @ cred @ ''@h/d''"

lemma demo_opens:
  "open_conn demo_drivers (demo_dsn cred) = Inr \<lparr>c_db = demo_dsn cred, c_engine = EnginePostgres, c_host = ''h''\<rparr>"
  by (simp add: open_conn_def resolve_dsn_def demo_dsn_def demo_drivers_def sample_drivers_def url_host_def has_prefix_def)

lemma demo_dbs: "\<exists>reg. serve_databases demo_serve (demo_args [''app'' \<mapsto> demo_dsn cred]) = Inr (Some reg)"
proof -
  have "alias_ok ''app''" by code_simp
  then show ?thesis
    by (simp add: serve_databases_def serve_specs_def demo_serve_def demo_args_def merged_specs_def db_specs_def
        db_new_def demo_opens)
qed

definition demo_environ :: "string list" where
  "demo_environ = [''RPEEK_DB_APP='' @ demo_dsn ''v:other'']"

theorem credentials_redacted_witness:
  "\<exists>reg reg'. serve_databases demo_serve (demo_args [''app'' \<mapsto> demo_dsn ''u:secret'']) = Inr (Some reg) \<and>
     serve_databases (demo_serve\<lparr>sw_environ := demo_environ\<rparr>) (demo_args Map.empty) = Inr (Some reg') \<and>
     serve_banner demo_serve 0 (demo_setup (Some reg)) = serve_banner demo_serve 0 (demo_setup (Some reg'))"
proof -
  have specs: "serve_specs demo_serve (demo_args m) = m" for m
    by (simp add: serve_specs_def merged_specs_def db_specs_def demo_serve_def demo_args_def)
  have "db_specs to_lower demo_environ = [''app'' \<mapsto> demo_dsn ''v:other'']"
  proof -
    have "db_spec to_lower (''RPEEK_DB_APP='' @ demo_dsn ''v:other'') = Some (''app'', demo_dsn ''v:other'')"
      unfolding demo_dsn_def by code_simp
    then show ?thesis by (simp add: db_specs_def demo_environ_def)
  qed
  then have specs': "serve_specs (demo_serve\<lparr>sw_environ := demo_environ\<rparr>) (demo_args Map.empty) = [''app'' \<mapsto> demo_dsn ''v:other'']"
    by (simp add: serve_specs_def merged_specs_def demo_args_def) (simp add: demo_serve_def)
  obtain reg reg' where r: "serve_databases demo_serve (demo_args [''app'' \<mapsto> demo_dsn ''u:secret'']) = Inr (Some reg)"
    "serve_databases demo_serve (demo_args [''app'' \<mapsto> demo_dsn ''v:other'']) = Inr (Some reg')"
    using demo_dbs by blast
  have r': "serve_databases (demo_serve\<lparr>sw_environ := demo_environ\<rparr>) (demo_args Map.empty) = Inr (Some reg')"
  proof -
    have d: "sw_drivers (demo_serve\<lparr>sw_environ := demo_environ\<rparr>) = sw_drivers demo_serve" by simp
    show ?thesis using r(2) unfolding serve_databases_def specs specs' d by simp
  qed
  have u: "(demo_args m)\<lparr>sa_dbs := m'\<rparr> = demo_args m'" for m m' by (simp add: demo_args_def)
  have o': "map_of (sw_order demo_serve [''app'' \<mapsto> d]) = [''app'' \<mapsto> d] \<and>
      distinct (map fst (sw_order demo_serve [''app'' \<mapsto> d]))" for d
    by (simp add: demo_serve_def)
  have "same_target (sw_drivers demo_serve) (demo_dsn ''u:secret'') (demo_dsn ''v:other'')"
    unfolding same_target_def demo_serve_def demo_drivers_def demo_dsn_def
    by (intro disjI2 disjI1 exI [of _ "''postgres://''"]) (simp add: has_prefix_def)
  then have rel: "\<forall>a. rel_option (same_target (sw_drivers demo_serve)) (serve_specs demo_serve (demo_args [''app'' \<mapsto> demo_dsn ''u:secret'']) a)
      (serve_specs (demo_serve\<lparr>sw_environ := demo_environ\<rparr>) ((demo_args [''app'' \<mapsto> demo_dsn ''u:secret''])\<lparr>sa_dbs := Map.empty\<rparr>) a)"
    by (simp add: specs u specs')
  have "serve_banner demo_serve 0 (demo_setup (Some reg)) =
      serve_banner (demo_serve\<lparr>sw_environ := demo_environ\<rparr>) 0 (demo_setup (Some reg')) \<and>
      db_list_remote (\<lambda>_. Inl ()) (ss_env (demo_setup (Some reg))) (ss_db (demo_setup (Some reg))) [] =
      db_list_remote (\<lambda>_. Inl ()) (ss_env (demo_setup (Some reg'))) (ss_db (demo_setup (Some reg'))) []"
    by (rule credentials_redacted [OF demo_up [OF r(1)] _ _ rel])
      (use o' demo_up_env [OF r'] in \<open>simp_all add: u specs specs'\<close>)
  then show ?thesis using r(1) r' by (auto simp: serve_banner_def)
qed

text \<open>Two worlds that differ in the file a link out of the jail leads to.\<close>

definition demo_files :: "string \<Rightarrow> unit file_world" where
  "demo_files secret =
     \<lparr>fw_open = (\<lambda>p. if p = ''/etc/passwd'' then Inr \<lparr>f_size = None, f_seek = (\<lambda>_. None), f_data = secret, f_end = None\<rparr>
        else Inl NotExist),
      fw_dir = \<lparr>open_dir = (\<lambda>_. Some NotExist), full_batches = (\<lambda>_. []), last_batch = (\<lambda>_. ([], None)),
        lstat_info = (\<lambda>_. None)\<rparr>,
      fw_stat = (\<lambda>_. Inl NotExist), fw_walk = (\<lambda>_. [])\<rparr>"

text \<open>A system that differs from the sample in a directory outside the jail, and a file in it.\<close>

definition other_os :: "unit os" where
  "other_os = sample_os\<lparr>os_eval_symlinks :=
     (\<lambda>p. if p \<in> {''/root'', ''/root/key''} then Inr p else os_eval_symlinks sample_os p)\<rparr>"

lemma demo_same_paths: "same_paths (env_jail (ss_env (demo_setup db))) sample_os other_os"
proof -
  have root: "render_abs [''root''] = ''/root''" by (simp add: render_abs_def)
  have cs: "comps ''/root'' = [''root'']" "comps ''/root/key'' = [''root'', ''key'']"
    "comps ''/srv/data'' = [''srv'', ''data'']" "comps ''/srv/data/out'' = [''srv'', ''data'', ''out'']"
    by code_simp+
  have plain: "unlinked sample_os q \<and> unlinked other_os q" if "q \<noteq> ''/srv/data/out''" for q
    using that by (simp add: unlinked_def sample_os_def other_os_def)
  have "same_paths sample_jail sample_os other_os"
  proof (rule hidden_directory_same_paths [of "[''root'']"], unfold root)
    fix q assume q: "canonical q" "below ''/root'' q"
    then show "\<not> contains sample_jail q"
      unfolding contains_below [OF sample_jail_ok q(1)] by (auto simp: below_def cs sample_jail_def prefix_def)
  next
    fix q assume "\<not> below ''/root'' q"
    then have "q \<noteq> ''/root''" "q \<noteq> ''/root/key''" by (auto simp: below_def cs)
    then show "os_eval_symlinks sample_os q = os_eval_symlinks other_os q" by (simp add: other_os_def)
  next
    fix q assume "below q ''/root'' \<or> below ''/root'' q"
    then have "q \<noteq> ''/srv/data/out''" by (auto simp: below_def cs)
    then show "unlinked sample_os q \<and> unlinked other_os q" by (rule plain)
  qed (simp_all add: normal_comp_def other_os_def)
  then show ?thesis by (simp add: demo_setup_def)
qed

lemma file_tools_confined_witness:
  "read_remote (\<lambda>_. Inl ()) sample_os (fw_open (demo_files ''root'')) (ss_env (demo_setup None)) [] =
   read_remote (\<lambda>_. Inl ()) other_os (fw_open (demo_files ''other'')) (ss_env (demo_setup None)) []"
proof -
  have w: "sw_os demo_serve = sample_os" by (simp add: demo_serve_def)
  have "\<not> below ''/srv/data'' ''/etc/passwd''" by code_simp
  then have "same_inside (env_jail (ss_env (demo_setup None))) (demo_files ''root'') (demo_files ''other'')"
    by (auto simp: same_inside_def demo_files_def demo_setup_def inside_def sample_jail_def)
  then show ?thesis
    using file_tools_confined [OF _ demo_up [OF demo_no_dbs], unfolded w, OF sample_os_ok demo_same_paths] by blast
qed

end
