(* ===== verification/Tool_Set.thy ===== *)
theory Tool_Set
  imports Serve_Setup Tool_Disk Tool_Ps
begin

text \<open>
  The program's own tools, as the \<open>init\<close> function of each \<open>internal/tools/tool_*.go\<close> registers them: name,
  summary, usage line, flags with their help, the builder of the wire arguments, and the halves each
  implements. What they reach outside is split in two. The record \<open>library\<close> is what the standard library
  gives: the JSON codec of each tool's arguments, the texts of errors and durations, \<open>ToLower\<close>, the number
  parser and the regular expressions. The record \<open>host\<close> is the machine the server runs on: its files, its
  \<open>/proc\<close>, its mounts, its journal, its databases. The query builder goqu is the recorder of
  \<open>Sqlq_Translate\<close> over the generator \<open>h_generate\<close>: its calls keep what they are given.
\<close>

section \<open>The parameters\<close>

record ('e, 'a) codec =
  enc :: "'a \<Rightarrow> string + string"
  dec :: "string \<Rightarrow> 'e + 'a"

record 'e library =
  lb_none :: "('e, unit) codec"
  lb_stat :: "('e, string) codec"
  lb_help :: "('e, string) codec"
  lb_list :: "('e, list_args) codec"
  lb_tail :: "('e, tail_args) codec"
  lb_read :: "('e, read_args) codec"
  lb_grep :: "('e, grep_args) codec"
  lb_journal :: "('e, journal_args) codec"
  lb_tables :: "('e, db_args) codec"
  lb_schema :: "('e, db_args) codec"
  lb_sql :: "('e, sql_args) codec"
  lb_serve :: "('e, serve_args) codec"
  lb_usage_text :: "usage_error \<Rightarrow> string"
  lb_dur_text :: "int \<Rightarrow> string"
  lb_quote :: "string \<Rightarrow> string"
  lb_lower :: "string \<Rightarrow> string"
  lb_parse_float :: "string \<Rightarrow> 64 word option"
  lb_compile :: "string \<Rightarrow> 'e + (string \<Rightarrow> bool)"

type_synonym 'e ctx = "nat \<Rightarrow> 'e option"

record ('e, 'd, 't, 'r) host =
  h_os :: "'e os"
  h_files :: "'e file_world"
  h_proc_entries :: "'e os_error + (string \<times> bool) list"
  h_proc :: proc_fs
  h_user :: "string \<Rightarrow> string option"
  h_self :: int
  h_arg0 :: string
  h_mounts :: "'e os_error + string"
  h_statfs :: "string \<Rightarrow> statfs option"
  h_hostname :: "'e os_error + string"
  h_version :: string
  h_child :: "'e ctx \<Rightarrow> string \<Rightarrow> string list \<Rightarrow> 'e child"
  h_begin :: "'d \<Rightarrow> bool \<Rightarrow> 'e + 't"
  h_exec :: "'t \<Rightarrow> int \<Rightarrow> 'e option"
  h_querier :: "'t \<Rightarrow> ('e, 'r) querier"
  h_query :: "'t \<Rightarrow> string \<Rightarrow> go_value list \<Rightarrow> 'e + 'e sql_rows"
  h_generate :: "select_stmt \<Rightarrow> 'e + string \<times> go_value list"

datatype 'e tool_fault =
    ToolFault "'e tool_error"
  | DiskFault "'e disk_error"
  | PsFault "'e ps_error"
  | DbFault "'e db_tool_error"
  | SqlFault "'e sql_error"
  | ServeFault "'e serve_error"

section \<open>The help of the flags\<close>

text \<open>
  \<open>PrintDefaults\<close> of the package \<open>flag\<close>: the flags in the order of their names, each with the type of its
  value, its usage string and its default unless that is the zero value. No usage string of the program
  holds a back quote or a line break, which the package would treat specially.
\<close>

definition tab :: char where
  "tab = CHR 0x09"

fun type_name :: "flag_value \<Rightarrow> string" where
  "type_name (BoolFlag _) = []"
| "type_name (StringFlag _) = ''string''"
| "type_name (IntFlag _) = ''int''"
| "type_name (DurationFlag _) = ''duration''"
| "type_name (ListFlag _) = ''value''"

fun default_text :: "(int \<Rightarrow> string) \<Rightarrow> (string \<Rightarrow> string) \<Rightarrow> flag_value \<Rightarrow> string" where
  "default_text dur quote (BoolFlag b) = (if b then '' (default true)'' else [])"
| "default_text dur quote (StringFlag s) = (if s = [] then [] else '' (default '' @ quote s @ '')'')"
| "default_text dur quote (IntFlag i) = (if i = 0 then [] else '' (default '' @ itoa i @ '')'')"
| "default_text dur quote (DurationFlag d) = (if d = 0 then [] else '' (default '' @ dur d @ '')'')"
| "default_text dur quote (ListFlag vs) = (if vs = [] then [] else '' (default '' @ join_with '','' vs @ '')'')"

definition flag_line ::
  "(int \<Rightarrow> string) \<Rightarrow> (string \<Rightarrow> string) \<Rightarrow> string \<Rightarrow> flag_value \<Rightarrow> string \<Rightarrow> string" where
  "flag_line dur quote name v usage =
     (let head = ''  -'' @ name @ (if type_name v = [] then [] else '' '' @ type_name v);
          gap = (if length head \<le> 4 then [tab] else [newline] @ ''    '' @ [tab])
      in head @ gap @ usage @ default_text dur quote v @ [newline])"

definition print_defaults ::
  "(int \<Rightarrow> string) \<Rightarrow> (string \<Rightarrow> string) \<Rightarrow> flag_set \<Rightarrow> (string \<times> string) list \<Rightarrow> string" where
  "print_defaults dur quote fs usages =
     concat (map (\<lambda>(n, u). case fs n of None \<Rightarrow> [] | Some v \<Rightarrow> flag_line dur quote n v u) (sort_key fst usages))"

text \<open>The usage strings the tools give their flags.\<close>

definition list_usages :: "(string \<times> string) list" where
  "list_usages = [(''all'', ''include dotfiles'')]"

definition tail_usages :: "(string \<times> string) list" where
  "tail_usages = [(''lines'', ''number of trailing lines (default 100, cap 10000)'')]"

definition read_usages :: "(string \<times> string) list" where
  "read_usages = [(''max-bytes'', ''maximum bytes to read (default 65536, hard cap 1 MiB)''),
     (''offset'', ''byte offset to start reading at'')]"

definition grep_usages :: "(string \<times> string) list" where
  "grep_usages = [(''pattern'', ''RE2 (Go regexp) pattern to search for; required''),
     (''ignore-case'', ''case-insensitive match''), (''max-matches'', ''maximum matching lines (default 1000)'')]"

definition journal_usages :: "(string \<times> string) list" where
  "journal_usages = [(''unit'', ''systemd unit to filter by (validated allowlist)''),
     (''lines'', ''number of trailing lines (default 100, cap 10000)'')]"

definition introspect_usages :: "(string \<times> string) list" where
  "introspect_usages = [(''db'', ''database alias to introspect (required)'')]"

definition sql_usages :: "(string \<times> string) list" where
  "sql_usages = [(''db'', ''database alias to query (required)'')]"

definition serve_usages :: "(string \<times> string) list" where
  "serve_usages =
     [(''host'', ''bind address host or host:port (or RPEEK_HOST); default 0.0.0.0''),
      (''token'', ''fixed auth token (or RPEEK_TOKEN); generated if empty''),
      (''ttl'', ''auto-shutdown after this duration; 0 disables''),
      (''max-output'', ''global output byte cap applied by tools''),
      (''timeout'', ''per-tool wall-clock timeout''),
      (''db'', ''database as alias=dsn (repeatable; DSN also via RPEEK_DB_<ALIAS>)'')]"

text \<open>The reference of the query language, which \<open>help sql\<close> prints.\<close>

definition sql_help :: string where
  "sql_help =
     join_with [newline]
       [''The query is written in rpeek's own restricted, SELECT-only grammar '' @ em_dash @ '' it looks like'',
        ''SQL but is not SQL. There is no write, no subquery, no comment, no statement'',
        ''stacking, and no function beyond the five aggregates, so a write is a syntax error'',
        ''rather than a denied operation. Run db-list, db-tables, and db-schema first to'',
        ''discover what you may query.'',
        [],
        ''Grammar:'',
        ''  SELECT * | select_item {, select_item}'',
        ''  FROM table [alias] {join}'',
        ''  [WHERE condition]'',
        ''  [GROUP BY column {, column}]'',
        ''  [ORDER BY column [ASC|DESC] {, ...}]'',
        ''  [LIMIT n [OFFSET n]]'',
        [],
        ''  select_item : column | AGG( * | column ) [AS alias]'',
        ''  AGG         : COUNT | SUM | AVG | MIN | MAX'',
        ''  join        : [INNER | LEFT [OUTER] | RIGHT [OUTER]] JOIN table [alias] ON condition'',
        ''  condition   : predicate, combined with AND / OR / NOT and parentheses'',
        ''  predicate   : column OP (value | column)'',
        ''              | column IN (value {, value})'',
        ''              | column LIKE 'pattern'' @ [CHR 0x27],
        ''              | column IS [NOT] NULL'',
        ''              | column BETWEEN value AND value'',
        ''  OP          : = | != | <> | < | <= | > | >='',
        ''  column      : name | table.name          (identifiers, resolved against the schema)'',
        ''  value       : 'string' | number | TRUE | FALSE | NULL   (always bound as a parameter)'',
        [],
        ''Examples:'',
        ''  sql --db app \"SELECT status, COUNT(*) AS n FROM orders GROUP BY status ORDER BY n DESC\"'',
        ''  sql --db app \"SELECT u.name, o.amount FROM users u JOIN orders o ON o.uid = u.id WHERE o.state = 'failed'\"'',
        [],
        ''A missing LIMIT applies a server default; results are capped and may be truncated.'']"

section \<open>The tools\<close>

definition flag_help :: "'e library \<Rightarrow> flag_set \<Rightarrow> (string \<times> string) list \<Rightarrow> string" where
  "flag_help L fs usages = print_defaults (lb_dur_text L) (lb_quote L) fs usages"

definition wire_build ::
  "'e library \<Rightarrow> ('e, 'a) codec \<Rightarrow> (flag_set \<Rightarrow> string list \<Rightarrow> usage_error + 'a) \<Rightarrow>
   flag_set \<Rightarrow> string list \<Rightarrow> build_fault + string" where
  "wire_build L c build fs pos = json_build (lb_usage_text L) (enc c) build fs pos"

definition db_list_tool ::
  "'e library \<Rightarrow> 'd db_registry option \<Rightarrow> ('e ctx, 'e tool_fault) tool" where
  "db_list_tool L db =
     \<lparr>t_name = ''db-list'',
      t_summary = ''list the databases configured for querying'',
      t_usage = ''db-list'',
      t_remote = Some (\<lambda>ctx env raw.
         lift_err DbFault (db_list_remote (dec (lb_none L)) env db raw)),
      t_local = None,
      t_serves = False,
      t_flags = Map.empty, t_flag_help = [],
      t_build = wire_build L (lb_none L) db_list_build,
      t_detail = None\<rparr>"

definition db_schema_tool ::
  "'e library \<Rightarrow> ('e, 'd, 't, 'r) host \<Rightarrow> 'd db_registry option \<Rightarrow> ('e ctx, 'e tool_fault) tool" where
  "db_schema_tool L H db =
     \<lparr>t_name = ''db-schema'',
      t_summary = ''describe a table's columns in a configured database'',
      t_usage = ''db-schema --db ALIAS <table>'',
      t_remote = Some (\<lambda>ctx env raw.
         lift_err DbFault (db_schema_remote (dec (lb_schema L)) (go_lower (lb_lower L)) (h_begin H) (h_exec
         H) (h_querier H) env db raw)),
      t_local = None,
      t_serves = False,
      t_flags = db_flags, t_flag_help = flag_help L db_flags introspect_usages,
      t_build = wire_build L (lb_schema L) db_schema_build,
      t_detail = None\<rparr>"

definition db_tables_tool ::
  "'e library \<Rightarrow> ('e, 'd, 't, 'r) host \<Rightarrow> 'd db_registry option \<Rightarrow> ('e ctx, 'e tool_fault) tool" where
  "db_tables_tool L H db =
     \<lparr>t_name = ''db-tables'',
      t_summary = ''list the tables in a configured database'',
      t_usage = ''db-tables --db ALIAS'',
      t_remote = Some (\<lambda>ctx env raw.
         lift_err DbFault (db_tables_remote (dec (lb_tables L)) (go_lower (lb_lower L)) (h_begin H) (h_exec
         H) (h_querier H) env db raw)),
      t_local = None,
      t_serves = False,
      t_flags = db_flags, t_flag_help = flag_help L db_flags introspect_usages,
      t_build = wire_build L (lb_tables L) db_tables_build,
      t_detail = None\<rparr>"

definition disk_tool ::
  "'e library \<Rightarrow> ('e, 'd, 't, 'r) host \<Rightarrow> ('e ctx, 'e tool_fault) tool" where
  "disk_tool L H =
     \<lparr>t_name = ''disk'',
      t_summary = ''filesystem usage (df style)'',
      t_usage = ''disk'',
      t_remote = Some (\<lambda>ctx env raw.
         lift_err DiskFault (disk_remote (dec (lb_none L)) (h_mounts H) (h_statfs H) ctx env raw)),
      t_local = None,
      t_serves = False,
      t_flags = Map.empty, t_flag_help = [],
      t_build = wire_build L (lb_none L) disk_build,
      t_detail = None\<rparr>"

definition grep_tool ::
  "'e library \<Rightarrow> ('e, 'd, 't, 'r) host \<Rightarrow> ('e ctx, 'e tool_fault) tool" where
  "grep_tool L H =
     \<lparr>t_name = ''grep'',
      t_summary = ''search a file or directory tree for an RE2 pattern (grep -n style)'',
      t_usage = ''grep <path> --pattern RE [--ignore-case] [--max-matches N]'',
      t_remote = Some (\<lambda>ctx env raw.
         lift_err ToolFault (grep_remote (dec (lb_grep L)) (lb_compile L) (h_os H) (fw_walk (h_files H))
         (fw_open (h_files H)) ctx env raw)),
      t_local = None,
      t_serves = False,
      t_flags = grep_flags, t_flag_help = flag_help L grep_flags grep_usages,
      t_build = wire_build L (lb_grep L) grep_build,
      t_detail = None\<rparr>"

definition help_tool ::
  "'e library \<Rightarrow> ('c, 'f) registry \<Rightarrow> ('e ctx, 'e tool_fault) tool" where
  "help_tool L reg =
     \<lparr>t_name = ''help'',
      t_summary = ''show this help; 'help <tool>' for one tool's arguments'',
      t_usage = ''help [tool]'',
      t_remote = None,
      t_local = Some (\<lambda>ctx env raw. lift_err ToolFault (help_local (dec (lb_help L)) reg raw)),
      t_serves = False,
      t_flags = Map.empty, t_flag_help = [],
      t_build = wire_build L (lb_help L) help_build,
      t_detail = None\<rparr>"

definition hostname_tool ::
  "'e library \<Rightarrow> ('e, 'd, 't, 'r) host \<Rightarrow> ('e ctx, 'e tool_fault) tool" where
  "hostname_tool L H =
     \<lparr>t_name = ''hostname'',
      t_summary = ''server hostname; a cheap connectivity and auth check'',
      t_usage = ''hostname'',
      t_remote = Some (\<lambda>ctx env raw.
         lift_err ToolFault (hostname_remote (dec (lb_none L)) (h_hostname H) env raw)),
      t_local = None,
      t_serves = False,
      t_flags = Map.empty, t_flag_help = [],
      t_build = wire_build L (lb_none L) hostname_build,
      t_detail = None\<rparr>"

definition journal_tool ::
  "'e library \<Rightarrow> ('e, 'd, 't, 'r) host \<Rightarrow> ('e ctx, 'e tool_fault) tool" where
  "journal_tool L H =
     \<lparr>t_name = ''journal'',
      t_summary = ''recent systemd journal lines, optionally for one unit'',
      t_usage = ''journal [--unit NAME] [--lines N]'',
      t_remote = Some (\<lambda>ctx env raw.
         lift_err ToolFault (journal_remote (dec (lb_journal L)) (h_child H ctx) (ctx 0) env raw)),
      t_local = None,
      t_serves = False,
      t_flags = journal_flags, t_flag_help = flag_help L journal_flags journal_usages,
      t_build = wire_build L (lb_journal L) journal_build,
      t_detail = None\<rparr>"

definition list_tool ::
  "'e library \<Rightarrow> ('e, 'd, 't, 'r) host \<Rightarrow> ('e ctx, 'e tool_fault) tool" where
  "list_tool L H =
     \<lparr>t_name = ''list'',
      t_summary = ''list a directory (ls -l style); skips dotfiles unless --all'',
      t_usage = ''list <path> [--all]'',
      t_remote = Some (\<lambda>ctx env raw.
         lift_err ToolFault (list_remote (dec (lb_list L)) (h_os H) (fw_dir (h_files H)) ctx env raw)),
      t_local = None,
      t_serves = False,
      t_flags = list_flags, t_flag_help = flag_help L list_flags list_usages,
      t_build = wire_build L (lb_list L) list_build,
      t_detail = None\<rparr>"

definition ps_tool ::
  "'e library \<Rightarrow> ('e, 'd, 't, 'r) host \<Rightarrow> ('e ctx, 'e tool_fault) tool" where
  "ps_tool L H =
     \<lparr>t_name = ''ps'',
      t_summary = ''process snapshot from /proc (PID PPID USER RSS CMD)'',
      t_usage = ''ps'',
      t_remote = Some (\<lambda>ctx env raw.
         lift_err PsFault (ps_remote (dec (lb_none L)) (h_proc_entries H) (h_proc H) (h_user H) (h_self H)
         (h_arg0 H) ctx env raw)),
      t_local = None,
      t_serves = False,
      t_flags = Map.empty, t_flag_help = [],
      t_build = wire_build L (lb_none L) ps_build,
      t_detail = None\<rparr>"

definition read_tool ::
  "'e library \<Rightarrow> ('e, 'd, 't, 'r) host \<Rightarrow> ('e ctx, 'e tool_fault) tool" where
  "read_tool L H =
     \<lparr>t_name = ''read'',
      t_summary = ''read a regular file, byte-capped, with optional paging'',
      t_usage = ''read <path> [--max-bytes N] [--offset N]'',
      t_remote = Some (\<lambda>ctx env raw.
         lift_err ToolFault (read_remote (dec (lb_read L)) (h_os H) (fw_open (h_files H)) env raw)),
      t_local = None,
      t_serves = False,
      t_flags = read_flags, t_flag_help = flag_help L read_flags read_usages,
      t_build = wire_build L (lb_read L) read_build,
      t_detail = None\<rparr>"

definition serve_tool ::
  "'e library \<Rightarrow> ('e ctx, 'e tool_fault) tool" where
  "serve_tool L =
     \<lparr>t_name = ''serve'',
      t_summary = ''run the read-only diagnostic server'',
      t_usage = ''serve [flags] [roots...]'',
      t_remote = None,
      t_local = None,
      t_serves = True,
      t_flags = serve_flags, t_flag_help = flag_help L serve_flags serve_usages,
      t_build = wire_build L (lb_serve L) (serve_build (lb_lower L)),
      t_detail = None\<rparr>"

definition sql_tool ::
  "'e library \<Rightarrow> ('e, 'd, 't, 'r) host \<Rightarrow> 'd db_registry option \<Rightarrow> ('e ctx, 'e tool_fault) tool" where
  "sql_tool L H db =
     \<lparr>t_name = ''sql'',
      t_summary = ''run a read-only query against a configured database'',
      t_usage = ''sql --db ALIAS \"SELECT ... FROM ... [WHERE ...]\"'',
      t_remote = Some (\<lambda>ctx env raw.
         lift_err SqlFault (sql_remote (dec (lb_sql L)) (lb_lower L) (lb_parse_float L) (recorder
         (h_generate H)) (h_begin H) (h_exec H) (h_querier H) (h_query H) env db raw)),
      t_local = None,
      t_serves = False,
      t_flags = db_flags, t_flag_help = flag_help L db_flags sql_usages,
      t_build = wire_build L (lb_sql L) sql_build,
      t_detail = Some sql_help\<rparr>"

definition stat_tool ::
  "'e library \<Rightarrow> ('e, 'd, 't, 'r) host \<Rightarrow> ('e ctx, 'e tool_fault) tool" where
  "stat_tool L H =
     \<lparr>t_name = ''stat'',
      t_summary = ''show path metadata (name, size, mode, modtime, uid, gid)'',
      t_usage = ''stat <path>'',
      t_remote = Some (\<lambda>ctx env raw.
         lift_err ToolFault (stat_remote (dec (lb_stat L)) (h_os H) (fw_stat (h_files H)) env raw)),
      t_local = None,
      t_serves = False,
      t_flags = Map.empty, t_flag_help = [],
      t_build = wire_build L (lb_stat L) stat_build,
      t_detail = None\<rparr>"

definition tail_tool ::
  "'e library \<Rightarrow> ('e, 'd, 't, 'r) host \<Rightarrow> ('e ctx, 'e tool_fault) tool" where
  "tail_tool L H =
     \<lparr>t_name = ''tail'',
      t_summary = ''show the last N lines of a file'',
      t_usage = ''tail <path> [--lines N]'',
      t_remote = Some (\<lambda>ctx env raw.
         lift_err ToolFault (tail_remote (dec (lb_tail L)) (h_os H) (fw_open (h_files H)) ctx env raw)),
      t_local = None,
      t_serves = False,
      t_flags = tail_flags, t_flag_help = flag_help L tail_flags tail_usages,
      t_build = wire_build L (lb_tail L) tail_build,
      t_detail = None\<rparr>"

definition version_tool ::
  "'e library \<Rightarrow> ('e, 'd, 't, 'r) host \<Rightarrow> ('e ctx, 'e tool_fault) tool" where
  "version_tool L H =
     \<lparr>t_name = ''version'',
      t_summary = ''rpeek build version; local, plus the server's when connected'',
      t_usage = ''version'',
      t_remote = Some (\<lambda>ctx env raw.
         lift_err ToolFault (version_remote (dec (lb_none L)) (h_version H) env raw)),
      t_local = Some (\<lambda>ctx env raw. lift_err ToolFault (version_local (dec (lb_none L)) (h_version H) env raw)),
      t_serves = False,
      t_flags = Map.empty, t_flag_help = [],
      t_build = wire_build L (lb_none L) version_build,
      t_detail = None\<rparr>"

text \<open>
  The \<open>init\<close> functions of the package run in the order of its files' names. The tool \<open>help\<close> reads the registry
  it is part of, which is the argument \<open>reg\<close>.
\<close>

definition rpeek_tools ::
  "'e library \<Rightarrow> ('e, 'd, 't, 'r) host \<Rightarrow> 'd db_registry option \<Rightarrow> ('c, 'f) registry \<Rightarrow>
   ('e ctx, 'e tool_fault) tool list" where
  "rpeek_tools L H db reg =
     [db_list_tool L db, db_schema_tool L H db, db_tables_tool L H db, disk_tool L H, grep_tool L H,
      help_tool L reg, hostname_tool L H, journal_tool L H, list_tool L H, ps_tool L H, read_tool L H,
      serve_tool L, sql_tool L H db, stat_tool L H, tail_tool L H, version_tool L H]"

section \<open>The registry\<close>

definition rpeek_registry ::
  "'e library \<Rightarrow> ('e, 'd, 't, 'r) host \<Rightarrow> 'd db_registry option \<Rightarrow> ('c, 'f) registry \<Rightarrow>
   ('e ctx, 'e tool_fault) registry" where
  "rpeek_registry L H db reg =
     (let ts = rpeek_tools L H db reg in \<lparr>registered = ts, by_name = map_of (map (\<lambda>t. (t_name t, t)) ts)\<rparr>)"

lemmas tool_defs = db_list_tool_def db_schema_tool_def db_tables_tool_def disk_tool_def grep_tool_def help_tool_def
  hostname_tool_def journal_tool_def list_tool_def ps_tool_def read_tool_def serve_tool_def sql_tool_def stat_tool_def
  tail_tool_def version_tool_def

definition rpeek_names :: "string list" where
  "rpeek_names = [''db-list'', ''db-schema'', ''db-tables'', ''disk'', ''grep'', ''help'', ''hostname'', ''journal'',
     ''list'', ''ps'', ''read'', ''serve'', ''sql'', ''stat'', ''tail'', ''version'']"

lemma rpeek_tools_names: "map t_name (rpeek_tools L H db reg) = rpeek_names"
  by (simp add: rpeek_tools_def tool_defs rpeek_names_def)

lemma rpeek_names_sorted: "sorted rpeek_names" "distinct rpeek_names" "list_all (\<lambda>n. n \<noteq> []) rpeek_names"
  by (code_simp, simp_all add: rpeek_names_def)

lemma rpeek_registers: "register_all empty_registry (rpeek_tools L H db reg) = Inr (rpeek_registry L H db reg)"
proof -
  let ?ts = "rpeek_tools L H db reg"
  have d: "distinct (map t_name ?ts)" and n: "list_all (\<lambda>t. t_name t \<noteq> []) ?ts"
    using rpeek_names_sorted(2,3) by (simp_all flip: rpeek_tools_names [of L H db reg] add: list.pred_map comp_def)
  from register_all_ok [OF registry_ok_empty, of ?ts] d n
  obtain r where r: "register_all empty_registry ?ts = Inr r" "registry_ok (rev ?ts) r"
    by (auto simp: rev_map [symmetric])
  have "registry_ok ?ts (rpeek_registry L H db reg)"
    using rpeek_names_sorted(1) d by (simp add: registry_ok_def rpeek_registry_def rpeek_tools_names Let_def)
  then have "r = rpeek_registry L H db reg" by (rule registry_ok_unique [OF r(2)]) simp
  then show ?thesis using r(1) by simp
qed

text \<open>
  The help texts show the face of a tool only: its name, summary, usage line, flags and details. They do not
  depend on the registry \<open>reg\<close> that \<open>help\<close> itself is given, so giving it the registry it is part of
  is well-defined: \<open>live_registry\<close> is that registry.
\<close>

definition live_registry ::
  "'e library \<Rightarrow> ('e, 'd, 't, 'r) host \<Rightarrow> 'd db_registry option \<Rightarrow> ('e ctx, 'e tool_fault) registry" where
  "live_registry L H db = rpeek_registry L H db (rpeek_registry L H db (empty_registry :: (unit, unit) registry))"

lemma help_faces:
  "help_local un (rpeek_registry L H db reg) raw = help_local un (rpeek_registry L H db reg') raw"
proof -
  have g: "general_help (rpeek_registry L H db reg) = general_help (rpeek_registry L H db reg')"
    by (simp add: general_help_def rpeek_registry_def rpeek_tools_def tool_defs help_line_def)
  have l: "map_option tool_help (lookup_tool (rpeek_registry L H db reg) n) =
      map_option tool_help (lookup_tool (rpeek_registry L H db reg') n)" for n
    by (simp add: lookup_tool_def rpeek_registry_def rpeek_tools_def tool_defs tool_help_def)
  show ?thesis
    unfolding help_local_def
  proof (rule bind_res_cong_Inr)
    show "(if n = [] then Inr \<lparr>out_text = general_help (rpeek_registry L H db reg), truncated = False\<rparr>
        else case lookup_tool (rpeek_registry L H db reg) n of None \<Rightarrow> Inl (UnknownTool n)
          | Some t \<Rightarrow> Inr \<lparr>out_text = tool_help t, truncated = False\<rparr>) =
      (if n = [] then Inr \<lparr>out_text = general_help (rpeek_registry L H db reg'), truncated = False\<rparr>
        else case lookup_tool (rpeek_registry L H db reg') n of None \<Rightarrow> Inl (UnknownTool n)
          | Some t \<Rightarrow> Inr \<lparr>out_text = tool_help t, truncated = False\<rparr>)" for n
      using l [of n] g
      by (cases "lookup_tool (rpeek_registry L H db reg) n"; cases "lookup_tool (rpeek_registry L H db reg') n") simp_all
  qed
qed

lemma rpeek_registry_cong:
  "help_tool L reg = help_tool L reg' \<Longrightarrow> rpeek_registry L H db reg = rpeek_registry L H db reg'"
  by (simp only: rpeek_registry_def rpeek_tools_def)

lemma live_registry_fixed: "rpeek_registry L H db (live_registry L H db) = live_registry L H db"
proof -
  have "help_tool L (live_registry L H db) = help_tool L (rpeek_registry L H db (empty_registry :: (unit, unit) registry))"
    unfolding help_tool_def live_registry_def by (subst help_faces) (rule refl)
  then show ?thesis unfolding live_registry_def by (rule rpeek_registry_cong)
qed

lemma live_registry_registers:
  "register_all empty_registry (rpeek_tools L H db (live_registry L H db)) = Inr (live_registry L H db)"
  by (simp add: rpeek_registers live_registry_fixed)

lemma live_registry_names: "tool_names (live_registry L H db) = rpeek_names"
  by (simp add: tool_names_def live_registry_def rpeek_registry_def [of _ _ _ "rpeek_registry _ _ _ _"] Let_def rpeek_tools_names)

lemma live_registry_remote:
  "remote_names (live_registry L H db) = filter (\<lambda>n. n \<noteq> ''help'' \<and> n \<noteq> ''serve'') rpeek_names"
  by (simp add: remote_names_def live_registry_def rpeek_registry_def [of _ _ _ "rpeek_registry _ _ _ _"] rpeek_tools_def
      tool_defs rpeek_names_def)

section \<open>The command line never panics\<close>

named_theorems quiet \<open>outcomes that are no panic\<close>

lemma quiet_basics [quiet]:
  "status (usage_err m) \<noteq> FlagPanic" "status (fatalf m) \<noteq> FlagPanic" "status (print_output out b) \<noteq> FlagPanic"
  "status (print_help m) \<noteq> FlagPanic" "status res \<noteq> FlagPanic \<Longrightarrow> status (sent call res) \<noteq> FlagPanic"
  by (simp_all add: usage_err_def fatalf_def print_output_def print_help_def sent_def)

lemma quiet_halves [quiet]: "status (run_halves W t raw h k) \<noteq> FlagPanic"
  by (auto simp: run_halves_def run_local_remote_def run_local_only_def run_remote_only_def call_remote_def
      or_outcome_def resolve_host_token_def Let_def quiet split: option.split sum.split prod.split if_split)

lemma quiet_with_args [quiet]:
  "(\<And>fs raw. status (cont fs raw) \<noteq> FlagPanic) \<Longrightarrow> status (with_args W t fs args cont) \<noteq> FlagPanic"
  by (auto simp: with_args_def quiet split: sum.split flag_fault.split build_fault.split prod.split)

lemma quiet_run:
  assumes "\<And>n t. lookup_tool reg n = Some t \<Longrightarrow> \<not> t_serves t \<Longrightarrow> t_flags t ''host'' = None \<and> t_flags t ''token'' = None"
  shows "status (run W reg args) \<noteq> FlagPanic"
proof -
  have "status (run_tool W t rest g k) \<noteq> FlagPanic" if "lookup_tool reg n = Some t" "\<not> t_serves t" for n t rest g k
    using assms [OF that] by (simp add: run_tool_def quiet)
  moreover have "status (run_server W t rest g k) \<noteq> FlagPanic" for t rest g k
    unfolding run_server_def by (rule quiet) (auto simp: fatalf_def split: prod.split option.split)
  ultimately show ?thesis
    by (auto simp: run_def quiet split: sum.split flag_fault.split list.split option.split prod.split)
qed

lemma live_flags_free:
  assumes "lookup_tool (live_registry L H db) n = Some t" "\<not> t_serves t"
  shows "t_flags t ''host'' = None \<and> t_flags t ''token'' = None"
  using assms tool_flags_free
  by (auto simp: lookup_tool_def live_registry_def rpeek_registry_def [of _ _ _ "rpeek_registry _ _ _ _"] rpeek_tools_def
      tool_defs split: if_splits)

end
