(* ===== verification/Live_Server.thy ===== *)
theory Live_Server
  imports Tool_Set
begin

text \<open>
  A running server with the program's own tools: what the record \<open>host\<close> of \<open>Tool_Set\<close> is to the answers of the
  connection handler (\<open>internal/server/server.go\<close>) over the runner (\<open>internal/tools/runner.go\<close>) and every tool.
  Two results are about the program as a whole: what its answers depend on, and that the panics written out in the
  model are not reached.
\<close>

section \<open>What a server's answers depend on\<close>

text \<open>A transaction is begun read-only, and a statement timeout is the only statement executed in it.\<close>

lemma begin_read_only_cong:
  "(\<And>d. begin_tx d True = begin_tx' d True) \<Longrightarrow> begin_read_only begin_tx = begin_read_only begin_tx'"
  by (intro ext) (simp add: begin_read_only_def)

lemma db_tables_read_only:
  assumes "\<And>d. begin_tx d True = begin_tx' d True"
  shows "db_tables_remote un lower begin_tx exec q env db raw = db_tables_remote un lower begin_tx' exec q env db raw"
  unfolding db_tables_remote_def begin_read_only_cong [of begin_tx begin_tx', OF assms] by (rule refl)

lemma db_schema_read_only:
  assumes "\<And>d. begin_tx d True = begin_tx' d True"
  shows "db_schema_remote un lower begin_tx exec q env db raw = db_schema_remote un lower begin_tx' exec q env db raw"
  unfolding db_schema_remote_def begin_read_only_cong [of begin_tx begin_tx', OF assms] by (rule refl)

lemma sql_read_only:
  assumes "\<And>d. begin_tx d True = begin_tx' d True"
  shows "sql_remote un ul pf G begin_tx exec q rn env db raw = sql_remote un ul pf G begin_tx' exec q rn env db raw"
  unfolding sql_remote_def begin_read_only_cong [of begin_tx begin_tx', OF assms] by (rule refl)

text \<open>The journal is read with one of these argument vectors.\<close>

definition journal_words :: "string list \<Rightarrow> bool" where
  "journal_words argv \<longleftrightarrow>
     (\<exists>n unit. 1 \<le> n \<and> n \<le> 10000 \<and>
        (argv = [''--no-pager'', ''-n'', itoa n, ''-o'', ''short-iso''] \<or>
         valid_unit unit \<and> argv = [''--no-pager'', ''-n'', itoa n, ''-o'', ''short-iso'', ''-u'', unit]))"

lemma journal_argv_words:
  "journal_argv (clamp_limit k journal_default_lines journal_max_lines) unit = Inr argv \<Longrightarrow> journal_words argv"
proof -
  let ?n = "clamp_limit k journal_default_lines journal_max_lines"
  have "1 \<le> ?n \<and> ?n \<le> 10000"
    by (simp add: clamp_limit_def journal_default_lines_def journal_max_lines_def)
  moreover assume "journal_argv ?n unit = Inr argv"
  ultimately show ?thesis
    unfolding journal_words_def journal_argv_def by (intro exI [of _ ?n] exI [of _ unit]) (auto simp: Let_def split: if_splits)
qed

lemma run_journalctl_cong:
  "child path argv = child' path argv \<Longrightarrow>
     run_journalctl child ctx path argv m = run_journalctl child' ctx path argv m"
  by (simp add: run_journalctl_def)

lemma journal_remote_cong:
  fixes child :: "string \<Rightarrow> string list \<Rightarrow> 'e child"
  assumes "\<And>argv. journal_words argv \<Longrightarrow> child (env_journalctl env) argv = child' (env_journalctl env) argv"
  shows "journal_remote un child ctx env raw = journal_remote un child' ctx env raw"
proof -
  have "run_journalctl child ctx (env_journalctl env) argv m = run_journalctl child' ctx (env_journalctl env) argv m"
    if "journal_argv (clamp_limit k journal_default_lines journal_max_lines) unit =
      (Inr argv :: 'e tool_error + string list)" for argv m k unit
    by (intro run_journalctl_cong assms journal_argv_words [OF that])
  then show ?thesis
    unfolding journal_remote_def Let_def by (intro bind_res_cong_Inr if_cong refl) auto
qed

section \<open>The server\<close>

text \<open>
  What joins the runner to a connection: the context of the server, the deadline, the texts of errors, the
  value and stack of a panic, and the JSON of requests and answers.
\<close>

record 'e frontend =
  fe_ctx :: "'e ctx"
  fe_with_timeout :: "'e ctx \<Rightarrow> int \<Rightarrow> 'e ctx"
  fe_text :: "'e tool_fault run_error \<Rightarrow> string"
  fe_panic :: "'e tool_fault \<Rightarrow> string \<times> string"
  fe_marshal :: "response \<Rightarrow> string option"
  fe_unmarshal :: "string \<Rightarrow> request option"

text \<open>
  The faults that are index or slice panics in the code. The tools whose errors are a \<open>ToolFault\<close> have no panic
  written out in their definitions.
\<close>

definition fault_panics :: "'e tool_fault \<Rightarrow> bool" where
  "fault_panics f =
     (case f of
        ToolFault _ \<Rightarrow> False
      | DiskFault e \<Rightarrow> (case e of DiskPanic \<Rightarrow> True | DiskTool _ \<Rightarrow> False)
      | PsFault e \<Rightarrow> (case e of PsPanic \<Rightarrow> True | PsTool _ \<Rightarrow> False)
      | DbFault e \<Rightarrow> (case e of DbPanic \<Rightarrow> True | _ \<Rightarrow> False)
      | SqlFault e \<Rightarrow> (case e of SqlDb DbPanic \<Rightarrow> True | _ \<Rightarrow> False)
      | ServeFault _ \<Rightarrow> False)"

definition live_run ::
  "'e library \<Rightarrow> ('e, 'd, 't, 'r) host \<Rightarrow> 'e frontend \<Rightarrow> env \<Rightarrow> 'd db_registry option \<Rightarrow> string \<Rightarrow> string \<Rightarrow>
   run_outcome" where
  "live_run L H F env db name raw =
     (case run_remote (live_registry L H db) (fe_with_timeout F) env (fe_ctx F) name raw of
        Inl (ToolFailed f) \<Rightarrow>
          if fault_panics f then Panics (fst (fe_panic F f)) (snd (fe_panic F f))
          else Returns [] False (Some (fe_text F (ToolFailed f)))
      | Inl e \<Rightarrow> Returns [] False (Some (fe_text F e))
      | Inr (out, trunc) \<Rightarrow> Returns out trunc None)"

definition live_server ::
  "'e library \<Rightarrow> ('e, 'd, 't, 'r) host \<Rightarrow> 'e frontend \<Rightarrow> 'd serve_setup \<Rightarrow> server" where
  "live_server L H F s =
     \<lparr>sv_run = live_run L H F (ss_env s) (ss_db s), sv_token = ss_token s,
      sv_marshal = fe_marshal F, sv_unmarshal = fe_unmarshal F\<rparr>"

text \<open>
  Two machines that a server with the jail \<open>j\<close> and the journal's program \<open>jctl\<close> must not tell apart: they agree
  on everything but files and directories out of the jail, as far as paths still resolve alike (see
  \<open>same_paths\<close>), the command line of the server's process, programs other than
  the journal's with the words above, transactions that are not read-only, and statements that are not safe.
\<close>

definition same_host ::
  "'e library \<Rightarrow> jail_set \<Rightarrow> string \<Rightarrow> ('e, 'd, 't, 'r) host \<Rightarrow> ('e, 'd, 't, 'r) host \<Rightarrow> bool" where
  "same_host L j jctl H G \<longleftrightarrow>
     G = H\<lparr>h_os := h_os G, h_files := h_files G, h_proc := h_proc G, h_child := h_child G, h_begin := h_begin G,
           h_query := h_query G\<rparr> \<and>
     same_paths j (h_os H) (h_os G) \<and> same_inside j (h_files H) (h_files G) \<and>
     pf_stat (h_proc H) = pf_stat (h_proc G) \<and> pf_status (h_proc H) = pf_status (h_proc G) \<and>
     (\<forall>pid. pid \<noteq> h_self H \<longrightarrow> pf_cmdline (h_proc H) pid = pf_cmdline (h_proc G) pid) \<and>
     (\<forall>ctx argv. journal_words argv \<longrightarrow> h_child H ctx jctl argv = h_child G ctx jctl argv) \<and>
     (\<forall>d. h_begin H d True = h_begin G d True) \<and>
     (\<forall>tx eng src stmt sql params.
        safe_statement (lb_parse_float L) eng (db_catalog (h_querier H tx) eng) src stmt \<longrightarrow>
        h_generate H stmt = Inr (sql, params) \<longrightarrow> h_query H tx sql params = h_query G tx sql params)"

lemma same_host_fields:
  assumes "same_host L j jctl H G"
  shows "h_proc_entries G = h_proc_entries H" "h_user G = h_user H" "h_self G = h_self H"
    "h_arg0 G = h_arg0 H" "h_mounts G = h_mounts H" "h_statfs G = h_statfs H" "h_hostname G = h_hostname H"
    "h_version G = h_version H" "h_exec G = h_exec H" "h_querier G = h_querier H" "h_generate G = h_generate H"
proof -
  from assms have "G = H\<lparr>h_os := h_os G, h_files := h_files G, h_proc := h_proc G, h_child := h_child G, h_begin := h_begin G,
      h_query := h_query G\<rparr>" by (simp add: same_host_def)
  then obtain o' a b c d e where
    "G = H\<lparr>h_os := o', h_files := a, h_proc := b, h_child := c, h_begin := d, h_query := e\<rparr>" by blast
  then show "h_proc_entries G = h_proc_entries H" "h_user G = h_user H" "h_self G = h_self H"
    "h_arg0 G = h_arg0 H" "h_mounts G = h_mounts H" "h_statfs G = h_statfs H" "h_hostname G = h_hostname H"
    "h_version G = h_version H" "h_exec G = h_exec H" "h_querier G = h_querier H" "h_generate G = h_generate H"
    by simp_all
qed

text \<open>Tools that correspond: the same name, and remote halves that answer alike in the environment.\<close>

definition same_tool :: "env \<Rightarrow> ('c, 'e) tool \<Rightarrow> ('c, 'e) tool \<Rightarrow> bool" where
  "same_tool env t u \<longleftrightarrow> t_name t = t_name u \<and>
     rel_option (\<lambda>f g. \<forall>ctx raw. f ctx env raw = g ctx env raw) (t_remote t) (t_remote u)"

lemma same_tool_refl [simp]: "same_tool env t t"
  by (simp add: same_tool_def option.rel_refl)

lemma same_tools_lookup:
  "list_all2 (same_tool env) ts us \<Longrightarrow>
     rel_option (same_tool env) (map_of (map (\<lambda>t. (t_name t, t)) ts) n) (map_of (map (\<lambda>t. (t_name t, t)) us) n)"
  by (induction rule: list_all2_induct) (auto simp: same_tool_def)

lemma same_tools_run:
  assumes "list_all2 (same_tool env) (rpeek_tools L H db reg) (rpeek_tools L G db reg')"
  shows "run_remote (rpeek_registry L H db reg) wt env ctx name raw =
    run_remote (rpeek_registry L G db reg') wt env ctx name raw"
  using same_tools_lookup [OF assms, of name]
  by (auto simp: run_remote_def lookup_tool_def rpeek_registry_def Let_def same_tool_def elim!: option.rel_cases)

lemma same_host_tools:
  assumes "os_ok (sw_os W)" "serve_up W args = Inr s" "h_os H = sw_os W"
    and same: "same_host L (env_jail (ss_env s)) (env_journalctl (ss_env s)) H G"
  shows "list_all2 (same_tool (ss_env s)) (rpeek_tools L H db reg) (rpeek_tools L G db reg')"
proof -
  note fld = same_host_fields [OF same]
  note S = same [unfolded same_host_def]
  have files: "same_paths (env_jail (ss_env s)) (sw_os W) (h_os G)" "same_inside (env_jail (ss_env s)) (h_files H) (h_files G)"
    using S assms(3) by metis+
  note conf = file_tools_confined [OF assms(1,2) files, folded assms(3)]
  have begin_ro: "h_begin H d True = h_begin G d True" for d using S by blast
  have journal: "journal_remote un (h_child H ctx) c (ss_env s) raw = journal_remote un (h_child G ctx) c (ss_env s) raw"
    for un :: "string \<Rightarrow> 'a + journal_args" and ctx c raw
    by (rule journal_remote_cong) (use S in blast)
  have ps: "ps_remote un es (h_proc H) u (h_self H) a ctx env raw = ps_remote un es (h_proc G) u (h_self H) a ctx env raw"
    for un :: "string \<Rightarrow> 'a + unit" and es u a ctx env raw
    by (rule ps_hides_own_args) (use S in blast)+
  have tables: "db_tables_remote un lower (h_begin H) x q env db raw = db_tables_remote un lower (h_begin G) x q env db raw"
    for un :: "string \<Rightarrow> 'a + db_args" and lower x q env raw
    by (rule db_tables_read_only) (rule begin_ro)
  have schema: "db_schema_remote un lower (h_begin H) x q env db raw = db_schema_remote un lower (h_begin G) x q env db raw"
    for un :: "string \<Rightarrow> 'a + db_args" and lower x q env raw
    by (rule db_schema_read_only) (rule begin_ro)
  have sql: "sql_remote un (lb_lower L) (lb_parse_float L) (recorder (h_generate H)) (h_begin H) x (h_querier H) (h_query H) env db raw =
      sql_remote un (lb_lower L) (lb_parse_float L) (recorder (h_generate H)) (h_begin G) x (h_querier H) (h_query G) env db raw"
    for un :: "string \<Rightarrow> 'a + sql_args" and x env raw
  proof (rule trans)
    show "sql_remote un (lb_lower L) (lb_parse_float L) (recorder (h_generate H)) (h_begin H) x (h_querier H) (h_query H) env db raw =
        sql_remote un (lb_lower L) (lb_parse_float L) (recorder (h_generate H)) (h_begin G) x (h_querier H) (h_query H) env db raw"
      by (rule sql_read_only) (rule begin_ro)
    show "sql_remote un (lb_lower L) (lb_parse_float L) (recorder (h_generate H)) (h_begin G) x (h_querier H) (h_query H) env db raw =
        sql_remote un (lb_lower L) (lb_parse_float L) (recorder (h_generate H)) (h_begin G) x (h_querier H) (h_query G) env db raw"
      by (rule sql_remote_safe_runs) (use S in blast)
  qed
  show ?thesis
    unfolding rpeek_tools_def list_all2_Cons list_all2_Nil
    by (intro conjI TrueI; (rule same_tool_refl)?)
      (simp_all add: same_tool_def tool_defs fld conf journal ps tables schema sql)
qed

section \<open>No request reaches a panic\<close>

text \<open>\<open>Scan\<close> fills as many cells as there are columns, or fails.\<close>

definition scans_whole_rows :: "'e sql_rows \<Rightarrow> bool" where
  "scans_whole_rows rs \<longleftrightarrow>
     (\<forall>cols vals. rr_columns rs = Inr cols \<longrightarrow> Inr vals \<in> set (rr_rows rs) \<longrightarrow> length vals = length cols)"

lemma render_table_total:
  assumes "\<forall>r\<in>set rows. length r = length cols"
  shows "render_table cols rows \<noteq> None"
proof (cases "cols = []")
  case False
  then have rect: "rectangular cols rows" using assms by (simp add: rectangular_def)
  have "write_rows (column_widths cols rows) (ruled cols rows) \<noteq> None"
    using ruled_shape [OF rect] by (subst write_rows_padded) (auto simp: column_widths_def)
  then show ?thesis
    using False by (simp add: render_table_def widths_are_maxima [OF rect] ruled_def Let_def)
qed (simp add: render_table_def)

lemma capped_table_eq_Inl: "capped_table env t = Inl e \<longleftrightarrow> t = None \<and> e = DbPanic"
  by (auto simp: capped_table_def Let_def split: option.splits prod.splits)

lemma map_res_cells:
  "map_res (\<lambda>r. bind_res r (\<lambda>vals. Inr (map f vals))) rs = Inr rows \<Longrightarrow> row \<in> set rows \<Longrightarrow>
     \<exists>vals. Inr vals \<in> set rs \<and> row = map f vals"
  by (drule (1) map_res_set) (auto simp: res_simps)

lemma scan_cells_rectangular:
  assumes "scans_whole_rows rs" "scan_cells rs = Inr (cols, rows)"
  shows "\<forall>r\<in>set rows. length r = length cols"
proof -
  from assms(2) have c: "rr_columns rs = Inr cols"
    and m: "map_res (\<lambda>r. bind_res r (\<lambda>vals. Inr (map format_cell vals))) (rr_rows rs) = Inr rows"
    by (auto simp: scan_cells_def res_simps split: option.splits)
  show ?thesis using map_res_cells [OF m] c assms(1) by (fastforce simp: scans_whole_rows_def)
qed

lemma disk_no_panic: "disk_remote un mounts st ctx env raw \<noteq> Inl DiskPanic"
  using disk_loop_no_panic [of ctx st 0 "[]" disk_header]
  by (auto simp: disk_remote_def bind_res_eq_Inl lift_err_def split: sum.splits prod.splits)

lemma db_list_no_panic: "db_list_remote un env db raw \<noteq> Inl DbPanic"
proof -
  have "render_table [''ALIAS'', ''ENGINE'', ''HOST'']
      (List.map_filter (\<lambda>a. map_option (\<lambda>c. [a, engine_string (c_engine c), c_host c]) (dr_conns reg a)) (dr_aliases reg)) \<noteq> None"
    for reg by (rule render_table_total) (auto simp: List.map_filter_def)
  then show ?thesis
    by (auto simp: db_list_remote_def bind_res_eq_Inl lift_err_def capped_table_eq_Inl split: sum.splits option.splits if_splits)
qed

lemma db_schema_no_panic: "db_schema_remote un lower begin_tx exec q env db raw \<noteq> Inl DbPanic"
proof -
  have "render_table [''COLUMN'', ''TYPE'', ''NULLABLE'']
      (map (\<lambda>ci. [ci_name ci, ci_type ci, if ci_nullable ci then ''NULL'' else ''NOT NULL'']) cols) \<noteq> None"
    for cols by (rule render_table_total) auto
  then show ?thesis
    by (auto simp: db_schema_remote_def bind_res_eq_Inl lift_err_def capped_table_eq_Inl split: sum.splits if_splits)
qed

lemma db_tables_no_panic: "db_tables_remote un lower begin_tx exec q env db raw \<noteq> Inl DbPanic"
  by (auto simp: db_tables_remote_def bind_res_eq_Inl lift_err_def Let_def split: sum.splits prod.splits)

lemma sql_no_panic:
  assumes "\<And>tx sql params rs. rn tx sql params = Inr rs \<Longrightarrow> scans_whole_rows rs"
  shows "sql_remote un ul pf G begin_tx exec q rn env db raw \<noteq> Inl (SqlDb DbPanic)"
proof -
  have no: False if "rn tx sql params = Inr rs" "scan_cells rs = Inr (cols, rows)" "render_table cols rows = None"
    for tx sql params rs cols rows
    using render_table_total [OF scan_cells_rectangular [OF assms [OF that(1)] that(2)]] that(3) by blast
  show ?thesis
    by (auto simp: sql_remote_def bind_res_eq_Inl lift_err_def capped_table_eq_Inl Let_def dest: no
        split: sum.splits prod.splits)
qed

lemma fault_panics_cases:
  "fault_panics e \<longleftrightarrow>
     e = DiskFault DiskPanic \<or> e = PsFault PsPanic \<or> e = DbFault DbPanic \<or> e = SqlFault (SqlDb DbPanic)"
  by (auto simp: fault_panics_def split: tool_fault.split disk_error.split ps_error.split db_tool_error.split sql_error.split)

lemma lift_err_no_panic:
  "lift_err ToolFault m = Inl e \<Longrightarrow> \<not> fault_panics e"
  "m1 \<noteq> Inl DiskPanic \<Longrightarrow> lift_err DiskFault m1 = Inl e \<Longrightarrow> \<not> fault_panics e"
  "m2 \<noteq> Inl DbPanic \<Longrightarrow> lift_err DbFault m2 = Inl e \<Longrightarrow> \<not> fault_panics e"
  "m3 \<noteq> Inl (SqlDb DbPanic) \<Longrightarrow> lift_err SqlFault m3 = Inl e \<Longrightarrow> \<not> fault_panics e"
  "m4 \<noteq> Inl PsPanic \<Longrightarrow> lift_err PsFault m4 = Inl e \<Longrightarrow> \<not> fault_panics e"
  by (auto simp: lift_err_def fault_panics_cases split: sum.splits)

lemma remote_halves_no_panic:
  fixes H :: "('e, 'd, 't, 'r) host"
  assumes "\<And>tx sql params rs. h_query H tx sql params = Inr rs \<Longrightarrow> scans_whole_rows rs"
    and "t \<in> set (rpeek_tools L H db reg)" "t_remote t = Some f" "f ctx env raw = Inl e"
  shows "\<not> fault_panics e"
proof -
  have sql: "sql_remote un ul pf G (h_begin H) x q (h_query H) env db raw \<noteq> Inl (SqlDb DbPanic)"
    for un :: "string \<Rightarrow> 'e + sql_args" and ul pf and G :: "(sql_expr, select_stmt, 'e) goqu" and x q
    by (rule sql_no_panic) (rule assms(1))
  show ?thesis
    using assms(2-4) unfolding rpeek_tools_def set_simps
    by (elim insertE emptyE) (auto simp: tool_defs
        dest!: lift_err_no_panic(1) lift_err_no_panic(2) [OF disk_no_panic] lift_err_no_panic(3) [OF db_list_no_panic]
          lift_err_no_panic(3) [OF db_schema_no_panic] lift_err_no_panic(3) [OF db_tables_no_panic]
          lift_err_no_panic(4) [OF sql] lift_err_no_panic(5) [OF ps_no_panic])
qed

lemma live_run_no_panic:
  assumes "\<And>tx sql params rs. h_query H tx sql params = Inr rs \<Longrightarrow> scans_whole_rows rs"
  shows "live_run L H F env db name raw \<noteq> Panics v st"
proof -
  have "\<not> fault_panics f" if run: "run_remote (live_registry L H db) wt env ctx name raw = Inl (ToolFailed f)" for wt ctx f
  proof -
    from run obtain t g ctx' where t: "lookup_tool (live_registry L H db) name = Some t" "t_remote t = Some g"
        "g ctx' env raw = Inl f"
      by (auto simp: run_remote_def res_simps lift_err_def Let_def split: option.splits sum.splits)
    from t(1) have "t \<in> set (rpeek_tools L H db (rpeek_registry L H db (empty_registry :: (unit, unit) registry)))"
      by (auto simp: lookup_tool_def live_registry_def rpeek_registry_def [of _ _ _ "rpeek_registry _ _ _ _"] Let_def
          dest: map_of_SomeD)
    from remote_halves_no_panic [OF assms this t(2,3)] show ?thesis .
  qed
  then show ?thesis
    by (auto simp: live_run_def split: sum.split run_error.split prod.split)
qed

section \<open>The command \<open>serve\<close>\<close>

text \<open>What \<open>runServer\<close> calls: \<open>Serve\<close> of the tool \<open>serve\<close>, which writes its banner and its log and returns an error or none.\<close>

definition serve_call ::
  "'e library \<Rightarrow> ('e, 'd) serve_world \<Rightarrow> string \<Rightarrow> string \<times> string \<times> 'e tool_fault option" where
  "serve_call L S raw =
     (case serve_main S (dec (lb_serve L)) raw of (banner, log, err, _) \<Rightarrow> (banner, log, map_option ServeFault err))"

lemma seed_serve_flags:
  "seed_flag V ''token'' k (seed_flag V ''host'' h serve_flags) =
     serve_flags(''host'' \<mapsto> StringFlag h, ''token'' \<mapsto> StringFlag k)"
proof -
  have "seed_flag V ''host'' h serve_flags = serve_flags(''host'' \<mapsto> StringFlag h)"
    by (auto simp: seed_flag_def set_by_name_def set_named_def set_flag_string serve_flags_def)
  moreover have "seed_flag V ''token'' k (serve_flags(''host'' \<mapsto> StringFlag h)) =
      serve_flags(''host'' \<mapsto> StringFlag h, ''token'' \<mapsto> StringFlag k)"
    by (auto simp: seed_flag_def set_by_name_def set_named_def set_flag_string serve_flags_def)
  ultimately show ?thesis by simp
qed

lemma live_serve_tool: "lookup_tool (live_registry L H db) ''serve'' = Some (serve_tool L)"
  by (simp add: lookup_tool_def live_registry_def rpeek_registry_def [of _ _ _ "rpeek_registry _ _ _ _"] Let_def
      rpeek_tools_def tool_defs)

lemma run_serve_items:
  assumes "list_all (item_ok (serve_flags(''host'' \<mapsto> StringFlag h, ''token'' \<mapsto> StringFlag k))) items"
    and "apply_settings (w_duration V) (serve_flags(''host'' \<mapsto> StringFlag h, ''token'' \<mapsto> StringFlag k)) items = Inr fs"
    and "serve_build (lb_lower L) fs (plain_words items) = Inr args" "enc (lb_serve L) args = Inr raw"
  shows "run V (live_registry L H db) ((''--host='' @ h) # (''--token='' @ k) # ''serve'' # words_of items) =
    (case w_serve V raw of
       (banner, log, Some e) \<Rightarrow>
         \<lparr>stdout = banner, stderr = log @ complaint (w_err_text V e), calls = [], status = Exit exit_error\<rparr>
     | (banner, log, None) \<Rightarrow> \<lparr>stdout = banner, stderr = log, calls = [], status = Exit exit_ok\<rparr>)"
proof -
  let ?g = "global_flags(''host'' \<mapsto> StringFlag h, ''token'' \<mapsto> StringFlag k)"
  have n: "flag_token ''serve'' = NoFlag" by (simp add: flag_token_def)
  have "parse_any_order (w_duration V) (serve_flags(''host'' \<mapsto> StringFlag h, ''token'' \<mapsto> StringFlag k)) [] (words_of items) =
      Inr (fs, plain_words items)"
    using any_order_items [OF assms(1), of "w_duration V" "[]"] assms(2) by simp
  moreover have "flag_string ?g ''host'' = h" "flag_string ?g ''token'' = k"
    by (simp_all add: flag_string_def)
  moreover have "t_serves (serve_tool L)" "t_flags (serve_tool L) = serve_flags"
    "t_build (serve_tool L) fs (plain_words items) = Inr raw"
    using assms(3,4) by (simp_all add: serve_tool_def wire_build_def json_build_def)
  ultimately show ?thesis
    unfolding run_def global_flags_parse [OF n]
    by (simp add: live_serve_tool run_server_def with_args_def seed_serve_flags)
qed

section \<open>Properties\<close>

text \<open>
  C1: A running server discloses and does nothing beyond its brief, whatever anybody sends it. Take two machines
  that hold the same files at and below the roots of the jail, on which every path resolves alike or outside
  the jail on both, and that agree on the process table but for the server's own command line, on what the
  journal's program does with a clamped line count and a validated unit, on read-only transactions, on statements
  that are safe, and on the rest a tool reports (mounts, hostname, version). The connection handler, with the
  program's whole set of tools behind it, then gives the same effects on both for every input, valid token or not:
  every byte it writes and every line it logs. So a file outside the jail, and whether it exists, a secret among the
  server's arguments, another program, a transaction that could write, or a statement that is not safe never
  shows, and is never needed, in any answer. (What does show of the outside is excepted: an error other than
  non-existence in resolving a path, and whether the target of a link in the jail exists.)
\<close>

theorem requests_confined:
  assumes "os_ok (sw_os W)" "serve_up W args = Inr s" "h_os H = sw_os W"
    and "same_host L (env_jail (ss_env s)) (env_journalctl (ss_env s)) H G"
  shows "handle_conn (live_server L H F s) remote dur input = handle_conn (live_server L G F s) remote dur input"
proof -
  have "run_remote (live_registry L H (ss_db s)) wt (ss_env s) ctx name raw =
      run_remote (live_registry L G (ss_db s)) wt (ss_env s) ctx name raw" for wt ctx name raw
    unfolding live_registry_def by (rule same_tools_run [OF same_host_tools [OF assms]])
  then have "live_run L H F (ss_env s) (ss_db s) = live_run L G F (ss_env s) (ss_db s)"
    by (intro ext) (simp add: live_run_def)
  then show ?thesis by (simp add: live_server_def)
qed

text \<open>
  C12: The panics written out in the model are never reached. The init functions register the sixteen tools, under
  names no two share and in alphabetical order, all but \<open>help\<close> and \<open>serve\<close> with a server half, so \<open>Register\<close> does
  not panic; no command line makes the command redeclare a flag; and on a server no request makes \<open>disk\<close> index past its
  suffixes, \<open>ps\<close> slice a stat line out of bounds, or a database tool index a table row past its columns, so
  that no connection ends in the recovery from one of these, as long as the database driver scans as many
  cells as it announces columns.
\<close>

theorem nothing_panics:
  "register_all empty_registry (rpeek_tools L H db (live_registry L H db)) = Inr (live_registry L H db) \<and>
   tool_names (live_registry L H db) = rpeek_names \<and> sorted rpeek_names \<and>
   remote_names (live_registry L H db) = filter (\<lambda>n. n \<noteq> ''help'' \<and> n \<noteq> ''serve'') rpeek_names \<and>
   status (run W (live_registry L H db) args) \<noteq> FlagPanic \<and>
   ((\<forall>tx sql params rs. h_query H tx sql params = Inr rs \<longrightarrow> scans_whole_rows rs) \<longrightarrow>
      PanicLogged m \<notin> set (handle_conn (live_server L H F s) remote dur input))"
proof (intro conjI impI)
  show "status (run W (live_registry L H db) args) \<noteq> FlagPanic"
    by (rule quiet_run) (rule live_flags_free)
  assume "\<forall>tx sql params rs. h_query H tx sql params = Inr rs \<longrightarrow> scans_whole_rows rs"
  then have "sv_run (live_server L H F s) name raw \<noteq> Panics v st" for name raw v st
    by (simp add: live_server_def live_run_no_panic)
  then show "PanicLogged m \<notin> set (handle_conn (live_server L H F s) remote dur input)"
    by (cases rule: handle_conn_cases [of "live_server L H F s" input remote dur])
      (auto simp: run_request_def write_response_def log_request_def split: run_outcome.split)
qed (rule live_registry_registers live_registry_names rpeek_names_sorted live_registry_remote)+


section \<open>Witnesses\<close>

definition no_codec :: "(unit, 'a) codec" where
  "no_codec = \<lparr>enc = (\<lambda>_. Inl []), dec = (\<lambda>_. Inl ())\<rparr>"

definition demo_library :: "unit library" where
  "demo_library =
     \<lparr>lb_none = \<lparr>enc = (\<lambda>_. Inr ''null''), dec = (\<lambda>_. Inr ())\<rparr>, lb_stat = no_codec, lb_help = no_codec, lb_list = no_codec,
      lb_tail = no_codec, lb_read = no_codec, lb_grep = no_codec, lb_journal = no_codec, lb_tables = no_codec,
      lb_schema = no_codec, lb_sql = no_codec, lb_serve = no_codec, lb_usage_text = (\<lambda>_. []), lb_dur_text = itoa,
      lb_quote = (\<lambda>s. s), lb_lower = to_lower, lb_parse_float = Map.empty, lb_compile = (\<lambda>_. Inl ())\<rparr>"

text \<open>A machine whose secret is in a file out of the jail, on the server's command line, in the output of another
  program, and in a database that would let itself be written.\<close>

definition demo_host :: "string \<Rightarrow> (unit, string, string, string list) host" where
  "demo_host secret =
     \<lparr>h_os = sample_os, h_files = demo_files secret, h_proc_entries = Inr [(''12'', True)], h_proc = demo_fs [secret],
      h_user = Map.empty, h_self = 12, h_arg0 = ''rpeek'', h_mounts = Inr [], h_statfs = Map.empty,
      h_hostname = Inr ''h'', h_version = ''dev'',
      h_child = (\<lambda>_ path _. \<lparr>ch_stdout = (if path = [] then [] else [secret]), ch_stderr = [], ch_err = None\<rparr>),
      h_begin = (\<lambda>d ro. Inr (if ro then [] else secret)), h_exec = (\<lambda>_ _. None), h_querier = (\<lambda>_. sample_querier),
      h_query = (\<lambda>_ _ _. Inl ()), h_generate = sample_gen\<rparr>"

definition demo_frontend :: "unit frontend" where
  "demo_frontend = \<lparr>fe_ctx = (\<lambda>_. None), fe_with_timeout = (\<lambda>c _. c), fe_text = (\<lambda>_. ''failed''),
     fe_panic = (\<lambda>_. ([], [])), fe_marshal = (\<lambda>r. Some (rs_output r)),
     fe_unmarshal = (\<lambda>l. Some \<lparr>rq_token = hex_encode (replicate 16 171), rq_tool = l, rq_args = []\<rparr>)\<rparr>"

definition demo_other_host :: "string \<Rightarrow> (unit, string, string, string list) host" where
  "demo_other_host secret = (demo_host secret)\<lparr>h_os := other_os\<rparr>"

lemma demo_same_host:
  "same_host demo_library (env_jail (ss_env (demo_setup None))) (env_journalctl (ss_env (demo_setup None)))
     (demo_host a) (demo_other_host b)"
proof -
  have "\<not> below ''/srv/data'' ''/etc/passwd''" by code_simp
  then have "same_inside (env_jail (ss_env (demo_setup None))) (demo_files a) (demo_files b)"
    by (auto simp: same_inside_def demo_files_def demo_setup_def inside_def sample_jail_def)
  then show ?thesis
    using demo_same_paths [of None] by (simp add: same_host_def demo_other_host_def demo_host_def demo_fs_def demo_setup_def)
qed

theorem requests_confined_witness:
  "handle_conn (live_server demo_library (demo_host ''root'') demo_frontend (demo_setup None)) ''c'' ''1ms'' (''ps'' @ [newline]) =
   handle_conn (live_server demo_library (demo_other_host ''other'') demo_frontend (demo_setup None)) ''c'' ''1ms''
     (''ps'' @ [newline])"
proof -
  have w: "sw_os demo_serve = sample_os" by (simp add: demo_serve_def)
  show ?thesis
    by (rule requests_confined [OF _ demo_up [OF demo_no_dbs] _ demo_same_host, unfolded w])
      (simp_all add: sample_os_ok demo_host_def)
qed

theorem nothing_panics_witness:
  "PanicLogged [] \<notin> set (handle_conn (live_server demo_library (demo_host ''root'') demo_frontend (demo_setup None))
     ''c'' ''1ms'' (''disk'' @ [newline]))"
  by (rule nothing_panics [THEN conjunct2, THEN conjunct2, THEN conjunct2, THEN conjunct2, THEN conjunct2, THEN mp])
    (simp add: demo_host_def)

definition demo_world :: "(unit ctx, unit tool_fault) world" where
  "demo_world =
     \<lparr>w_getenv = (\<lambda>_. []), w_wire = \<lparr>exchange = (\<lambda>_ _ _. Inr ([], None)), marshal_request = (\<lambda>_. Inr []),
        unmarshal_response = (\<lambda>_. Inr pong)\<rparr>,
      w_context = (\<lambda>_. None), w_duration = [''0s'' \<mapsto> 0], w_fault_text = (\<lambda>_. []), w_addr_text = (\<lambda>_. []),
      w_err_text = (\<lambda>_. []), w_quote = id, w_call_text = (\<lambda>_. []),
      w_serve = serve_call (demo_library\<lparr>lb_serve := \<lparr>enc = (\<lambda>_. Inr ''x''), dec = (\<lambda>_. Inr (demo_args Map.empty))\<rparr>\<rparr>)
        demo_serve\<rparr>"


text \<open>The demonstration server answers: the whole path from a request line to the bytes and the log.\<close>

lemma demo_hostname:
  "handle_conn (live_server demo_library (demo_host x) demo_frontend (demo_setup None)) ''c'' ''1ms'' (''hostname'' @ [newline]) =
   [Ran ''hostname'' [], Wrote [CHR ''h'', newline, newline], Logged ''remote=c tool=hostname status=ok dur=1ms bytes=2'']"
proof -
  have "scan_lines max_request_line (''hostname'' @ [newline]) = ([''hostname''], False)"
    by (rule scan_one_line) (simp add: one_line_def max_request_line_def)
  moreover have "lookup_tool (live_registry demo_library (demo_host x) None) ''hostname'' =
      Some (hostname_tool demo_library (demo_host x))"
    by (simp add: lookup_tool_def live_registry_def rpeek_registry_def [of _ _ _ "rpeek_registry _ _ _ _"] Let_def
        rpeek_tools_def tool_defs)
  moreover have "itoa 2 = ''2''" by code_simp
  ultimately show ?thesis
    by (simp add: handle_conn_def live_server_def live_run_def run_request_def demo_frontend_def demo_setup_def run_remote_def
        hostname_tool_def hostname_remote_def decode_args_def demo_library_def demo_host_def cap_output_def
        write_response_def log_request_def audit_line_def Let_def)
qed

end
