(* ===== verification/Session.thy ===== *)
theory Session
  imports Live_Server
begin

text \<open>
  A session: one machine runs \<open>rpeek serve\<close>, another runs \<open>rpeek\<close> with the name of a tool. Both have the
  program's own tools; each has its own library, and only the server's machine matters to the answer.
\<close>

section \<open>The tools on the client\<close>

definition session_tools :: "string list" where
  "session_tools = filter (\<lambda>n. n \<notin> {''help'', ''serve'', ''version''}) rpeek_names"

lemma session_faces:
  "t \<in> set (rpeek_tools L H db reg) \<Longrightarrow> t_name t \<in> set session_tools \<Longrightarrow>
     \<not> t_serves t \<and> t_local t = None \<and> t_remote t \<noteq> None"
  unfolding rpeek_tools_def set_simps by (elim insertE emptyE; simp add: tool_defs session_tools_def)

lemma session_tool:
  assumes "name \<in> set session_tools" "lookup_tool (live_registry L H db) name = Some t"
  shows "t_name t = name" "\<not> t_serves t" "t_local t = None" "t_remote t \<noteq> None" "flag_token name = NoFlag"
proof -
  from assms(2) have t: "t \<in> set (rpeek_tools L H db (rpeek_registry L H db (empty_registry :: (unit, unit) registry)))"
    and n: "t_name t = name"
    by (auto simp: lookup_tool_def live_registry_def rpeek_registry_def [of _ _ _ "rpeek_registry _ _ _ _"] Let_def
        dest!: map_of_SomeD)
  show "t_name t = name" by (rule n)
  show "\<not> t_serves t" "t_local t = None" "t_remote t \<noteq> None"
    using session_faces [OF t] n assms(1) by simp_all
  have "list_all (\<lambda>n. flag_token n = NoFlag) rpeek_names" by (simp add: rpeek_names_def flag_token_def)
  then show "flag_token name = NoFlag" using assms(1) by (auto simp: session_tools_def list_all_iff)
qed

text \<open>A server whose driver scans whole rows runs its tools and nothing else: its runner never panics.\<close>

lemma live_run_server_runs:
  assumes "\<forall>tx sql params rs. h_query H tx sql params = Inr rs \<longrightarrow> scans_whole_rows rs"
  shows "live_run L H F env db = server_runs (live_registry L H db) (fe_with_timeout F) env (fe_ctx F) (fe_text F)"
proof (intro ext)
  fix name raw
  have no: False
    if "fault_panics f" "run_remote (live_registry L H db) (fe_with_timeout F) env (fe_ctx F) name raw = Inl (ToolFailed f)" for f
    using live_run_no_panic [of H L F env db name raw "fst (fe_panic F f)" "snd (fe_panic F f)"] assms that
    by (simp add: live_run_def)
  then show "live_run L H F env db name raw =
      server_runs (live_registry L H db) (fe_with_timeout F) env (fe_ctx F) (fe_text F) name raw"
    by (auto simp: live_run_def server_runs_def split: sum.split run_error.split)
qed

section \<open>Properties\<close>

text \<open>
  C4: A session shows the client what the tool shows on the server. Let a server be set up, and let a client run any of
  the tools with a server half only, with any arrangement of the tool's flags and arguments, over a connection to
  it on which the JSON codecs carry the request and the answer, each on a line of no more than the size
  the reader takes. If the client's token, as JSON carries it, is the server's, the command prints the output the
  tool's server half gives on the server's machine, in the jail and with the limits and databases \<open>serve\<close> was given,
  exactly but for the coercion of JSON, which replaces bytes that are not UTF-8, and succeeds; a tool's error is the
  message on the standard error with the server's exit status. With any other token it prints that it is
  unauthorized, and nothing of the server's machine shows. An output that is UTF-8 is printed byte for byte.
\<close>

theorem session_shows_tool_output:
  assumes "serve_up S args = Inr s"
    and "\<forall>tx sql params rs. h_query H tx sql params = Inr rs \<longrightarrow> scans_whole_rows rs"
    and "name \<in> set session_tools" "lookup_tool (live_registry L' H' db') name = Some t"
    and "list_all (item_ok (client_flags t h k)) items"
    and "apply_settings (w_duration W) (client_flags t h k) items = Inr fs"
    and "t_build t fs (plain_words items) = Inr raw"
    and "resolve_host_token W (flag_string fs ''host'') (flag_string fs ''token'') = Inr (addr, token)"
    and "exchange (w_wire W) client_tls_config = served_by (live_server L H F s) remote dur"
    and "carries (w_wire W) (live_server L H F s) \<lparr>rq_token = token, rq_tool = name, rq_args = raw\<rparr>"
  shows "run W (live_registry L' H' db') ((''--host='' @ h) # (''--token='' @ k) # name # words_of items) =
    sent (addr, token, name, raw)
      (if json_text token \<noteq> ss_token s then
         \<lparr>stdout = [], stderr = complaint ''unauthorized'', calls = [], status = Exit exit_server\<rparr>
       else case run_remote (live_registry L H (ss_db s)) (fe_with_timeout F) (ss_env s) (fe_ctx F) name raw of
         Inl e \<Rightarrow> \<lparr>stdout = [], stderr = complaint (json_text (fe_text F e)), calls = [], status = Exit exit_server\<rparr>
       | Inr (out, trunc) \<Rightarrow> print_output (json_text out) trunc) \<and>
    (\<forall>out. valid_utf8 out \<longrightarrow> json_text out = out)"
proof -
  note t = session_tool [OF assms(3,4)]
  obtain f where f: "t_remote t = Some f" using t(4) by blast
  have free: "t_flags t ''host'' = None" "t_flags t ''token'' = None"
    using live_flags_free [OF assms(4) t(2)] by simp_all
  have tok: "sv_token (live_server L H F s) = ss_token s" by (simp add: live_server_def)
  have name: "valid_utf8 name"
    using assms(3) by (intro ascii_valid_utf8) (auto simp: session_tools_def rpeek_names_def)
  have runs: "sv_run (live_server L H F s) =
      server_runs (live_registry L H (ss_db s)) (fe_with_timeout F) (ss_env s) (fe_ctx F) (fe_text F)"
    using live_run_server_runs [OF assms(2)] by (simp add: live_server_def)
  show ?thesis
    using command_runs_tool_remotely [OF assms(4) t(1,2,5) free t(3) f assms(5-7) [unfolded client_flags_def]
      assms(8-10) name runs] json_text_valid unfolding tok by blast
qed

section \<open>Witness\<close>

definition token_args :: serve_args where
  "token_args = (demo_args Map.empty)\<lparr>sa_token := ''k''\<rparr>"

lemma token_up: "serve_up demo_serve token_args = Inr ((demo_setup None)\<lparr>ss_token := ''k''\<rparr>)"
proof -
  have a: "normalize_addr ''0.0.0.0'' = Inr ''0.0.0.0:7017''" by code_simp
  have r: "serve_roots demo_serve token_args = Inr sample_jail"
    by (simp add: serve_roots_def token_args_def demo_args_def demo_serve_def sample_jail_new)
  have k: "serve_token demo_serve token_args = Inr ''k''"
    by (simp add: serve_token_def token_args_def resolve_setting_def)
  have h: "resolve_setting (sw_getenv demo_serve) (sa_host token_args) ''RPEEK_HOST'' ''0.0.0.0'' = ''0.0.0.0''"
    by (simp add: demo_serve_def token_args_def demo_args_def resolve_setting_def)
  have d: "serve_databases demo_serve token_args = Inr None"
    by (simp add: serve_databases_def serve_specs_def demo_serve_def token_args_def demo_args_def merged_specs_def db_specs_def)
  have w: "sw_crypto demo_serve = demo_crypto" "sw_listen demo_serve = (\<lambda>_ _. None)" "sw_journalctl demo_serve = []"
    by (simp_all add: demo_serve_def)
  show ?thesis
    by (simp add: serve_up_def Let_def h a r k d w demo_setup_def demo_tls) (simp add: token_args_def demo_args_def)
qed

definition session_request :: request where
  "session_request = \<lparr>rq_token = ''k'', rq_tool = ''hostname'', rq_args = ''null''\<rparr>"

definition session_server :: server where
  "session_server = live_server demo_library (demo_host [])
     (demo_frontend\<lparr>fe_marshal := \<lambda>_. Some ''r'', fe_unmarshal := \<lambda>_. Some session_request\<rparr>)
     ((demo_setup None)\<lparr>ss_token := ''k''\<rparr>)"

definition session_world :: "(unit ctx, unit tool_fault) world" where
  "session_world = demo_world\<lparr>w_wire :=
     \<lparr>exchange = (\<lambda>_. served_by session_server ''c'' ''1ms''), marshal_request = (\<lambda>_. Inr ''q''),
      unmarshal_response = (\<lambda>_. Inr (json_response (answer session_server session_request)))\<rparr>\<rparr>"

theorem session_shows_tool_output_witness:
  "run session_world (live_registry demo_library (demo_host ''x'') None) [''--host='', ''--token=k'', ''hostname'', ''--host=b''] =
   sent (''b:7017'', ''k'', ''hostname'', ''null'') (print_output [CHR ''h'', newline] False)"
proof -
  let ?t = "hostname_tool demo_library (demo_host ''x'')"
  let ?fs = "(client_flags ?t [] ''k'')(''host'' \<mapsto> StringFlag ''b'')"
  let ?F = "demo_frontend\<lparr>fe_marshal := \<lambda>_. Some ''r'', fe_unmarshal := \<lambda>_. Some session_request\<rparr>"
  let ?s = "(demo_setup None)\<lparr>ss_token := ''k''\<rparr>"
  have n: "normalize_addr ''b'' = Inr ''b:7017''" by code_simp
  have look: "lookup_tool (live_registry demo_library (demo_host x) None) ''hostname'' =
      Some (hostname_tool demo_library (demo_host x))" for x
    by (simp add: lookup_tool_def live_registry_def rpeek_registry_def [of _ _ _ "rpeek_registry _ _ _ _"] Let_def
        rpeek_tools_def tool_defs)
  have r: "run_remote (live_registry demo_library (demo_host []) (ss_db ?s)) (fe_with_timeout ?F) (ss_env ?s) (fe_ctx ?F)
      ''hostname'' ''null'' = Inr ([CHR ''h'', newline], False)"
    by (simp add: demo_setup_def run_remote_def look)
      (simp add: hostname_tool_def hostname_remote_def decode_args_def demo_library_def demo_host_def cap_output_def)
  have q': "\<forall>tx sql params rs. h_query (demo_host []) tx sql params = Inr rs \<longrightarrow> scans_whole_rows rs"
    by (simp add: demo_host_def)
  have m: "''hostname'' \<in> set session_tools" by (simp add: session_tools_def rpeek_names_def)
  have i: "list_all (item_ok (client_flags ?t [] ''k'')) [WithValue ''host'' ''b'']"
    by (simp add: flag_name_def flag_kind_def client_flags_def)
  have st: "apply_settings (w_duration session_world) (client_flags ?t [] ''k'') [WithValue ''host'' ''b''] = Inr ?fs"
    by (simp add: set_by_name_def set_named_def client_flags_def set_flag_string)
  have b: "t_build ?t ?fs (plain_words [WithValue ''host'' ''b'']) = Inr ''null''"
    by (simp add: hostname_tool_def wire_build_def json_build_def hostname_build_def no_positionals_def demo_library_def)
  have h: "resolve_host_token session_world (flag_string ?fs ''host'') (flag_string ?fs ''token'') = Inr (''b:7017'', ''k'')"
    by (simp add: resolve_host_token_def host_token_def resolve_setting_def flag_string_def client_flags_def n)
  have j: "json_text ''k'' = ''k''" "json_text ''hostname'' = ''hostname''" "json_text [CHR ''h'', newline] = [CHR ''h'', newline]"
    using json_text_valid [OF ascii_valid_utf8] by simp_all
  have q: "json_request session_request = session_request" by (simp add: json_request_def session_request_def j)
  have c: "carries (w_wire session_world) session_server session_request"
    unfolding carries_def
    by (rule exI [of _ "''q''"], rule exI [of _ "''r''"])
      (simp add: q, simp add: session_world_def session_server_def live_server_def one_line_def max_request_line_def max_response_line_def)
  have c': "carries (w_wire session_world) (live_server demo_library (demo_host []) ?F ?s)
      \<lparr>rq_token = ''k'', rq_tool = ''hostname'', rq_args = ''null''\<rparr>"
    using c by (simp add: session_server_def session_request_def)
  have x: "exchange (w_wire session_world) client_tls_config =
      served_by (live_server demo_library (demo_host []) ?F ?s) ''c'' ''1ms''"
    by (simp add: session_world_def session_server_def)
  from session_shows_tool_output [OF token_up q' m look i st b h x c', unfolded r] show ?thesis
    by (simp add: words_of_def j)
qed

end
