(* ===== verification/Spec2Isabelle.thy ===== *)
theory Spec2Isabelle
  imports Sqlq_Translate Tool_List Tool_Files Tool_Grep Tool_Journal Server Registry Tool_Db Tool_Sql Tool_Disk Tool_Ps
    Serve_Setup Tls_Config Live_Server Session
begin

text \<open>
  A verification development of rpeek, a read-only remote diagnostic tool: \<open>rpeek serve\<close> runs on a
  host and answers, over TLS and behind a token, requests for a fixed set of tools (list, read,
  tail, grep, journal, sql, \<dots>) that a one-shot client sends.

  The parts and their theories. Names under \<open>internal/\<close> are of the directory \<open>src/internal\<close>.

  \<^item> The query language of the \<open>sql\<close> tool, \<open>internal/sqlq\<close>. \<open>Sqlq_Ast\<close>: the types of \<open>ast.go\<close> and
    \<open>engine.go\<close>. \<open>Sqlq_Lexer\<close>: \<open>lexer.go\<close>, byte by byte. \<open>Sqlq_Parser\<close>: \<open>parser.go\<close>, a method a
    definition. \<open>Sqlq_Grammar\<close>: the grammar as inductive relations, where it differs from
    the text of the help, and the proof that the parser accepts exactly it. \<open>Sqlq_Printer\<close>: well-formed queries, a printer, and the round
    trip. \<open>Sqlq_Catalog\<close>: \<open>catalog.go\<close>, resolving the names of a query against the schema.
    \<open>Sqlq_Translate\<close>: \<open>translate.go\<close>, from a query to a prepared statement.
  \<^item> The jail, \<open>internal/tools/jail.go\<close>. \<open>Go_Path\<close>: \<open>path/filepath\<close> on Unix. \<open>Jail\<close>: the roots, the
    containment test, and the resolution of a client's path through symbolic links.
  \<^item> The tools, \<open>internal/tools\<close>. \<open>Tool_Util\<close> (\<open>util.go\<close>), \<open>Tool_Env\<close> (\<open>tool.go\<close>), \<open>Registry\<close>
    (\<open>registry.go\<close>, \<open>runner.go\<close>), \<open>Tool_List\<close> on \<open>Go_Heap\<close> (\<open>container/heap\<close>), \<open>Tool_Files\<close> (\<open>tail\<close>
    and \<open>read\<close>) and \<open>Tool_Grep\<close> on \<open>Go_Bufio\<close> (\<open>bufio.Scanner\<close>), \<open>Tool_Journal\<close>, \<open>Tool_Db\<close> (the three
    \<open>db-\<close> tools and the text table) on \<open>Go_Utf8\<close> (counting runes, padding), \<open>Tool_Sql\<close>, \<open>Tool_Disk\<close>,
    \<open>Tool_Ps\<close>, \<open>Tool_Info\<close> (\<open>stat\<close>, \<open>hostname\<close>, \<open>version\<close>, \<open>help\<close>). \<open>Tool_Set\<close>: the sixteen tools as their
    \<open>init\<close> functions register them, with every text of the help, and the registry they make.
  \<^item> The databases, \<open>internal/dbconn\<close>, \<open>internal/conf\<close>, \<open>internal/netutil\<close>: \<open>Dbconn\<close>, \<open>Net_Conf\<close>,
    on \<open>Go_Strings\<close> (the \<open>strings\<close> package).
  \<^item> The server, \<open>internal/server\<close> and \<open>internal/protocol\<close>: \<open>Server\<close>; its start, \<open>tool_serve.go\<close>: \<open>Serve_Setup\<close>;
    its certificate, \<open>internal/tlsutil\<close>: \<open>Tls_Config\<close>. \<open>Live_Server\<close>: the server with the program's own tools behind it
    and the command \<open>serve\<close>, where the parts are put together.
    \<open>Session\<close>: a server and a client started from their command lines, over a connection.
  \<^item> The command, \<open>cmd/rpeek\<close> and \<open>internal/client\<close>. \<open>Go_Flag\<close>: the \<open>flag\<close> package and
    \<open>parseFlagsAnyOrder\<close>. \<open>Cli_Args\<close>: the flags and the argument builder of every tool (\<open>NewFlags\<close>).
    \<open>Client_Cmd\<close>: \<open>main.go\<close>, \<open>tool.go\<close>, \<open>serve.go\<close> and \<open>client.go\<close>; a run of the command is its outcome.
    \<open>End_To_End\<close>: the command against the server's connection handler and runner.

  \<open>Prelude\<close> has what they share: results (\<open>error + value\<close>) with their inversion rules in
  \<open>res_simps\<close>, bytes and characters, and lemmas on lists.

  How a request flows. \<open>Client_Cmd.run\<close> finds the tool of the command line, parses its flags
  (\<open>Go_Flag.parse_any_order\<close>), builds the arguments and sends one request (\<open>client_call\<close>). \<open>Server.handle_conn\<close> reads a line, checks the token, and gives tool name
  and arguments to a runner; \<open>Registry.run_remote\<close> is that runner: it finds the tool and calls its
  remote operation. A file tool calls \<open>Jail.resolve_path\<close> first, and opens only what that returns.
  The \<open>sql\<close> tool (\<open>Tool_Sql.sql_remote\<close>) finds its connection (\<open>Dbconn.db_lookup\<close>), then parses,
  limits, resolves and translates the query, and prints the rows. Every tool ends in
  \<open>Tool_Util.cap_output\<close>.

  Conventions. A Go struct is a record, a closed set of constants or an interface with a fixed
  set of implementations a datatype, a string a list of bytes (\<open>char\<close>), an error the left side of a
  sum. Errors keep their kind and arguments, not their English text. State the code mutates in
  place is passed and returned. The panics of registration, of a redeclared flag, of the suffixes of \<open>disk\<close>, of the
  slices of \<open>ps\<close> and of the cells of the text table are values of their own; other slices and indices, whose guards stand
  beside them in the code, are written with \<open>take\<close>, \<open>drop\<close> and \<open>!\<close> under the same guards. Go's \<open>int\<close> is
  \<open>int\<close> where no operation on it can leave the 64-bit range, and a word where it wraps.

  Parameters, for code outside the repository: \<open>strconv.ParseFloat\<close> (\<open>pf\<close>), Unicode lower-casing
  beyond ASCII (\<open>ul\<close>, \<open>lower\<close>), the JSON encoder and decoder, the query builder goqu (a record of
  functions), the database drivers and a transaction, the operating system (symbolic links, file
  metadata, directory batches, the bytes of a file, the files of \<open>/proc\<close>, \<open>statfs\<close>, the writes of a
  child process), the connection between client and server, random bytes and certificates, the environment, compiled
  regular expressions, \<open>time.ParseDuration\<close>, and the context, as the error its n-th check sees. Nothing is assumed of
  them but what a theorem states; the locale \<open>sql_semantics\<close> states what translation relies on in the
  query builder.

  Interfaces. \<open>Go_Heap\<close> has the locale of a bounded selection of least names and its
  interpretation on \<open>container/heap\<close>; \<open>Sqlq_Translate\<close> that of the builder's meaning and its
  interpretation on a recording builder.

  Bounds and fuel. The recursive descent of conditions takes fuel, five times the number of
  tokens and four more, because a level of nesting takes at most five calls before it consumes a
  token; lists and joins take the number of tokens; walking up a missing path takes its length.
  That each is enough is proved: \<open>parse_always_returns\<close>, \<open>jail_resolution_returns\<close>. All other loops are
  structural or have a measure.

  What the groups of lemmas show. The language: the parser is equivalent to the grammar, its
  results are well formed, it always returns, the lexer loses nothing; resolution lets only names
  of the schema and aliases through and changes nothing else; translation keeps the meaning of
  conditions under negation, binds every literal and quotes every name; the \<open>sql\<close> tool as a whole
  runs no other statement. The jail: what resolves lies, symbolic links followed, within a root.
  The tools: what each prints as a function of what the host holds, its bounds, and when it says
  truncated. The server: at most so many connections at once, a drained return, termination after
  cancellation, no tool without the token. Its start: it never runs with an empty token, its banner and
  \<open>db-list\<close> show no credentials, and its file tools see nothing outside the roots, as a statement about
  two machines that agree inside them and resolve paths alike as far as it shows (\<open>same_paths\<close>). The command: flags may stand anywhere, the precedence of flags
  and environment, the exit status as the account of the one request made, and, end to end, what it
  prints of a server's answer. The program as a whole, in \<open>Live_Server\<close>: what every answer of a
  server with all its tools depends on and what it does not (\<open>requests_confined\<close>); that no init function, command
  line or request reaches one of the panics above (\<open>nothing_panics\<close>); that \<open>serve\<close> runs with what its command line
  says; and, in \<open>Session\<close>, that a client with the server's token prints what the tool gives on the server, as far as
  JSON can carry it.

  Where the code does not do what it says: a line over the scanner's bound hides the rest of a
  file from \<open>grep\<close> (\<open>grep_long_line_hides_rest\<close>); audit records can be forged through the tool
  name (\<open>audit_record_forged\<close>); a timeout below a millisecond disables PostgreSQL's
  (\<open>sub_millisecond_timeout\<close>); a column name the schema spells is not checked again
  (\<open>canonical_column_unchecked\<close>); the use percentage of a very large file system wraps
  (\<open>use_pct_wraps\<close>); an error in resolving a path outside the jail reaches the client (\<open>outside_error_shown\<close>); the
  help's grammar has \<open>AGG( * )\<close> for every aggregate and no \<open>AS\<close> before a table's alias (\<open>sum_star_rejected\<close>,
  \<open>table_alias_after_as\<close>); the terminator \<open>--\<close> protects a single argument (\<open>terminator_protects_one\<close>).

  The tools of \<open>Tool_Set\<close> take two records of parameters, the standard library and the machine; \<open>help\<close> reads the
  registry it is itself part of, and \<open>live_registry_fixed\<close> shows that this registry exists and is the one the
  init functions make.

  Not modelled. The signal handler and the timer of \<open>serve\<close>, whose only effect, cancelling the context, is a step
  of the server; deadlines on connections, whose expiry is an error of the connection; the English texts of most
  errors; and accessors that return a field.
\<close>

end
